(* ===== verification/Prelude.thy ===== *)
theory Prelude
  imports Main "HOL-Library.Word" "HOL-Library.AList" "HOL-Library.Multiset"
begin

text \<open>
  Shared vocabulary of the development.

  \<^item> Names for the Go types the components exchange: \<^emph>\<open>bytes\<close>, \<^emph>\<open>int64\<close>,
    \<^emph>\<open>uint64\<close>, \<^emph>\<open>error\<close>.  A Go error value is its message; a call that returns
    \<open>error\<close> returns \<^emph>\<open>error option\<close>, with \<open>None\<close> for \<open>nil\<close>.
  \<^item> Run-time panics as values of a sum type (\<open>Inl\<close> the panic).
  \<^item> Buffered channels used with \<open>select { case ch <- x: default: }\<close>, and the contract of
    such a channel as the locale \<open>lossy_queue\<close>.
  \<^item> The locale \<open>served_queue\<close>: a queue over time that is served again and again.
  \<^item> The locale \<open>codec\<close>: an encoder with a decoder that inverts it on a domain.
  \<^item> The get-or-create loop over a slice that all merge routines of the rollup share,
    \<open>mergeLoop\<close>, and its index invariant.
  \<^item> List and association-list lemmas used by several components.
\<close>

type_synonym bytes = "8 word list"
type_synonym int64 = "64 word"
type_synonym uint64 = "64 word"
type_synonym error = string

named_theorems go_defs \<open>definitions of the Go run-time and standard library vocabulary\<close>
named_theorems chan_simps \<open>behaviour of buffered channels\<close>

subsection \<open>Panics\<close>

text \<open>
  The panics the modelled code can raise: use of a zero-initialised wrapper, such as the
  \<open>Sum\<close> of a metric that is a gauge, a method call through a nil pointer, and
  \<open>time.NewTicker\<close> with an interval that is not positive.
\<close>

datatype panic = InvalidInstance | NilPointer | NonPositiveInterval

type_synonym 'a res = "panic + 'a"

fun res_bind :: "'a res \<Rightarrow> ('a \<Rightarrow> 'b res) \<Rightarrow> 'b res" where
  "res_bind (Inl p) f = Inl p"
| "res_bind (Inr a) f = f a"

lemma res_bind_Inr_iff: "res_bind r f = Inr b \<longleftrightarrow> (\<exists>a. r = Inr a \<and> f a = Inr b)"
  by (cases r) auto

subsection \<open>Buffered channels\<close>

text \<open>
  A buffered channel is its capacity and the queued values, oldest first.  \<open>trySend\<close> is the
  non-blocking send \<open>select { case ch <- x: default: }\<close>, which drops the value when the
  buffer is full; \<open>recv\<close> is a receive that does not block (\<open>None\<close> on an empty channel).
\<close>

record 'a chan =
  chanCap :: nat
  chanQueue :: "'a list"

definition makeChan :: "nat \<Rightarrow> 'a chan" where
  "makeChan n = \<lparr>chanCap = n, chanQueue = []\<rparr>"

definition trySend :: "'a \<Rightarrow> 'a chan \<Rightarrow> 'a chan" where
  "trySend x ch =
     (if length (chanQueue ch) < chanCap ch
      then ch\<lparr>chanQueue := chanQueue ch @ [x]\<rparr> else ch)"

definition recv :: "'a chan \<Rightarrow> ('a \<times> 'a chan) option" where
  "recv ch = (case chanQueue ch of [] \<Rightarrow> None | x # xs \<Rightarrow> Some (x, ch\<lparr>chanQueue := xs\<rparr>))"

definition chan_ok :: "'a chan \<Rightarrow> bool" where
  "chan_ok ch \<longleftrightarrow> length (chanQueue ch) \<le> chanCap ch"

text \<open>
  What the components rely on: a send keeps the order of what is queued, never blocks and
  never exceeds the capacity; a value is lost only when the channel is full.
\<close>

locale lossy_queue =
  fixes send :: "'a \<Rightarrow> 'q \<Rightarrow> 'q"
    and items :: "'q \<Rightarrow> 'a list"
    and limit :: "'q \<Rightarrow> nat"
    and inv :: "'q \<Rightarrow> bool"
  assumes send_room: "length (items q) < limit q \<Longrightarrow> items (send x q) = items q @ [x]"
    and send_full: "\<not> length (items q) < limit q \<Longrightarrow> items (send x q) = items q"
    and send_limit: "limit (send x q) = limit q"
    and inv_bound: "inv q \<longleftrightarrow> length (items q) \<le> limit q"
begin

lemma send_inv: "inv q \<Longrightarrow> inv (send x q)"
  by (cases "length (items q) < limit q")
     (simp_all add: inv_bound send_room send_full send_limit)

lemma send_prefix: "\<exists>ys. items (send x q) = items q @ ys"
  by (cases "length (items q) < limit q") (auto simp: send_room send_full)

lemma sends_inv: "inv q \<Longrightarrow> inv (fold send xs q)"
  by (induction xs arbitrary: q) (simp_all add: send_inv)

lemma sends_limit: "limit (fold send xs q) = limit q"
  by (induction xs arbitrary: q) (simp_all add: send_limit)

lemma sends_items:
  "inv q \<Longrightarrow> items (fold send xs q) = items q @ take (limit q - length (items q)) xs"
proof (induction xs arbitrary: q)
  case (Cons x xs)
  show ?case
  proof (cases "length (items q) < limit q")
    case True
    then have "limit q - length (items q) = Suc (limit q - Suc (length (items q)))"
      by simp
    with Cons True show ?thesis
      by (simp add: send_inv send_room send_limit)
  next
    case False
    with Cons show ?thesis
      by (simp add: send_inv send_full send_limit)
  qed
qed simp

end

interpretation chan: lossy_queue trySend chanQueue chanCap chan_ok
  by unfold_locales (auto simp: trySend_def chan_ok_def)

lemma chanCap_trySend [simp, chan_simps]: "chanCap (trySend x ch) = chanCap ch"
  by (rule chan.send_limit)

lemma chan_ok_makeChan [simp]: "chan_ok (makeChan n)"
  by (simp add: chan_ok_def makeChan_def)

lemma recv_trySend_empty:
  "chanQueue ch = [] \<Longrightarrow> 0 < chanCap ch \<Longrightarrow> recv (trySend x ch) = Some (x, ch)"
  by (simp add: trySend_def recv_def)

subsection \<open>Encoders and decoders\<close>

locale codec =
  fixes enc :: "'a \<Rightarrow> 'b"
    and dec :: "'b \<Rightarrow> 'a option"
    and dom_ok :: "'a \<Rightarrow> bool"
  assumes dec_enc: "dom_ok a \<Longrightarrow> dec (enc a) = Some a"
begin

lemma enc_inj: "dom_ok a \<Longrightarrow> dom_ok b \<Longrightarrow> enc a = enc b \<longleftrightarrow> a = b"
  by (metis dec_enc option.inject)

lemma enc_decE: "dom_ok a \<Longrightarrow> dec (enc a) = Some b \<Longrightarrow> b = a"
  by (simp add: dec_enc)

end

subsection \<open>Queues that are served\<close>

text \<open>
  A queue over time, \<open>serve i\<close> telling that the step after \<open>i\<close> takes the first value out; other
  steps only append.  If a queue that is not empty is always served again, every value in it is
  served, after those before it.
\<close>

locale served_queue =
  fixes q :: "nat \<Rightarrow> 'a list" and serve :: "nat \<Rightarrow> bool"
  assumes serve_tl: "serve i \<Longrightarrow> q i \<noteq> [] \<and> q (Suc i) = tl (q i)"
    and grow: "\<not> serve i \<Longrightarrow> \<exists>ys. q (Suc i) = q i @ ys"
    and fair: "q i \<noteq> [] \<Longrightarrow> \<exists>j \<ge> i. serve j"
begin

lemma grows_until: "(\<And>k. i \<le> k \<Longrightarrow> k < i + n \<Longrightarrow> \<not> serve k) \<Longrightarrow> \<exists>ys. q (i + n) = q i @ ys"
proof (induction n)
  case (Suc n)
  have "\<not> serve (i + n)" using Suc.prems [of "i + n"] by simp
  moreover obtain ys where "q (i + n) = q i @ ys" using Suc by auto
  ultimately show ?case using grow [of "i + n"] by auto
qed simp

lemma next_served:
  assumes "q i \<noteq> []"
  shows "\<exists>j \<ge> i. serve j \<and> (\<exists>ys. q j = q i @ ys)"
proof -
  obtain j where j: "i \<le> j" "serve j" using fair [OF assms] by blast
  define l where "l = (LEAST l. serve (i + l))"
  have "serve (i + (j - i))" using j by simp
  then have "serve (i + l)" unfolding l_def by (rule LeastI)
  moreover have "\<not> serve k" if "i \<le> k" "k < i + l" for k
  proof
    assume "serve k"
    then have "l \<le> k - i" unfolding l_def using that(1) by (intro Least_le) simp
    with that show False by simp
  qed
  then have "\<exists>ys. q (i + l) = q i @ ys" by (rule grows_until)
  ultimately show ?thesis using le_add1 by blast
qed

lemma served:
  assumes "x \<in> set (q i)"
  shows "\<exists>j \<ge> i. serve j \<and> hd (q j) = x"
proof -
  obtain k where "k < length (q i)" "q i ! k = x" using assms by (auto simp: in_set_conv_nth)
  then show ?thesis
  proof (induction k arbitrary: i)
    case 0
    then obtain j ys where "i \<le> j" "serve j" "q j = q i @ ys" using next_served [of i] by fastforce
    with 0 show ?case by (metis hd_append2 hd_conv_nth length_greater_0_conv)
  next
    case (Suc k)
    have "q i \<noteq> []" using Suc.prems(1) by auto
    then obtain j ys where j: "i \<le> j" "serve j" "q j = q i @ ys" using next_served [of i] by blast
    then have "q (Suc j) = tl (q i) @ ys" using serve_tl [of j] \<open>q i \<noteq> []\<close> by simp
    then have "k < length (q (Suc j))" "q (Suc j) ! k = x"
      using Suc.prems by (auto simp: nth_append nth_tl)
    then obtain j' where "Suc j \<le> j'" "serve j'" "hd (q j') = x" using Suc.IH [of "Suc j"] by blast
    with j(1) show ?case by (metis Suc_leD le_trans)
  qed
qed

end

subsection \<open>Lists\<close>

lemma list_ex_concat: "list_ex P (concat xss) \<longleftrightarrow> list_ex (list_ex P) xss"
  by (induction xss) auto

lemma fold_inv:
  "Q s \<Longrightarrow> (\<And>x s. x \<in> set xs \<Longrightarrow> Q s \<Longrightarrow> Q (f x s)) \<Longrightarrow> Q (fold f xs s)"
  by (induction xs arbitrary: s) auto

lemma sum_list_update_word:
  fixes f :: "'a \<Rightarrow> 'b::ab_group_add"
  shows "i < length xs \<Longrightarrow>
    sum_list (map f (xs[i := y])) = sum_list (map f xs) - f (xs ! i) + f y"
proof (induction xs arbitrary: i)
  case (Cons a xs)
  then show ?case by (cases i) (simp_all add: algebra_simps)
qed simp

lemma Min_insert_min:
  fixes a b :: "'a::linorder"
  shows "finite A \<Longrightarrow> Min (insert (min a b) A) = Min (insert a (insert b A))"
  by (cases "A = {}") (simp_all add: min.assoc)

lemma Max_insert_max:
  fixes a b :: "'a::linorder"
  shows "finite A \<Longrightarrow> Max (insert (max a b) A) = Max (insert a (insert b A))"
  by (cases "A = {}") (simp_all add: max.assoc)

lemma distinct_map_fst_filter:
  "distinct (map fst xs) \<Longrightarrow> distinct (map fst (filter P xs))"
  by (induction xs) auto

subsection \<open>The get-or-create loop\<close>

text \<open>
  \<open>indexBy\<close> is the loop that enters the elements a slice already holds into a Go map from
  key to element, \<open>mergeLoop\<close> the loop over the source slice: an element whose key is in the
  map is merged into the destination element found there, any other is appended and entered.
  References into the destination slice are its indices.
\<close>

definition indexBy :: "('d \<Rightarrow> string) \<Rightarrow> 'd list \<Rightarrow> (string \<rightharpoonup> nat)" where
  "indexBy dk ds = fold (\<lambda>i g. g(dk (ds ! i) \<mapsto> i)) [0..<length ds] Map.empty"

fun mergeLoop :: "('s \<Rightarrow> string) \<Rightarrow> ('d \<Rightarrow> 's \<Rightarrow> 'd res) \<Rightarrow> ('s \<Rightarrow> 'd res) \<Rightarrow>
    (string \<rightharpoonup> nat) \<Rightarrow> 'd list \<Rightarrow> 's list \<Rightarrow> 'd list res" where
  "mergeLoop sk upd new g ds [] = Inr ds"
| "mergeLoop sk upd new g ds (s # ss) =
     (case g (sk s) of
        Some i \<Rightarrow> res_bind (upd (ds ! i) s) (\<lambda>d. mergeLoop sk upd new g (ds[i := d]) ss)
      | None \<Rightarrow> res_bind (new s)
          (\<lambda>d. mergeLoop sk upd new (g(sk s \<mapsto> length ds)) (ds @ [d]) ss))"

text \<open>The map holds exactly the positions of the destination elements, by key.\<close>

definition indexed :: "('d \<Rightarrow> string) \<Rightarrow> (string \<rightharpoonup> nat) \<Rightarrow> 'd list \<Rightarrow> bool" where
  "indexed dk g ds \<longleftrightarrow> (\<forall>k i. g k = Some i \<longleftrightarrow> i < length ds \<and> dk (ds ! i) = k)"

lemma indexed_distinct: "indexed dk g ds \<Longrightarrow> distinct (map dk ds)"
  unfolding indexed_def distinct_conv_nth by (metis length_map nth_map option.inject)

lemma indexed_None:
  assumes "indexed dk g ds"
  shows "g k = None \<longleftrightarrow> k \<notin> set (map dk ds)"
proof -
  have "(\<exists>i. g k = Some i) \<longleftrightarrow> (\<exists>i < length ds. dk (ds ! i) = k)"
    using assms by (auto simp: indexed_def)
  also have "\<dots> \<longleftrightarrow> k \<in> set (map dk ds)" by (force simp: in_set_conv_nth)
  finally show ?thesis by (cases "g k") auto
qed

lemma indexed_append:
  "indexed dk g ds \<Longrightarrow> g (dk d) = None \<Longrightarrow> indexed dk (g(dk d \<mapsto> length ds)) (ds @ [d])"
  unfolding indexed_def by (auto simp: nth_append less_Suc_eq) (metis option.distinct(1))

lemma indexed_update:
  "indexed dk g ds \<Longrightarrow> i < length ds \<Longrightarrow> dk d = dk (ds ! i) \<Longrightarrow> indexed dk g (ds[i := d])"
  unfolding indexed_def by (simp add: nth_list_update)

lemma indexed_indexBy:
  assumes "distinct (map dk ds)"
  shows "indexed dk (indexBy dk ds) ds"
proof -
  have "n \<le> length ds \<Longrightarrow>
      fold (\<lambda>i g. g(dk (ds ! i) \<mapsto> i)) [0..<n] Map.empty k = Some i \<longleftrightarrow> i < n \<and> dk (ds ! i) = k"
    for n k i
  proof (induction n)
    case (Suc n)
    from Suc.prems assms have "i < n \<Longrightarrow> dk (ds ! i) \<noteq> dk (ds ! n)"
      by (auto simp: distinct_conv_nth)
    with Suc show ?case by (auto simp: less_Suc_eq)
  qed simp
  then show ?thesis by (simp add: indexed_def indexBy_def)
qed

text \<open>
  What the merges of the rollup have in common.  Under \<open>oks\<close> for the source elements and
  \<open>okd\<close> for the destination elements, creating and merging keep the key; the loop then keeps
  the keys of the destination distinct.
\<close>

locale keyed_merge =
  fixes sk :: "'s \<Rightarrow> string" and dk :: "'d \<Rightarrow> string"
    and upd :: "'d \<Rightarrow> 's \<Rightarrow> 'd res" and new :: "'s \<Rightarrow> 'd res"
    and oks :: "'s \<Rightarrow> bool" and okd :: "'d \<Rightarrow> bool"
  assumes new_ok: "oks s \<Longrightarrow> new s = Inr d \<Longrightarrow> dk d = sk s \<and> okd d"
    and upd_ok: "oks s \<Longrightarrow> okd d \<Longrightarrow> dk d = sk s \<Longrightarrow> upd d s = Inr d' \<Longrightarrow> dk d' = sk s \<and> okd d'"
begin

abbreviation loop :: "(string \<rightharpoonup> nat) \<Rightarrow> 'd list \<Rightarrow> 's list \<Rightarrow> 'd list res" where
  "loop \<equiv> mergeLoop sk upd new"

lemma loop_induct [consumes 4, case_names Nil New Upd]:
  assumes "indexed dk g ds" and "\<forall>s \<in> set ss. oks s" and "\<forall>d \<in> set ds. okd d"
    and "loop g ds ss = Inr ds'"
    and Nil: "\<And>g ds. indexed dk g ds \<Longrightarrow> \<forall>d \<in> set ds. okd d \<Longrightarrow> Q ds [] ds"
    and New: "\<And>ds s ss d ds'. oks s \<Longrightarrow> sk s \<notin> set (map dk ds) \<Longrightarrow> new s = Inr d \<Longrightarrow>
      dk d = sk s \<Longrightarrow> Q (ds @ [d]) ss ds' \<Longrightarrow> Q ds (s # ss) ds'"
    and Upd: "\<And>ds s ss d i ds'. oks s \<Longrightarrow> i < length ds \<Longrightarrow> okd (ds ! i) \<Longrightarrow> dk (ds ! i) = sk s \<Longrightarrow>
      upd (ds ! i) s = Inr d \<Longrightarrow> dk d = sk s \<Longrightarrow> Q (ds[i := d]) ss ds' \<Longrightarrow> Q ds (s # ss) ds'"
  shows "Q ds ss ds'"
  using assms(1-4)
proof (induction ss arbitrary: g ds)
  case Nil
  then show ?case using assms(5) by auto
next
  case (Cons s ss)
  show ?case
  proof (cases "g (sk s)")
    case None
    with Cons.prems(4) obtain d where d: "new s = Inr d"
      "loop (g(sk s \<mapsto> length ds)) (ds @ [d]) ss = Inr ds'"
      by (auto simp: res_bind_Inr_iff)
    with Cons.prems(2) have dk: "dk d = sk s" "okd d" using new_ok by auto
    with None Cons.prems(1) have idx: "indexed dk (g(sk s \<mapsto> length ds)) (ds @ [d])"
      using indexed_append [of dk g ds d] by simp
    have "\<forall>s \<in> set ss. oks s" "\<forall>x \<in> set (ds @ [d]). okd x"
      using Cons.prems(2,3) dk by auto
    then have "Q (ds @ [d]) ss ds'" using Cons.IH [OF idx _ _ d(2)] by blast
    with None Cons.prems(1,2) d dk show ?thesis by (intro New) (auto simp: indexed_None)
  next
    case (Some i)
    with Cons.prems(1) have i: "i < length ds" "dk (ds ! i) = sk s" by (auto simp: indexed_def)
    from Some Cons.prems(4) obtain d where d: "upd (ds ! i) s = Inr d"
      "loop g (ds[i := d]) ss = Inr ds'"
      by (auto simp: res_bind_Inr_iff)
    have oki: "okd (ds ! i)" using i Cons.prems(3) by auto
    with d i Cons.prems(2) have dk: "dk d = sk s" "okd d" using upd_ok by auto
    have "\<forall>x \<in> set (ds[i := d]). okd x"
      using Cons.prems(3) dk(2) set_update_subset_insert [of ds i d] by blast
    with d dk i Cons.prems(1,2) have "Q (ds[i := d]) ss ds'"
      by (intro Cons.IH [of g]) (auto intro: indexed_update)
    with oki i d dk Cons.prems(2) show ?thesis by (intro Upd) auto
  qed
qed

lemma loop_keys:
  assumes "indexed dk g ds" and "\<forall>s \<in> set ss. oks s" and "\<forall>d \<in> set ds. okd d"
    and "loop g ds ss = Inr ds'"
  shows "set (map dk ds') = set (map dk ds) \<union> set (map sk ss) \<and>
    length ds \<le> length ds' \<and> length ds' \<le> length ds + length ss"
  using assms
proof (induction rule: loop_induct)
  case (Upd ds s ss d i ds')
  then have "map dk (ds[i := d]) = map dk ds"
    by (simp add: map_update list_update_same_conv)
  then have "set (map dk (ds[i := d])) = set (map dk ds)" by simp
  moreover have "sk s \<in> set (map dk ds)" using Upd(2,4) by (metis length_map nth_map nth_mem)
  ultimately show ?case using Upd by auto
qed auto

lemma loop_ok:
  assumes "indexed dk g ds" and "\<forall>s \<in> set ss. oks s" and "\<forall>d \<in> set ds. okd d"
    and "loop g ds ss = Inr ds'"
  shows "distinct (map dk ds') \<and> (\<forall>d \<in> set ds'. okd d)"
  using assms by (induction rule: loop_induct) (auto dest: indexed_distinct)

lemma loop_total:
  assumes "\<And>s. oks s \<Longrightarrow> \<exists>d. new s = Inr d"
    and "\<And>d s. oks s \<Longrightarrow> okd d \<Longrightarrow> dk d = sk s \<Longrightarrow> \<exists>d'. upd d s = Inr d'"
    and "indexed dk g ds" and "\<forall>s \<in> set ss. oks s" and "\<forall>d \<in> set ds. okd d"
  shows "\<exists>ds'. loop g ds ss = Inr ds'"
  using assms(3-5)
proof (induction ss arbitrary: g ds)
  case (Cons s ss)
  show ?case
  proof (cases "g (sk s)")
    case None
    have "oks s" using Cons.prems(2) by simp
    with assms(1) obtain d where d: "new s = Inr d" by blast
    with Cons.prems have dk: "dk d = sk s" "okd d" using new_ok by auto
    with None Cons.prems(1) have idx: "indexed dk (g(sk s \<mapsto> length ds)) (ds @ [d])"
      using indexed_append [of dk g ds d] by simp
    have ok: "\<forall>s \<in> set ss. oks s" "\<forall>x \<in> set (ds @ [d]). okd x"
      using Cons.prems(2,3) dk by auto
    from None d have "loop g ds (s # ss) = loop (g(sk s \<mapsto> length ds)) (ds @ [d]) ss" by simp
    then show ?thesis using Cons.IH [OF idx ok] by (simp only:)
  next
    case (Some i)
    with Cons.prems(1) have i: "i < length ds" "dk (ds ! i) = sk s" by (auto simp: indexed_def)
    with Cons.prems have ok: "okd (ds ! i)" "oks s" by auto
    with assms(2) i obtain d where d: "upd (ds ! i) s = Inr d" by blast
    have dk: "dk d = sk s" "okd d" using upd_ok [OF ok(2,1) i(2) d] by auto
    have "\<forall>x \<in> set (ds[i := d]). okd x"
      using Cons.prems(3) dk(2) set_update_subset_insert [of ds i d] by blast
    then have "\<exists>ds'. loop g (ds[i := d]) ss = Inr ds'"
      using Cons.prems i dk by (intro Cons.IH) (auto intro: indexed_update)
    with Some d show ?thesis by simp
  qed
qed simp

end

text \<open>A quantity that creating and merging conserve is conserved by the whole loop.\<close>

locale keyed_merge_sum = keyed_merge sk dk upd new oks okd
  for sk :: "'s \<Rightarrow> string" and dk :: "'d \<Rightarrow> string" and upd new oks okd +
  fixes w :: "'d \<Rightarrow> 'm::ab_group_add" and v :: "'s \<Rightarrow> 'm"
  assumes new_w: "oks s \<Longrightarrow> new s = Inr d \<Longrightarrow> w d = v s"
    and upd_w: "oks s \<Longrightarrow> okd d \<Longrightarrow> dk d = sk s \<Longrightarrow> upd d s = Inr d' \<Longrightarrow> w d' = w d + v s"
begin

lemma loop_sum:
  assumes "indexed dk g ds" and "\<forall>s \<in> set ss. oks s" and "\<forall>d \<in> set ds. okd d"
    and "loop g ds ss = Inr ds'"
  shows "sum_list (map w ds') = sum_list (map w ds) + sum_list (map v ss)"
  using assms
proof (induction rule: loop_induct)
  case (New ds s ss d ds')
  then show ?case by (simp add: new_w add.assoc)
next
  case (Upd ds s ss d i ds')
  then have "w d = w (ds ! i) + v s" by (intro upd_w)
  with Upd show ?case by (simp add: sum_list_update_word algebra_simps)
qed simp

end

end
