(* ===== verification/GoStd.thy ===== *)
theory GoStd
  imports Prelude "HOL-Library.Char_ord" "HOL-Library.List_Lexorder"
begin

text \<open>
  The parts of Go's standard library and of its basic types that the sampler uses: instants
  and durations of package \<open>time\<close>, hexadecimal strings of \<open>encoding/hex\<close>, the verb
  \<open>%d\<close> of \<open>fmt\<close>, and \<open>float64\<close> arithmetic.  Strings are byte sequences and are
  compared bytewise, which is the lexicographic order of the imported library theories.
\<close>

subsection \<open>Package time\<close>

text \<open>
  A \<open>time.Time\<close> is the number of nanoseconds since the Unix epoch, without a bound: Go's
  type reaches far beyond what 64 bits of nanoseconds can express, and its zero value is the
  first of January of the year 1.  A \<open>time.Duration\<close> is an \<open>int64\<close> of nanoseconds.
\<close>

type_synonym time = int
type_synonym duration = int64

definition zeroTime :: time where
  "zeroTime = - 62135596800 * 1000000000"

definition IsZero :: "time \<Rightarrow> bool" where
  "IsZero t \<longleftrightarrow> t = zeroTime"

definition Second :: duration where
  "Second = 1000000000"

text \<open>\<open>UnixNano\<close> computes in \<open>int64\<close>, so it wraps around outside the years 1678 to 2262.\<close>

definition UnixNano :: "time \<Rightarrow> int64" where
  "UnixNano t = word_of_int t"

text \<open>\<open>time.Unix(0, ns)\<close>.\<close>

definition UnixNsec :: "int64 \<Rightarrow> time" where
  "UnixNsec ns = sint ns"

definition Add :: "time \<Rightarrow> duration \<Rightarrow> time" where
  "Add t d = t + sint d"

text \<open>\<open>t.Sub(u)\<close> saturates at the smallest and the largest duration.\<close>

definition Sub :: "time \<Rightarrow> time \<Rightarrow> duration" where
  "Sub t u = word_of_int (max (- (2 ^ 63)) (min (2 ^ 63 - 1) (t - u)))"

definition Before :: "time \<Rightarrow> time \<Rightarrow> bool" where
  "Before t u \<longleftrightarrow> t < u"

definition After :: "time \<Rightarrow> time \<Rightarrow> bool" where
  "After t u \<longleftrightarrow> u < t"

definition nano_range :: "time \<Rightarrow> bool" where
  "nano_range t \<longleftrightarrow> - (2 ^ 63) \<le> t \<and> t < 2 ^ 63"

lemma sint_word_of_int_64:
  "- (2 ^ 63) \<le> i \<Longrightarrow> i < 2 ^ 63 \<Longrightarrow> sint (word_of_int i :: int64) = i"
  by (simp add: sint_sbintrunc' signed_take_bit_int_eq_self)

lemma sint_range_64: "- (2 ^ 63) \<le> sint (w :: int64) \<and> sint w < 2 ^ 63"
  using sint_range_size [of w] by (simp add: word_size)

interpretation unix_nano: codec UnixNano "\<lambda>ns. Some (UnixNsec ns)" nano_range
  by unfold_locales (simp add: UnixNano_def UnixNsec_def nano_range_def sint_word_of_int_64)

lemma UnixNsec_UnixNano [simp]: "nano_range t \<Longrightarrow> UnixNsec (UnixNano t) = t"
  using unix_nano.dec_enc by simp

lemma UnixNano_UnixNsec [simp]: "UnixNano (UnixNsec ns) = ns"
  by (simp add: UnixNano_def UnixNsec_def)

lemma nano_range_UnixNsec [simp]: "nano_range (UnixNsec ns)"
  using sint_range_64 by (simp add: nano_range_def UnixNsec_def)

lemma sint_UnixNano: "nano_range t \<Longrightarrow> sint (UnixNano t) = t"
  by (simp add: UnixNano_def nano_range_def sint_word_of_int_64)

lemma not_nano_range_zeroTime: "\<not> nano_range zeroTime"
  by (simp add: nano_range_def zeroTime_def)

lemma zeroTime_less_nat: "zeroTime < int n"
  by (simp add: zeroTime_def)

lemma sint_UnixNano_zeroTime: "sint (UnixNano zeroTime) = - 6795364578871345152"
  by (simp add: UnixNano_def zeroTime_def)

lemma sint_Sub:
  "sint (Sub t u) = max (- (2 ^ 63)) (min (2 ^ 63 - 1) (t - u))"
  unfolding Sub_def by (rule sint_word_of_int_64) auto

subsection \<open>Package encoding/hex\<close>

definition hexDigits :: string where
  "hexDigits = ''0123456789abcdef''"

fun EncodeToString :: "bytes \<Rightarrow> string" where
  "EncodeToString [] = []"
| "EncodeToString (b # bs) =
     hexDigits ! (unat b div 16) # hexDigits ! (unat b mod 16) # EncodeToString bs"

definition fromHexChar :: "char \<Rightarrow> nat option" where
  "fromHexChar c =
     (let n = (of_char c :: nat) in
      if 48 \<le> n \<and> n \<le> 57 then Some (n - 48)
      else if 97 \<le> n \<and> n \<le> 102 then Some (n - 97 + 10)
      else if 65 \<le> n \<and> n \<le> 70 then Some (n - 65 + 10)
      else None)"

text \<open>\<open>None\<close> is the error of a digit that is not hexadecimal or of an odd length.\<close>

fun DecodeString :: "string \<Rightarrow> bytes option" where
  "DecodeString [] = Some []"
| "DecodeString [c] = None"
| "DecodeString (c # d # s) =
     (case fromHexChar c of None \<Rightarrow> None
      | Some hi \<Rightarrow>
        (case fromHexChar d of None \<Rightarrow> None
         | Some lo \<Rightarrow> map_option (\<lambda>bs. of_nat (16 * hi + lo) # bs) (DecodeString s)))"

lemma fromHexChar_hexDigits: "n < 16 \<Longrightarrow> fromHexChar (hexDigits ! n) = Some n"
proof -
  assume "n < 16"
  then have "n \<in> set [0..<16]" by simp
  moreover have "\<forall>n \<in> set [0..<16]. fromHexChar (hexDigits ! n) = Some n"
    by code_simp
  ultimately show ?thesis by blast
qed

lemma unat_byte_less: "unat (b :: 8 word) < 256"
  using unsigned_less [of b] by simp

lemma DecodeString_EncodeToString: "DecodeString (EncodeToString bs) = Some bs"
proof (induction bs)
  case (Cons b bs)
  have "unat b div 16 < 16" using unat_byte_less [of b] by simp
  then show ?case using Cons by (simp add: fromHexChar_hexDigits)
qed simp

interpretation hex: codec EncodeToString DecodeString "\<lambda>_. True"
  by unfold_locales (rule DecodeString_EncodeToString)

lemma EncodeToString_inject [simp]: "EncodeToString a = EncodeToString b \<longleftrightarrow> a = b"
  by (rule hex.enc_inj) simp_all

lemma length_EncodeToString [simp]: "length (EncodeToString bs) = 2 * length bs"
  by (induction bs) auto

lemma hexDigits_nth_in: "n < 16 \<Longrightarrow> hexDigits ! n \<in> set hexDigits"
  by (rule nth_mem) (simp add: hexDigits_def)

lemma set_EncodeToString: "set (EncodeToString bs) \<subseteq> set hexDigits"
proof (induction bs)
  case (Cons b bs)
  have "unat b div 16 < 16" using unat_byte_less [of b] by simp
  with Cons show ?case by (auto intro: hexDigits_nth_in)
qed simp

subsection \<open>The verb \<open>%d\<close> of package fmt\<close>

definition digitChar :: "nat \<Rightarrow> char" where
  "digitChar n = hexDigits ! n"

fun showNat :: "nat \<Rightarrow> string" where
  "showNat n = (if n < 10 then [digitChar n] else showNat (n div 10) @ [digitChar (n mod 10)])"

declare showNat.simps [simp del]

definition showInt :: "int \<Rightarrow> string" where
  "showInt i = (if i < 0 then CHR ''-'' # showNat (nat (- i)) else showNat (nat i))"

subsection \<open>Type float64\<close>

text \<open>
  An IEEE 754 double: not a number, an infinity with its sign, or a finite value
  \<open>(-1)^s * m * 2^e\<close>.  Representations need not be normalised: every operation compares and
  rounds values, not representations.  \<open>fround\<close> rounds to 53 bits, to nearest with ties to
  even, with the smallest exponent \<open>-1074\<close> of the subnormal numbers, and overflows to an
  infinity at \<open>2^1024\<close>.
\<close>

datatype float64 = NaN | Inf bool | Fin bool nat int

fun bitLen :: "nat \<Rightarrow> nat" where
  "bitLen n = (if n = 0 then 0 else Suc (bitLen (n div 2)))"

declare bitLen.simps [simp del]

definition foverflow :: "bool \<Rightarrow> nat \<Rightarrow> int \<Rightarrow> float64" where
  "foverflow s m e = (if m \<noteq> 0 \<and> int (bitLen m) + e > 1024 then Inf s else Fin s m e)"

definition fround :: "bool \<Rightarrow> nat \<Rightarrow> int \<Rightarrow> float64" where
  "fround s m e =
     (let k = max (int (bitLen m) - 53) (- 1074 - e) in
      if k \<le> 0 then foverflow s m e
      else let n = nat k; q = m div 2 ^ n; r = m mod 2 ^ n; h = 2 ^ (n - 1);
               q' = (if r > h \<or> (r = h \<and> odd q) then q + 1 else q)
           in foverflow s q' (e + k))"

text \<open>The value of a finite number, scaled by \<open>2^(-b)\<close> for some \<open>b \<le> e\<close>.\<close>

definition fscale :: "bool \<Rightarrow> nat \<Rightarrow> int \<Rightarrow> int \<Rightarrow> int" where
  "fscale s m e b = (if s then - 1 else 1) * (int m * 2 ^ nat (e - b))"

fun fadd :: "float64 \<Rightarrow> float64 \<Rightarrow> float64" where
  "fadd NaN y = NaN"
| "fadd x NaN = NaN"
| "fadd (Inf s) (Inf t) = (if s = t then Inf s else NaN)"
| "fadd (Inf s) y = Inf s"
| "fadd x (Inf t) = Inf t"
| "fadd (Fin s m e) (Fin t n f) =
     (let b = min e f; v = fscale s m e b + fscale t n f b in
      if v = 0 then Fin (s \<and> t) 0 0 else fround (v < 0) (nat \<bar>v\<bar>) b)"

fun fmul :: "float64 \<Rightarrow> float64 \<Rightarrow> float64" where
  "fmul NaN y = NaN"
| "fmul x NaN = NaN"
| "fmul (Inf s) (Inf t) = Inf (s \<noteq> t)"
| "fmul (Inf s) (Fin t n f) = (if n = 0 then NaN else Inf (s \<noteq> t))"
| "fmul (Fin s m e) (Inf t) = (if m = 0 then NaN else Inf (s \<noteq> t))"
| "fmul (Fin s m e) (Fin t n f) = fround (s \<noteq> t) (m * n) (e + f)"

text \<open>The comparison \<open>x < y\<close>; every comparison with a NaN is false.\<close>

fun flt :: "float64 \<Rightarrow> float64 \<Rightarrow> bool" where
  "flt NaN y = False"
| "flt x NaN = False"
| "flt (Inf s) (Inf t) = (s \<and> \<not> t)"
| "flt (Inf s) y = s"
| "flt x (Inf t) = (\<not> t)"
| "flt (Fin s m e) (Fin t n f) = (fscale s m e (min e f) < fscale t n f (min e f))"

fun isNaN :: "float64 \<Rightarrow> bool" where
  "isNaN NaN = True"
| "isNaN x = False"

definition fgt :: "float64 \<Rightarrow> float64 \<Rightarrow> bool" where
  "fgt x y = flt y x"

definition fle :: "float64 \<Rightarrow> float64 \<Rightarrow> bool" where
  "fle x y \<longleftrightarrow> \<not> isNaN x \<and> \<not> isNaN y \<and> \<not> flt y x"

text \<open>The conversion \<open>float64(n)\<close>.\<close>

definition floatOfInt :: "int \<Rightarrow> float64" where
  "floatOfInt n = fround (n < 0) (nat \<bar>n\<bar>) 0"

lemma bitLen_le: "m < 2 ^ k \<Longrightarrow> bitLen m \<le> k"
proof (induction k arbitrary: m)
  case 0
  then show ?case by (simp add: bitLen.simps)
next
  case (Suc k)
  then have "bitLen (m div 2) \<le> k" by simp
  then show ?case by (subst bitLen.simps) simp
qed

lemma fround_small: "m < 2 ^ 53 \<Longrightarrow> fround s m 0 = Fin s m 0"
  using bitLen_le [of m 53] by (simp add: fround_def foverflow_def)

lemma floatOfInt_small: "\<bar>n\<bar> < 2 ^ 53 \<Longrightarrow> floatOfInt n = Fin (n < 0) (nat \<bar>n\<bar>) 0"
  unfolding floatOfInt_def by (rule fround_small) (simp add: nat_less_iff)

lemma floatOfInt_fgt:
  assumes "\<bar>a\<bar> < 2 ^ 53" and "\<bar>b\<bar> < 2 ^ 53"
  shows "fgt (floatOfInt a) (floatOfInt b) \<longleftrightarrow> a > b"
  using assms by (simp add: floatOfInt_small fgt_def fscale_def)

lemma fle_iff_not_fgt: "\<not> isNaN x \<Longrightarrow> \<not> isNaN y \<Longrightarrow> fle x y \<longleftrightarrow> \<not> fgt x y"
  by (simp add: fle_def fgt_def)

lemma fle_fgt_disjoint: "\<not> (fle x y \<and> fgt x y)"
  by (simp add: fle_def fgt_def)

end
