(* ===== verification/Pdata.thy ===== *)
theory Pdata
  imports GoStd
begin

text \<open>
  The OpenTelemetry data the sampler moves: the messages behind \<open>ptrace.Traces\<close>,
  \<open>pmetric.Metrics\<close> and \<open>plog.Logs\<close>, each a slice of per-resource groups of per-scope
  groups of items.  Slices are lists and messages are records; what the sampler only copies is
  kept in an opaque \<open>..._other\<close> field.

  The library that wraps these messages (\<open>go.opentelemetry.io/collector/pdata\<close>) is not part
  of the repository.  Its operations that compute something are the fields of a parameter of
  type \<open>pdata\<close>, and the behaviour its documentation promises is stated as the predicates
  \<open>traceid_ok\<close>, \<open>timestamp_ok\<close>, \<open>value_ok\<close>, \<open>attrmap_ok\<close> and
  \<open>numpoint_ok\<close>.  \<open>pdata_example\<close> is a concrete instance that satisfies all of them;
  concrete evaluations use it.
\<close>

type_synonym TraceID = bytes

datatype Value =
    ValueEmpty | ValueStr string | ValueBool bool | ValueInt int64 | ValueDouble float64
  | ValueMap "(string \<times> Value) list" | ValueSlice "Value list" | ValueBytes bytes

type_synonym AttrMap = "(string \<times> Value) list"

record Resource =
  res_attrs :: AttrMap
  res_other :: bytes

record InstrumentationScope =
  scope_name :: string
  scope_version :: string
  scope_other :: bytes

definition NewResource :: Resource where
  "NewResource = \<lparr>res_attrs = [], res_other = []\<rparr>"

subsection \<open>Traces\<close>

datatype StatusCode = StatusCodeUnset | StatusCodeOk | StatusCodeError

record Span =
  span_traceID :: TraceID
  span_start :: uint64
  span_end :: uint64
  span_status :: StatusCode
  span_attrs :: AttrMap
  span_other :: bytes

record ScopeSpans =
  ss_scope :: InstrumentationScope
  ss_schema :: string
  ss_spans :: "Span list"

record ResourceSpans =
  rs_resource :: Resource
  rs_schema :: string
  rs_scopes :: "ScopeSpans list"

type_synonym Traces = "ResourceSpans list"

definition spans_of :: "Traces \<Rightarrow> Span list" where
  "spans_of t = concat (map (\<lambda>rs. concat (map ss_spans (rs_scopes rs))) t)"

lemma spans_of_append [simp]: "spans_of (a @ b) = spans_of a @ spans_of b"
  by (simp add: spans_of_def)

lemma spans_of_Nil [simp]: "spans_of [] = []"
  by (simp add: spans_of_def)

subsection \<open>Metrics\<close>

datatype NumberValue = NumberEmpty | NumberInt int64 | NumberDouble float64

record NumberDataPoint =
  dp_attrs :: AttrMap
  dp_value :: NumberValue
  dp_other :: bytes

datatype MetricData =
    MetricEmpty
  | MetricGauge "NumberDataPoint list"
  | MetricSum bool int "NumberDataPoint list"  \<comment> \<open>monotonic, aggregation temporality, points\<close>
  | MetricOther bytes  \<comment> \<open>histogram, exponential histogram, summary\<close>

record Metric =
  m_name :: string
  m_description :: string
  m_unit :: string
  m_data :: MetricData
  m_other :: bytes

record ScopeMetrics =
  sm_scope :: InstrumentationScope
  sm_schema :: string
  sm_metrics :: "Metric list"

record ResourceMetrics =
  rm_resource :: Resource
  rm_schema :: string
  rm_scopes :: "ScopeMetrics list"

type_synonym Metrics = "ResourceMetrics list"

subsection \<open>Logs\<close>

record LogRecord =
  lr_traceID :: TraceID
  lr_severity :: int
  lr_body :: Value
  lr_attrs :: AttrMap
  lr_other :: bytes

record ScopeLogs =
  sl_scope :: InstrumentationScope
  sl_schema :: string
  sl_records :: "LogRecord list"

record ResourceLogs =
  rl_resource :: Resource
  rl_schema :: string
  rl_scopes :: "ScopeLogs list"

type_synonym Logs = "ResourceLogs list"

definition records_of :: "Logs \<Rightarrow> LogRecord list" where
  "records_of l = concat (map (\<lambda>rl. concat (map sl_records (rl_scopes rl))) l)"

lemma records_of_append [simp]: "records_of (a @ b) = records_of a @ records_of b"
  by (simp add: records_of_def)

lemma records_of_Nil [simp]: "records_of [] = []"
  by (simp add: records_of_def)

subsection \<open>The operations of the pdata library\<close>

text \<open>
  \<open>pd_Put\<close> stands for \<open>PutInt\<close>, \<open>PutBool\<close> and \<open>PutEmpty\<close> followed by
  \<open>CopyTo\<close>.  The accessors \<open>pd_IntValue\<close> and \<open>pd_DoubleValue\<close> take any data point
  value, since the sampler calls them without asking for the type first.
\<close>

record pdata =
  pd_IsEmpty :: "TraceID \<Rightarrow> bool"
  pd_String :: "TraceID \<Rightarrow> string"
  pd_AsTime :: "uint64 \<Rightarrow> time"
  pd_AsString :: "Value \<Rightarrow> string"
  pd_Str :: "Value \<Rightarrow> string"
  pd_Int :: "Value \<Rightarrow> int64"
  pd_Get :: "AttrMap \<Rightarrow> string \<Rightarrow> Value option"
  pd_Put :: "AttrMap \<Rightarrow> string \<Rightarrow> Value \<Rightarrow> AttrMap"
  pd_Remove :: "AttrMap \<Rightarrow> string \<Rightarrow> AttrMap"
  pd_IntValue :: "NumberValue \<Rightarrow> int64"
  pd_DoubleValue :: "NumberValue \<Rightarrow> float64"

abbreviation keys :: "AttrMap \<Rightarrow> string list" where
  "keys m \<equiv> map fst m"

text \<open>
  A trace ID is empty when none of its bytes is non-zero.  The sampler uses \<open>String\<close> as
  the identifier of a trace, so it relies on it being the hexadecimal form.
\<close>

definition traceid_ok :: "pdata \<Rightarrow> bool" where
  "traceid_ok P \<longleftrightarrow>
     (\<forall>t. pd_IsEmpty P t \<longleftrightarrow> (\<forall>b \<in> set t. b = 0)) \<and>
     (\<forall>t. \<not> pd_IsEmpty P t \<longrightarrow> pd_String P t = EncodeToString t)"

text \<open>A timestamp counts the nanoseconds since the Unix epoch.\<close>

definition timestamp_ok :: "pdata \<Rightarrow> bool" where
  "timestamp_ok P \<longleftrightarrow> (\<forall>n. unat n < 2 ^ 63 \<longrightarrow> pd_AsTime P n = int (unat n))"

text \<open>\<open>Str\<close> and \<open>Int\<close> return the zero value for a value of another type.\<close>

definition value_ok :: "pdata \<Rightarrow> bool" where
  "value_ok P \<longleftrightarrow>
     (\<forall>v. pd_Str P v = (case v of ValueStr s \<Rightarrow> s | _ \<Rightarrow> [])) \<and>
     (\<forall>v. pd_Int P v = (case v of ValueInt i \<Rightarrow> i | _ \<Rightarrow> 0))"

text \<open>
  The keys of a map are unique; \<open>Put\<close> inserts or updates, a new key after the ones
  present, and \<open>Remove\<close> deletes.
\<close>

definition attrmap_ok :: "pdata \<Rightarrow> bool" where
  "attrmap_ok P \<longleftrightarrow>
     (\<forall>m k. distinct (keys m) \<longrightarrow> pd_Get P m k = map_of m k) \<and>
     (\<forall>m k v. distinct (keys m) \<longrightarrow> k \<in> set (keys m) \<longrightarrow>
        keys (pd_Put P m k v) = keys m \<and> map_of (pd_Put P m k v) = (map_of m)(k \<mapsto> v)) \<and>
     (\<forall>m k v. distinct (keys m) \<longrightarrow> k \<notin> set (keys m) \<longrightarrow> pd_Put P m k v = m @ [(k, v)]) \<and>
     (\<forall>m k. distinct (keys m) \<longrightarrow> distinct (keys (pd_Remove P m k)) \<and>
        map_of (pd_Remove P m k) = (map_of m)(k := None))"

definition numpoint_ok :: "pdata \<Rightarrow> bool" where
  "numpoint_ok P \<longleftrightarrow>
     (\<forall>i. pd_IntValue P (NumberInt i) = i) \<and> (\<forall>d. pd_DoubleValue P (NumberDouble d) = d)"

definition pdata_ok :: "pdata \<Rightarrow> bool" where
  "pdata_ok P \<longleftrightarrow> traceid_ok P \<and> timestamp_ok P \<and> value_ok P \<and> attrmap_ok P \<and> numpoint_ok P"

lemma pd_Get_eq: "attrmap_ok P \<Longrightarrow> distinct (keys m) \<Longrightarrow> pd_Get P m k = map_of m k"
  by (simp add: attrmap_ok_def)

lemma pd_Put_new:
  "attrmap_ok P \<Longrightarrow> distinct (keys m) \<Longrightarrow> k \<notin> set (keys m) \<Longrightarrow> pd_Put P m k v = m @ [(k, v)]"
  unfolding attrmap_ok_def by blast

lemma map_of_pd_Put:
  assumes "attrmap_ok P" and "distinct (keys m)"
  shows "map_of (pd_Put P m k v) = (map_of m)(k \<mapsto> v)"
proof (cases "k \<in> set (keys m)")
  case True
  with assms show ?thesis unfolding attrmap_ok_def by blast
next
  case False
  with assms have "pd_Put P m k v = m @ [(k, v)]" by (rule pd_Put_new)
  moreover from False have "map_of m k = None" by (simp add: map_of_eq_None_iff)
  ultimately show ?thesis by (auto simp: fun_eq_iff map_add_def split: option.splits)
qed

lemma distinct_pd_Put:
  assumes "attrmap_ok P" and "distinct (keys m)"
  shows "distinct (keys (pd_Put P m k v))"
proof (cases "k \<in> set (keys m)")
  case True
  with assms have "keys (pd_Put P m k v) = keys m" unfolding attrmap_ok_def by blast
  with assms show ?thesis by simp
next
  case False
  with assms show ?thesis by (simp add: pd_Put_new)
qed

lemma distinct_pd_Remove:
  "attrmap_ok P \<Longrightarrow> distinct (keys m) \<Longrightarrow> distinct (keys (pd_Remove P m k))"
  unfolding attrmap_ok_def by blast

lemma map_of_pd_Remove:
  "attrmap_ok P \<Longrightarrow> distinct (keys m) \<Longrightarrow> map_of (pd_Remove P m k) = (map_of m)(k := None)"
  unfolding attrmap_ok_def by blast

lemmas attrmap_rules = pd_Get_eq map_of_pd_Put distinct_pd_Put distinct_pd_Remove map_of_pd_Remove

subsection \<open>A concrete instance\<close>

fun AsString_example :: "Value \<Rightarrow> string" where
  "AsString_example (ValueStr s) = s"
| "AsString_example (ValueBool b) = (if b then ''true'' else ''false'')"
| "AsString_example (ValueInt i) = showInt (sint i)"
| "AsString_example v = []"

definition pdata_example :: pdata where
  "pdata_example = \<lparr>
     pd_IsEmpty = list_all (\<lambda>b. b = 0),
     pd_String = EncodeToString,
     pd_AsTime = (\<lambda>n. UnixNsec n),
     pd_AsString = AsString_example,
     pd_Str = (\<lambda>v. case v of ValueStr s \<Rightarrow> s | _ \<Rightarrow> []),
     pd_Int = (\<lambda>v. case v of ValueInt i \<Rightarrow> i | _ \<Rightarrow> 0),
     pd_Get = map_of,
     pd_Put = (\<lambda>m k v. AList.update k v m),
     pd_Remove = (\<lambda>m k. AList.delete k m),
     pd_IntValue = (\<lambda>v. case v of NumberInt i \<Rightarrow> i | _ \<Rightarrow> 0),
     pd_DoubleValue = (\<lambda>v. case v of NumberDouble d \<Rightarrow> d | _ \<Rightarrow> Fin False 0 0)\<rparr>"

lemma update_new: "k \<notin> set (map fst m) \<Longrightarrow> AList.update k v m = m @ [(k, v)]"
  by (induction m) auto

lemma keys_update_old: "k \<in> set (map fst m) \<Longrightarrow> map fst (AList.update k v m) = map fst m"
  by (simp add: update_keys)

lemma sint_small_uint64: "unat n < 2 ^ 63 \<Longrightarrow> sint (n :: uint64) = int (unat n)"
proof -
  assume "unat n < 2 ^ 63"
  then have "int (unat n) < 2 ^ 63" by (metis of_nat_less_numeral_power_cancel_iff)
  then have "sint (word_of_int (int (unat n)) :: int64) = int (unat n)"
    by (intro sint_word_of_int_64) linarith
  then show ?thesis by simp
qed

lemma pdata_example_ok: "pdata_ok pdata_example"
  unfolding pdata_ok_def
proof (intro conjI)
  show "attrmap_ok pdata_example"
    unfolding attrmap_ok_def pdata_example_def
    by (simp add: update_new keys_update_old update_conv' distinct_delete delete_conv')
qed (simp_all add: pdata_example_def traceid_ok_def timestamp_ok_def value_ok_def numpoint_ok_def
       list_all_iff UnixNsec_def sint_small_uint64)

end
