(* ===== verification/Signals.thy ===== *)
theory Signals
  imports Pdata
begin

text \<open>
  The signals of \<open>pkg/signals\<close>, the configuration of \<open>internal/config\<close> and the messages
  of \<open>internal/gossip/messages.go\<close>.  \<open>signals.Signal\<close> is an open interface:
  \<open>OtherSignal\<close> stands for an implementation that is none of the three wrappers, which the
  type switches of the buffer, the log and the processor send to their default branches.
\<close>

subsection \<open>Package signals\<close>

datatype SignalType = TypeTrace | TypeMetric | TypeLog

record Context =
  ReceivedAt :: time
  SourceAddr :: string

record TraceSignal =
  ts_Traces :: Traces
  ts_Ctx :: Context

record MetricSignal =
  ms_Metrics :: Metrics
  ms_Ctx :: Context

record LogSignal =
  ls_Logs :: Logs
  ls_Ctx :: Context

datatype Signal =
    SigTrace TraceSignal | SigMetric MetricSignal | SigLog LogSignal
  | OtherSignal SignalType Context

fun signal_Type :: "Signal \<Rightarrow> SignalType" where
  "signal_Type (SigTrace s) = TypeTrace"
| "signal_Type (SigMetric s) = TypeMetric"
| "signal_Type (SigLog s) = TypeLog"
| "signal_Type (OtherSignal t c) = t"

fun signal_Context :: "Signal \<Rightarrow> Context" where
  "signal_Context (SigTrace s) = ts_Ctx s"
| "signal_Context (SigMetric s) = ms_Ctx s"
| "signal_Context (SigLog s) = ls_Ctx s"
| "signal_Context (OtherSignal t c) = c"

definition ctxAt :: "time \<Rightarrow> Context" where
  "ctxAt t = \<lparr>ReceivedAt = t, SourceAddr = []\<rparr>"

lemma ctxAt_sel [simp]: "ReceivedAt (ctxAt t) = t" "SourceAddr (ctxAt t) = []"
  by (simp_all add: ctxAt_def)

subsection \<open>Package config\<close>

record ReceiverConfig =
  rcv_GRPCPort :: int
  rcv_HTTPPort :: int
  rcv_Host :: string

record BufferConfig =
  buf_Size :: int
  buf_TTLSeconds :: int
  buf_MaxTraces :: int

record DiscoveryConfig =
  disc_Type :: string
  disc_ServiceName :: string
  disc_Peers :: "string list"

record GossipConfig =
  gsp_Port :: int
  gsp_BindAddr :: string
  gsp_Interval :: int

record PolicyConfig =
  pol_Name :: string
  pol_Type :: string
  pol_LatencyThresholdMS :: int64
  pol_AttributeKey :: string
  pol_AttributeValue :: string
  pol_SampleRate :: float64

record DecisionConfig =
  dec_Policies :: "PolicyConfig list"

record RollupConfig =
  rlp_Enabled :: bool

record ExporterConfig =
  exp_Endpoint :: string
  exp_Insecure :: bool

record Config =
  cfg_Debug :: bool
  cfg_Receiver :: ReceiverConfig
  cfg_Buffer :: BufferConfig
  cfg_Discovery :: DiscoveryConfig
  cfg_Gossip :: GossipConfig
  cfg_Decision :: DecisionConfig
  cfg_Rollup :: RollupConfig
  cfg_Exporter :: ExporterConfig

definition DefaultConfig :: Config where
  "DefaultConfig = \<lparr>
     cfg_Debug = True,
     cfg_Receiver = \<lparr>rcv_GRPCPort = 4317, rcv_HTTPPort = 4318, rcv_Host = ''0.0.0.0''\<rparr>,
     cfg_Buffer = \<lparr>buf_Size = 512, buf_TTLSeconds = 30, buf_MaxTraces = 5000\<rparr>,
     cfg_Discovery = \<lparr>disc_Type = ''static'', disc_ServiceName = [], disc_Peers = []\<rparr>,
     cfg_Gossip = \<lparr>gsp_Port = 7946, gsp_BindAddr = ''0.0.0.0'', gsp_Interval = 100\<rparr>,
     cfg_Decision = \<lparr>dec_Policies =
       [\<lparr>pol_Name = ''sample-all'', pol_Type = ''latency'', pol_LatencyThresholdMS = - 1,
         pol_AttributeKey = [], pol_AttributeValue = [], pol_SampleRate = Fin False 0 0\<rparr>]\<rparr>,
     cfg_Rollup = \<lparr>rlp_Enabled = True\<rparr>,
     cfg_Exporter = \<lparr>exp_Endpoint = [], exp_Insecure = False\<rparr>\<rparr>"

subsection \<open>Gossip messages\<close>

record SamplingDecision =
  sd_TraceID :: string
  sd_Reason :: string
  sd_DecidedAt :: time
  sd_DecidedBy :: string
  sd_EventStart :: time
  sd_EventEnd :: time

record TriggerEvent =
  te_Name :: string
  te_Value :: float64
  te_Threshold :: float64
  te_StartedAt :: time

text \<open>
  The interface \<open>decision.Broadcaster\<close>: a call can panic, fail with an error, or succeed.
  What the decision engine relies on: a failed broadcast changes nothing, and a successful one
  offers the decision to the local decision channel, once.
\<close>

type_synonym 'b Broadcaster = "SamplingDecision \<Rightarrow> 'b \<Rightarrow> ('b \<times> error option) res"

locale broadcaster =
  fixes bcast :: "'b Broadcaster"
    and localChan :: "'b \<Rightarrow> SamplingDecision chan"
  assumes bcast_fail: "bcast d b = Inr (b', Some e) \<Longrightarrow> b' = b"
    and bcast_ok: "bcast d b = Inr (b', None) \<Longrightarrow> localChan b' = trySend d (localChan b)"
begin

lemma bcast_cap: "bcast d b = Inr (b', r) \<Longrightarrow> chanCap (localChan b') = chanCap (localChan b)"
  by (cases r) (auto dest: bcast_fail bcast_ok)

lemma bcast_chan_ok: "bcast d b = Inr (b', r) \<Longrightarrow> chan_ok (localChan b) \<Longrightarrow> chan_ok (localChan b')"
  by (cases r) (auto dest: bcast_fail simp: bcast_ok chan.send_inv)

end

end
