(* ===== verification/BufferSpec.thy ===== *)
theory BufferSpec
  imports Signals
begin

text \<open>
  The interface \<open>buffer.Manager\<close> of \<open>internal/buffer/buffer.go\<close> as the processor sees it:
  the record \<open>BufferManager\<close> of its operations over a state type, and the locale
  \<open>buffer_manager\<close> with the laws the processor relies on.
\<close>

record 's BufferManager =
  bm_GetTrace :: "'s \<Rightarrow> TraceID \<Rightarrow> TraceSignal option"
  bm_GetTraceLogs :: "'s \<Rightarrow> TraceID \<Rightarrow> LogSignal option"
  bm_RemoveTrace :: "'s \<Rightarrow> TraceID \<Rightarrow> 's"
  bm_GetTraceCount :: "'s \<Rightarrow> int"
  bm_GetMetricsInRange :: "'s \<Rightarrow> time \<Rightarrow> time \<Rightarrow> MetricSignal list"
  bm_GetLogsInRange :: "'s \<Rightarrow> time \<Rightarrow> time \<Rightarrow> LogSignal list"
  bm_RemoveMetricsInRange :: "'s \<Rightarrow> time \<Rightarrow> time \<Rightarrow> 's"
  bm_RemoveLogsInRange :: "'s \<Rightarrow> time \<Rightarrow> time \<Rightarrow> 's"

locale buffer_manager =
  fixes M :: "'s BufferManager"
    and inv :: "'s \<Rightarrow> bool"
  assumes inv_RemoveTrace: "inv s \<Longrightarrow> inv (bm_RemoveTrace M s tid)"
    and inv_RemoveMetrics: "inv s \<Longrightarrow> inv (bm_RemoveMetricsInRange M s a b)"
    and inv_RemoveLogs: "inv s \<Longrightarrow> inv (bm_RemoveLogsInRange M s a b)"
    and RemoveTrace_trace: "inv s \<Longrightarrow> bm_GetTrace M (bm_RemoveTrace M s tid) tid = None"
    and RemoveTrace_logs: "inv s \<Longrightarrow> bm_GetTraceLogs M (bm_RemoveTrace M s tid) tid = None"
    and RemoveMetrics_gone: "inv s \<Longrightarrow>
      bm_GetMetricsInRange M (bm_RemoveMetricsInRange M s a b) a b = []"
    and RemoveLogs_gone: "inv s \<Longrightarrow>
      bm_GetLogsInRange M (bm_RemoveLogsInRange M s a b) a b = []"
    and RemoveMetrics_trace: "inv s \<Longrightarrow> bm_GetTrace M s tid = None \<Longrightarrow>
      bm_GetTrace M (bm_RemoveMetricsInRange M s a b) tid = None"
    and RemoveLogs_trace: "inv s \<Longrightarrow> bm_GetTrace M s tid = None \<Longrightarrow>
      bm_GetTrace M (bm_RemoveLogsInRange M s a b) tid = None"
    and RemoveMetrics_logs: "inv s \<Longrightarrow> bm_GetLogsInRange M s a b = [] \<Longrightarrow>
      bm_GetLogsInRange M (bm_RemoveMetricsInRange M s c d) a b = []"
    and RemoveLogs_metrics: "inv s \<Longrightarrow> bm_GetMetricsInRange M s a b = [] \<Longrightarrow>
      bm_GetMetricsInRange M (bm_RemoveLogsInRange M s c d) a b = []"

end
