(* ===== verification/Exporter.thy ===== *)
theory Exporter
  imports Signals
begin

text \<open>
  The OTLP exporter of \<open>internal/exporter/exporter.go\<close> and the interface
  \<open>processor.Exporter\<close> it implements.  The gRPC clients are a parameter: a call sends one
  request to the backend and succeeds or fails.  What the processor relies on is the locale
  \<open>exporter\<close>: while the backend is up, every call succeeds and delivers its data once, in the
  order of the calls.
\<close>

datatype Export = OutTraces Traces | OutMetrics Metrics | OutLogs Logs

record 'x Exporter =
  ex_ExportTrace :: "TraceSignal \<Rightarrow> 'x \<Rightarrow> 'x \<times> error option"
  ex_ExportMetrics :: "Metrics \<Rightarrow> 'x \<Rightarrow> 'x \<times> error option"
  ex_ExportLogs :: "Logs \<Rightarrow> 'x \<Rightarrow> 'x \<times> error option"

locale exporter =
  fixes X :: "'x Exporter"
    and sent :: "'x \<Rightarrow> Export list"
    and up :: "'x \<Rightarrow> bool"
  assumes up_trace: "up x \<Longrightarrow> snd (ex_ExportTrace X t x) = None \<and> up (fst (ex_ExportTrace X t x)) \<and>
      sent (fst (ex_ExportTrace X t x)) = sent x @ [OutTraces (ts_Traces t)]"
    and up_metrics: "up x \<Longrightarrow> snd (ex_ExportMetrics X m x) = None \<and> up (fst (ex_ExportMetrics X m x)) \<and>
      sent (fst (ex_ExportMetrics X m x)) = sent x @ [OutMetrics m]"
    and up_logs: "up x \<Longrightarrow> snd (ex_ExportLogs X l x) = None \<and> up (fst (ex_ExportLogs X l x)) \<and>
      sent (fst (ex_ExportLogs X l x)) = sent x @ [OutLogs l]"
begin

lemmas up_simps = up_trace [THEN conjunct1] up_metrics [THEN conjunct1] up_logs [THEN conjunct1]
  up_trace [THEN conjunct2, THEN conjunct1] up_metrics [THEN conjunct2, THEN conjunct1]
  up_logs [THEN conjunct2, THEN conjunct1]
  up_trace [THEN conjunct2, THEN conjunct2] up_metrics [THEN conjunct2, THEN conjunct2]
  up_logs [THEN conjunct2, THEN conjunct2]

end

subsection \<open>The OTLP exporter\<close>

text \<open>
  The unary call of the three generated clients, on the state of the connection: the data is
  sent and the call returns nil or an error.  \<open>rpc_sent\<close> is what the backend has accepted and
  \<open>rpc_up\<close> that it accepts everything; neither is used by the code.
\<close>

record 'x rpc =
  rpc_Export :: "Export \<Rightarrow> 'x \<Rightarrow> 'x \<times> error option"
  rpc_sent :: "'x \<Rightarrow> Export list"
  rpc_up :: "'x \<Rightarrow> bool"

definition rpc_ok :: "'x rpc \<Rightarrow> bool" where
  "rpc_ok R \<longleftrightarrow>
     (\<forall>e x x'. rpc_Export R e x = (x', None) \<longrightarrow> rpc_sent R x' = rpc_sent R x @ [e]) \<and>
     (\<forall>e x. rpc_up R x \<longrightarrow> snd (rpc_Export R e x) = None \<and> rpc_up R (fst (rpc_Export R e x)))"

definition wrapError :: "string \<Rightarrow> 'x \<times> error option \<Rightarrow> 'x \<times> error option" where
  "wrapError msg r = (fst r, map_option (\<lambda>err. msg @ err) (snd r))"

definition ExportTrace :: "'x rpc \<Rightarrow> TraceSignal \<Rightarrow> 'x \<Rightarrow> 'x \<times> error option" where
  "ExportTrace R sig x = wrapError ''failed to export traces: '' (rpc_Export R (OutTraces (ts_Traces sig)) x)"

definition ExportMetrics :: "'x rpc \<Rightarrow> Metrics \<Rightarrow> 'x \<Rightarrow> 'x \<times> error option" where
  "ExportMetrics R m x = wrapError ''failed to export metrics: '' (rpc_Export R (OutMetrics m) x)"

definition ExportLogs :: "'x rpc \<Rightarrow> Logs \<Rightarrow> 'x \<Rightarrow> 'x \<times> error option" where
  "ExportLogs R l x = wrapError ''failed to export logs: '' (rpc_Export R (OutLogs l) x)"

text \<open>\<open>New\<close>: the client connects lazily, so only a malformed endpoint is an error here.\<close>

definition exporter_New :: "(string \<Rightarrow> error + 'x) \<Rightarrow> ExporterConfig \<Rightarrow> error + 'x" where
  "exporter_New newClient cfg =
     (case newClient (exp_Endpoint cfg) of
        Inl err \<Rightarrow> Inl (''failed to create gRPC client: '' @ err)
      | Inr conn \<Rightarrow> Inr conn)"

text \<open>\<open>Stop\<close> closes the connection, by \<open>close\<close> of the library.\<close>

definition exporter_Stop :: "('x \<Rightarrow> 'x) \<Rightarrow> 'x \<Rightarrow> 'x" where
  "exporter_Stop close conn = close conn"

definition otlpExporter :: "'x rpc \<Rightarrow> 'x Exporter" where
  "otlpExporter R = \<lparr>ex_ExportTrace = ExportTrace R, ex_ExportMetrics = ExportMetrics R,
     ex_ExportLogs = ExportLogs R\<rparr>"

lemma rpc_okD:
  assumes "rpc_ok R"
  shows "rpc_Export R e x = (x', None) \<Longrightarrow> rpc_sent R x' = rpc_sent R x @ [e]"
    and "rpc_up R x \<Longrightarrow> snd (rpc_Export R e x) = None \<and> rpc_up R (fst (rpc_Export R e x))"
  using assms unfolding rpc_ok_def by blast+

lemma rpc_up_sent:
  assumes "rpc_ok R" and "rpc_up R x"
  shows "rpc_sent R (fst (rpc_Export R e x)) = rpc_sent R x @ [e]"
  by (metis assms prod.collapse rpc_okD)

interpretation otlp: exporter "otlpExporter R" "rpc_sent R" "\<lambda>x. rpc_ok R \<and> rpc_up R x" for R :: "'x rpc"
  by unfold_locales
     (simp_all add: otlpExporter_def ExportTrace_def ExportMetrics_def ExportLogs_def wrapError_def
       rpc_okD(2) rpc_up_sent)

subsection \<open>A concrete backend\<close>

definition rpc_example :: "Export list rpc" where
  "rpc_example = \<lparr>rpc_Export = (\<lambda>e xs. (xs @ [e], None)), rpc_sent = (\<lambda>xs. xs), rpc_up = (\<lambda>_. True)\<rparr>"

lemma rpc_example_ok: "rpc_ok rpc_example"
  by (simp add: rpc_ok_def rpc_example_def)

end
