(* ===== verification/Rollup.thy ===== *)
theory Rollup
  imports Signals
begin

text \<open>
  The rollup processor of \<open>internal/rollup/rollup.go\<close>.  Metrics are merged by resource,
  scope, name and the attributes that survive the cardinality level; log records by severity
  and body.  Every level of the nesting is one instance of \<open>mergeLoop\<close> from the prelude, and
  of its locales \<open>keyed_merge\<close> and \<open>keyed_merge_sum\<close>.  A result \<open>Inl\<close> is a panic: the
  data points of a metric whose type is not the one asked for.
\<close>

subsection \<open>The processor\<close>

datatype CardinalityLevel = LevelFine | LevelMedium | LevelCoarse

record RollupProcessor =
  rp_cfg :: RollupConfig
  rp_currentLevel :: CardinalityLevel

definition rollup_New :: "RollupConfig \<Rightarrow> RollupProcessor" where
  "rollup_New cfg = \<lparr>rp_cfg = cfg, rp_currentLevel = LevelFine\<rparr>"

definition SetLevel :: "CardinalityLevel \<Rightarrow> RollupProcessor \<Rightarrow> RollupProcessor" where
  "SetLevel level p = p\<lparr>rp_currentLevel := level\<rparr>"

subsection \<open>Keys\<close>

definition attrPart :: "pdata \<Rightarrow> string \<times> Value \<Rightarrow> string" where
  "attrPart P kv = fst kv @ ''='' @ pd_AsString P (snd kv) @ '';''"

definition attrKey :: "pdata \<Rightarrow> AttrMap \<Rightarrow> string" where
  "attrKey P attrs = fold (\<lambda>kv res. res @ attrPart P kv) attrs []"

definition allowed :: "string \<Rightarrow> bool" where
  "allowed k \<longleftrightarrow> k = ''http.method'' \<or> k = ''http.status_code'' \<or> k = ''error''"

definition filterAttributesKey :: "pdata \<Rightarrow> AttrMap \<Rightarrow> CardinalityLevel \<Rightarrow> string" where
  "filterAttributesKey P attrs level =
     (if level = LevelCoarse then []
      else fold (\<lambda>kv res. if allowed (fst kv) then res @ attrPart P kv else res) attrs [])"

definition applyFilteredAttributes ::
  "pdata \<Rightarrow> AttrMap \<Rightarrow> AttrMap \<Rightarrow> CardinalityLevel \<Rightarrow> AttrMap" where
  "applyFilteredAttributes P dest src level =
     (if level = LevelCoarse then dest
      else fold (\<lambda>kv d. if allowed (fst kv) then pd_Put P d (fst kv) (snd kv) else d) src dest)"

definition scopeKey :: "InstrumentationScope \<Rightarrow> string" where
  "scopeKey is = scope_name is @ scope_version is"

subsection \<open>Metrics\<close>

definition aggregatePoint :: "pdata \<Rightarrow> NumberDataPoint \<Rightarrow> NumberDataPoint \<Rightarrow> NumberDataPoint res" where
  "aggregatePoint P existing srcDP =
     Inr (case dp_value srcDP of
            NumberInt _ \<Rightarrow> existing\<lparr>dp_value := NumberInt
              (pd_IntValue P (dp_value existing) + pd_IntValue P (dp_value srcDP))\<rparr>
          | _ \<Rightarrow> existing\<lparr>dp_value := NumberDouble
              (fadd (pd_DoubleValue P (dp_value existing)) (pd_DoubleValue P (dp_value srcDP)))\<rparr>)"

definition newPoint :: "pdata \<Rightarrow> CardinalityLevel \<Rightarrow> NumberDataPoint \<Rightarrow> NumberDataPoint res" where
  "newPoint P level srcDP =
     Inr (srcDP\<lparr>dp_attrs := applyFilteredAttributes P [] (dp_attrs srcDP) level\<rparr>)"

definition rollupDataPoints :: "pdata \<Rightarrow> NumberDataPoint list \<Rightarrow> NumberDataPoint list \<Rightarrow>
    CardinalityLevel \<Rightarrow> NumberDataPoint list res" where
  "rollupDataPoints P dest src level =
     mergeLoop (\<lambda>s. filterAttributesKey P (dp_attrs s) level) (aggregatePoint P) (newPoint P level)
       (indexBy (\<lambda>d. attrKey P (dp_attrs d)) dest) dest src"

definition rollupMetricData :: "pdata \<Rightarrow> CardinalityLevel \<Rightarrow> Metric \<Rightarrow> Metric \<Rightarrow> Metric res" where
  "rollupMetricData P level dest src =
     (case m_data src of
        MetricSum isMonotonic temp sdps \<Rightarrow>
          (let dd = (if m_data dest = MetricEmpty then MetricSum isMonotonic temp [] else m_data dest) in
           case dd of
             MetricSum dm dt ddps \<Rightarrow> res_bind (rollupDataPoints P ddps sdps level)
               (\<lambda>ps. Inr (dest\<lparr>m_data := MetricSum dm dt ps\<rparr>))
           | _ \<Rightarrow> Inl InvalidInstance)
      | MetricGauge sdps \<Rightarrow>
          (let dd = (if m_data dest = MetricEmpty then MetricGauge [] else m_data dest) in
           case dd of
             MetricGauge ddps \<Rightarrow> res_bind (rollupDataPoints P ddps sdps level)
               (\<lambda>ps. Inr (dest\<lparr>m_data := MetricGauge ps\<rparr>))
           | _ \<Rightarrow> Inl InvalidInstance)
      | _ \<Rightarrow> if m_data dest = MetricEmpty then Inr src else Inr dest)"

definition newMetric :: "pdata \<Rightarrow> CardinalityLevel \<Rightarrow> Metric \<Rightarrow> Metric res" where
  "newMetric P level srcM =
     rollupMetricData P level
       \<lparr>m_name = m_name srcM, m_description = m_description srcM, m_unit = m_unit srcM,
        m_data = MetricEmpty, m_other = []\<rparr> srcM"

definition mergeMetricsList ::
  "pdata \<Rightarrow> CardinalityLevel \<Rightarrow> ScopeMetrics \<Rightarrow> ScopeMetrics \<Rightarrow> ScopeMetrics res" where
  "mergeMetricsList P level destSM srcSM =
     res_bind
       (mergeLoop m_name (rollupMetricData P level) (newMetric P level)
          (indexBy m_name (sm_metrics destSM)) (sm_metrics destSM) (sm_metrics srcSM))
       (\<lambda>ms. Inr (destSM\<lparr>sm_metrics := ms\<rparr>))"

definition newScopeMetrics :: "pdata \<Rightarrow> CardinalityLevel \<Rightarrow> ScopeMetrics \<Rightarrow> ScopeMetrics res" where
  "newScopeMetrics P level srcSM =
     mergeMetricsList P level \<lparr>sm_scope = sm_scope srcSM, sm_schema = [], sm_metrics = []\<rparr> srcSM"

definition mergeScopeMetrics ::
  "pdata \<Rightarrow> CardinalityLevel \<Rightarrow> ResourceMetrics \<Rightarrow> ResourceMetrics \<Rightarrow> ResourceMetrics res" where
  "mergeScopeMetrics P level destRM srcRM =
     res_bind
       (mergeLoop (\<lambda>sm. scopeKey (sm_scope sm)) (mergeMetricsList P level) (newScopeMetrics P level)
          (indexBy (\<lambda>sm. scopeKey (sm_scope sm)) (rm_scopes destRM)) (rm_scopes destRM) (rm_scopes srcRM))
       (\<lambda>sms. Inr (destRM\<lparr>rm_scopes := sms\<rparr>))"

definition newResourceMetrics :: "pdata \<Rightarrow> CardinalityLevel \<Rightarrow> ResourceMetrics \<Rightarrow> ResourceMetrics res" where
  "newResourceMetrics P level rm =
     mergeScopeMetrics P level \<lparr>rm_resource = rm_resource rm, rm_schema = [], rm_scopes = []\<rparr> rm"

definition mergeMetrics :: "MetricSignal list \<Rightarrow> Metrics" where
  "mergeMetrics sigs = fold (\<lambda>sig out. out @ ms_Metrics sig) sigs []"

definition RollupMetrics :: "pdata \<Rightarrow> RollupProcessor \<Rightarrow> MetricSignal list \<Rightarrow> Metrics res" where
  "RollupMetrics P p sigs =
     (let level = rp_currentLevel p in
      if level = LevelFine \<or> \<not> rlp_Enabled (rp_cfg p) then Inr (mergeMetrics sigs)
      else mergeLoop (\<lambda>rm. attrKey P (res_attrs (rm_resource rm)))
             (mergeScopeMetrics P level) (newResourceMetrics P level)
             Map.empty [] (concat (map ms_Metrics sigs)))"

subsection \<open>Logs\<close>

definition logKey :: "pdata \<Rightarrow> LogRecord \<Rightarrow> CardinalityLevel \<Rightarrow> string" where
  "logKey P lr level =
     (let body = pd_AsString P (lr_body lr);
          body' = (if length body > 20 \<and> level = LevelCoarse then take 20 body @ ''...'' else body)
      in showInt (lr_severity lr) @ '':'' @ body')"

definition countRecord :: "pdata \<Rightarrow> LogRecord \<Rightarrow> LogRecord \<Rightarrow> LogRecord res" where
  "countRecord P existing srcLR =
     (let count = (case pd_Get P (lr_attrs existing) ''rollup.count'' of
                     None \<Rightarrow> 1 | Some countAttr \<Rightarrow> pd_Int P countAttr + 1)
      in Inr (existing\<lparr>lr_attrs := pd_Put P (lr_attrs existing) ''rollup.count'' (ValueInt count)\<rparr>))"

definition newRecord :: "pdata \<Rightarrow> CardinalityLevel \<Rightarrow> LogRecord \<Rightarrow> LogRecord res" where
  "newRecord P level srcLR =
     (let attrs = pd_Put P (lr_attrs srcLR) ''rollup.count'' (ValueInt 1);
          attrs' = (if level = LevelCoarse
                    then pd_Remove P (pd_Remove P attrs ''request_id'') ''user_id'' else attrs)
      in Inr (srcLR\<lparr>lr_attrs := attrs'\<rparr>))"

definition rollupLogRecords ::
  "pdata \<Rightarrow> LogRecord list \<Rightarrow> LogRecord list \<Rightarrow> CardinalityLevel \<Rightarrow> LogRecord list res" where
  "rollupLogRecords P dest src level =
     mergeLoop (\<lambda>lr. logKey P lr level) (countRecord P) (newRecord P level)
       (indexBy (\<lambda>lr. logKey P lr level) dest) dest src"

definition mergeScopeRecords :: "pdata \<Rightarrow> CardinalityLevel \<Rightarrow> ScopeLogs \<Rightarrow> ScopeLogs \<Rightarrow> ScopeLogs res" where
  "mergeScopeRecords P level destSL srcSL =
     res_bind (rollupLogRecords P (sl_records destSL) (sl_records srcSL) level)
       (\<lambda>rs. Inr (destSL\<lparr>sl_records := rs\<rparr>))"

definition newScopeLogs :: "pdata \<Rightarrow> CardinalityLevel \<Rightarrow> ScopeLogs \<Rightarrow> ScopeLogs res" where
  "newScopeLogs P level srcSL =
     mergeScopeRecords P level \<lparr>sl_scope = sl_scope srcSL, sl_schema = [], sl_records = []\<rparr> srcSL"

definition mergeScopeLogs ::
  "pdata \<Rightarrow> CardinalityLevel \<Rightarrow> ResourceLogs \<Rightarrow> ResourceLogs \<Rightarrow> ResourceLogs res" where
  "mergeScopeLogs P level destRL srcRL =
     res_bind
       (mergeLoop (\<lambda>sl. scopeKey (sl_scope sl)) (mergeScopeRecords P level) (newScopeLogs P level)
          (indexBy (\<lambda>sl. scopeKey (sl_scope sl)) (rl_scopes destRL)) (rl_scopes destRL) (rl_scopes srcRL))
       (\<lambda>sls. Inr (destRL\<lparr>rl_scopes := sls\<rparr>))"

definition newResourceLogs :: "pdata \<Rightarrow> CardinalityLevel \<Rightarrow> ResourceLogs \<Rightarrow> ResourceLogs res" where
  "newResourceLogs P level rl =
     mergeScopeLogs P level \<lparr>rl_resource = rl_resource rl, rl_schema = [], rl_scopes = []\<rparr> rl"

definition mergeLogs :: "LogSignal list \<Rightarrow> Logs" where
  "mergeLogs sigs = fold (\<lambda>sig out. out @ ls_Logs sig) sigs []"

definition RollupLogs :: "pdata \<Rightarrow> RollupProcessor \<Rightarrow> LogSignal list \<Rightarrow> Logs res" where
  "RollupLogs P p sigs =
     (let level = rp_currentLevel p in
      if level = LevelFine \<or> \<not> rlp_Enabled (rp_cfg p) then Inr (mergeLogs sigs)
      else mergeLoop (\<lambda>rl. attrKey P (res_attrs (rl_resource rl)))
             (mergeScopeLogs P level) (newResourceLogs P level)
             Map.empty [] (concat (map ls_Logs sigs)))"

subsection \<open>Keys of filtered attributes\<close>

lemma fold_append_concat: "fold (\<lambda>x r. r @ f x) xs r = r @ concat (map f xs)"
  by (induction xs arbitrary: r) auto

lemma attrKey_concat: "attrKey P attrs = concat (map (attrPart P) attrs)"
  by (simp add: attrKey_def fold_append_concat)

lemma filterAttributesKey_concat:
  "filterAttributesKey P attrs level =
     (if level = LevelCoarse then []
      else concat (map (attrPart P) (filter (\<lambda>kv. allowed (fst kv)) attrs)))"
proof -
  have "fold (\<lambda>kv res. if allowed (fst kv) then res @ attrPart P kv else res) attrs r
      = r @ concat (map (attrPart P) (filter (\<lambda>kv. allowed (fst kv)) attrs))" for r
    by (induction attrs arbitrary: r) auto
  then show ?thesis by (simp add: filterAttributesKey_def)
qed

lemma fold_Put_filter:
  assumes "attrmap_ok P" and "distinct (keys (dest @ src))"
  shows "fold (\<lambda>kv d. if allowed (fst kv) then pd_Put P d (fst kv) (snd kv) else d) src dest
    = dest @ filter (\<lambda>kv. allowed (fst kv)) src"
  using assms(2)
proof (induction src arbitrary: dest)
  case (Cons kv src)
  then have "pd_Put P dest (fst kv) (snd kv) = dest @ [kv]"
    using pd_Put_new [OF assms(1), of dest "fst kv" "snd kv"] by auto
  with Cons show ?case by (auto simp: distinct_append)
qed simp

lemma applyFilteredAttributes_eq:
  assumes "attrmap_ok P" and "distinct (keys src)"
  shows "applyFilteredAttributes P [] src level =
    (if level = LevelCoarse then [] else filter (\<lambda>kv. allowed (fst kv)) src)"
  using fold_Put_filter [OF assms(1), of "[]" src] assms(2) by (simp add: applyFilteredAttributes_def)

text \<open>The key under which a new point is found again is the key it was looked up by.\<close>

lemma attrKey_applyFiltered:
  assumes "attrmap_ok P" and "distinct (keys src)"
  shows "attrKey P (applyFilteredAttributes P [] src level) = filterAttributesKey P src level"
  by (simp add: applyFilteredAttributes_eq [OF assms] attrKey_concat filterAttributesKey_concat)

lemma distinct_applyFiltered:
  "attrmap_ok P \<Longrightarrow> distinct (keys src) \<Longrightarrow> distinct (keys (applyFilteredAttributes P [] src level))"
  by (simp add: applyFilteredAttributes_eq distinct_map_fst_filter)

lemma indexed_empty [simp]: "indexed dk Map.empty []"
  by (simp add: indexed_def)

lemma mergeLoop_no_panic:
  assumes "\<And>d s. \<exists>d'. upd d s = Inr d'" and "\<And>s. \<exists>d. new s = Inr d"
  shows "\<exists>ds'. mergeLoop sk upd new g ds ss = Inr ds'"
proof (induction ss arbitrary: g ds)
  case (Cons s ss)
  obtain d where d: "new s = Inr d" using assms(2) by blast
  show ?case
  proof (cases "g (sk s)")
    case None
    with d have "mergeLoop sk upd new g ds (s # ss)
        = mergeLoop sk upd new (g(sk s \<mapsto> length ds)) (ds @ [d]) ss" by simp
    then show ?thesis using Cons by (simp only:)
  next
    case (Some i)
    obtain d' where "upd (ds ! i) s = Inr d'" using assms(1) by blast
    with Some Cons show ?thesis by simp
  qed
qed simp

subsection \<open>Conservation through the nesting\<close>

definition dp_distinct :: "NumberDataPoint \<Rightarrow> bool" where
  "dp_distinct dp \<longleftrightarrow> distinct (keys (dp_attrs dp))"

definition dp_int :: "NumberDataPoint \<Rightarrow> bool" where
  "dp_int dp \<longleftrightarrow> dp_distinct dp \<and> (case dp_value dp of NumberInt _ \<Rightarrow> True | _ \<Rightarrow> False)"

definition rollup_laws :: "pdata \<Rightarrow> bool" where
  "rollup_laws P \<longleftrightarrow> attrmap_ok P \<and> numpoint_ok P"

definition dpInt :: "pdata \<Rightarrow> NumberDataPoint \<Rightarrow> int64" where
  "dpInt P dp = pd_IntValue P (dp_value dp)"

abbreviation pointKey :: "pdata \<Rightarrow> NumberDataPoint \<Rightarrow> string" where
  "pointKey P d \<equiv> attrKey P (dp_attrs d)"

interpretation dpk: keyed_merge "\<lambda>s. filterAttributesKey P (dp_attrs s) level" "pointKey P"
    "aggregatePoint P" "newPoint P level" "\<lambda>s. attrmap_ok P \<and> dp_distinct s" dp_distinct for P level
  by unfold_locales
     (auto simp: newPoint_def aggregatePoint_def dp_distinct_def attrKey_applyFiltered
        distinct_applyFiltered split: NumberValue.splits)

interpretation dps: keyed_merge_sum "\<lambda>s. filterAttributesKey P (dp_attrs s) level" "pointKey P"
    "aggregatePoint P" "newPoint P level" "\<lambda>s. rollup_laws P \<and> dp_int s" dp_int "dpInt P" "dpInt P"
    for P level
  by unfold_locales
     (auto simp: newPoint_def aggregatePoint_def dp_int_def dp_distinct_def attrKey_applyFiltered
        distinct_applyFiltered rollup_laws_def numpoint_ok_def dpInt_def split: NumberValue.splits)

fun points :: "MetricData \<Rightarrow> NumberDataPoint list" where
  "points (MetricGauge ps) = ps"
| "points (MetricSum m t ps) = ps"
| "points d = []"

definition metric_src :: "Metric \<Rightarrow> bool" where
  "metric_src m \<longleftrightarrow> (\<forall>dp \<in> set (points (m_data m)). dp_int dp)"

definition metric_dst :: "pdata \<Rightarrow> Metric \<Rightarrow> bool" where
  "metric_dst P m \<longleftrightarrow> metric_src m \<and> distinct (map (pointKey P) (points (m_data m)))"

definition metricTotal :: "pdata \<Rightarrow> Metric \<Rightarrow> int64" where
  "metricTotal P m = sum_list (map (dpInt P) (points (m_data m)))"

lemma rollupDataPoints_conserves:
  assumes "rollup_laws P" and "\<forall>dp \<in> set src. dp_int dp" and "\<forall>dp \<in> set dest. dp_int dp"
    and "distinct (map (pointKey P) dest)" and "rollupDataPoints P dest src level = Inr ps"
  shows "(\<forall>dp \<in> set ps. dp_int dp) \<and> distinct (map (pointKey P) ps) \<and>
    sum_list (map (dpInt P) ps) = sum_list (map (dpInt P) dest) + sum_list (map (dpInt P) src)"
  using assms dps.loop_ok [of P "indexBy (pointKey P) dest" dest src level ps]
    dps.loop_sum [of P "indexBy (pointKey P) dest" dest src level ps]
  by (simp add: rollupDataPoints_def indexed_indexBy)

lemma rollupMetricData_cases:
  assumes "rollupMetricData P level d s = Inr d'"
  shows "rollupDataPoints P (points (m_data d)) (points (m_data s)) level = Inr (points (m_data d'))
      \<and> m_name d' = m_name d
    \<or> points (m_data s) = [] \<and> (d' = d \<or> d' = s \<and> points (m_data d) = [])"
  using assms
  by (cases "m_data s"; cases "m_data d")
     (auto simp: rollupMetricData_def res_bind_Inr_iff)

lemma rollupMetricData_conserves:
  assumes "rollup_laws P" and "metric_src s" and "metric_dst P d" and "m_name d = m_name s"
    and "rollupMetricData P level d s = Inr d'"
  shows "m_name d' = m_name s \<and> metric_dst P d' \<and> metricTotal P d' = metricTotal P d + metricTotal P s"
  using rollupMetricData_cases [OF assms(5)]
proof (elim disjE conjE)
  assume ps: "rollupDataPoints P (points (m_data d)) (points (m_data s)) level = Inr (points (m_data d'))"
    and "m_name d' = m_name d"
  with assms(4) rollupDataPoints_conserves [OF assms(1) _ _ _ ps] assms(2,3) show ?thesis
    unfolding metric_src_def metric_dst_def metricTotal_def by simp
qed (use assms(2-4) in \<open>auto simp: metric_src_def metric_dst_def metricTotal_def\<close>)

lemma newMetric_conserves:
  assumes "rollup_laws P" and "metric_src s" and "newMetric P level s = Inr d"
  shows "m_name d = m_name s \<and> metric_dst P d \<and> metricTotal P d = metricTotal P s"
  using assms(3) rollupMetricData_conserves [OF assms(1,2),
      of "\<lparr>m_name = m_name s, m_description = m_description s, m_unit = m_unit s,
           m_data = MetricEmpty, m_other = []\<rparr>" level d]
  by (simp add: newMetric_def metric_dst_def metric_src_def metricTotal_def)

interpretation mts: keyed_merge_sum m_name m_name "rollupMetricData P level" "newMetric P level"
    "\<lambda>s. rollup_laws P \<and> metric_src s" "metric_dst P" "metricTotal P" "metricTotal P" for P level
proof (unfold_locales, goal_cases)
  case (1 s d)
  then show ?case using newMetric_conserves [of P s level d] by auto
next
  case (2 s d d')
  then show ?case using rollupMetricData_conserves [of P s d level d'] by auto
next
  case (3 s d)
  then show ?case using newMetric_conserves [of P s level d] by auto
next
  case (4 s d d')
  then show ?case using rollupMetricData_conserves [of P s d level d'] by auto
qed

definition scope_src :: "ScopeMetrics \<Rightarrow> bool" where
  "scope_src sm \<longleftrightarrow> (\<forall>m \<in> set (sm_metrics sm). metric_src m)"

definition scope_dst :: "pdata \<Rightarrow> ScopeMetrics \<Rightarrow> bool" where
  "scope_dst P sm \<longleftrightarrow> (\<forall>m \<in> set (sm_metrics sm). metric_dst P m) \<and> distinct (map m_name (sm_metrics sm))"

definition scopeTotal :: "pdata \<Rightarrow> ScopeMetrics \<Rightarrow> int64" where
  "scopeTotal P sm = sum_list (map (metricTotal P) (sm_metrics sm))"

lemma mergeMetricsList_conserves:
  assumes "rollup_laws P" and "scope_src s" and "scope_dst P d"
    and "mergeMetricsList P level d s = Inr d'"
  shows "sm_scope d' = sm_scope d \<and> scope_dst P d' \<and> scopeTotal P d' = scopeTotal P d + scopeTotal P s"
  using assms
    mts.loop_ok [of "indexBy m_name (sm_metrics d)" "sm_metrics d" "sm_metrics s" P level]
    mts.loop_sum [of "indexBy m_name (sm_metrics d)" "sm_metrics d" "sm_metrics s" P level]
  by (auto simp: mergeMetricsList_def res_bind_Inr_iff scope_src_def scope_dst_def scopeTotal_def
        indexed_indexBy)

lemma newScopeMetrics_conserves:
  assumes "rollup_laws P" and "scope_src s" and "newScopeMetrics P level s = Inr d"
  shows "sm_scope d = sm_scope s \<and> scope_dst P d \<and> scopeTotal P d = scopeTotal P s"
  using assms(3) mergeMetricsList_conserves [OF assms(1,2),
      of "\<lparr>sm_scope = sm_scope s, sm_schema = [], sm_metrics = []\<rparr>" level d]
  by (simp add: newScopeMetrics_def scope_dst_def scopeTotal_def)

interpretation scs: keyed_merge_sum "\<lambda>sm. scopeKey (sm_scope sm)" "\<lambda>sm. scopeKey (sm_scope sm)"
    "mergeMetricsList P level" "newScopeMetrics P level"
    "\<lambda>s. rollup_laws P \<and> scope_src s" "scope_dst P" "scopeTotal P" "scopeTotal P" for P level
proof (unfold_locales, goal_cases)
  case (1 s d)
  then show ?case using newScopeMetrics_conserves [of P s level d] by auto
next
  case (2 s d d')
  then show ?case using mergeMetricsList_conserves [of P s d level d'] by auto
next
  case (3 s d)
  then show ?case using newScopeMetrics_conserves [of P s level d] by auto
next
  case (4 s d d')
  then show ?case using mergeMetricsList_conserves [of P s d level d'] by auto
qed

definition resource_src :: "ResourceMetrics \<Rightarrow> bool" where
  "resource_src rm \<longleftrightarrow> (\<forall>sm \<in> set (rm_scopes rm). scope_src sm)"

definition resource_dst :: "pdata \<Rightarrow> ResourceMetrics \<Rightarrow> bool" where
  "resource_dst P rm \<longleftrightarrow> (\<forall>sm \<in> set (rm_scopes rm). scope_dst P sm) \<and>
     distinct (map (\<lambda>sm. scopeKey (sm_scope sm)) (rm_scopes rm))"

definition resourceTotal :: "pdata \<Rightarrow> ResourceMetrics \<Rightarrow> int64" where
  "resourceTotal P rm = sum_list (map (scopeTotal P) (rm_scopes rm))"

lemma mergeScopeMetrics_conserves:
  assumes "rollup_laws P" and "resource_src s" and "resource_dst P d"
    and "mergeScopeMetrics P level d s = Inr d'"
  shows "rm_resource d' = rm_resource d \<and> resource_dst P d' \<and>
    resourceTotal P d' = resourceTotal P d + resourceTotal P s"
  using assms
    scs.loop_ok [of "indexBy (\<lambda>sm. scopeKey (sm_scope sm)) (rm_scopes d)" "rm_scopes d" "rm_scopes s" P level]
    scs.loop_sum [of "indexBy (\<lambda>sm. scopeKey (sm_scope sm)) (rm_scopes d)" "rm_scopes d" "rm_scopes s" P level]
  by (auto simp: mergeScopeMetrics_def res_bind_Inr_iff resource_src_def resource_dst_def resourceTotal_def
        indexed_indexBy)

lemma newResourceMetrics_conserves:
  assumes "rollup_laws P" and "resource_src s" and "newResourceMetrics P level s = Inr d"
  shows "rm_resource d = rm_resource s \<and> resource_dst P d \<and> resourceTotal P d = resourceTotal P s"
  using assms(3) mergeScopeMetrics_conserves [OF assms(1,2),
      of "\<lparr>rm_resource = rm_resource s, rm_schema = [], rm_scopes = []\<rparr>" level d]
  by (simp add: newResourceMetrics_def resource_dst_def resourceTotal_def)

interpretation rms: keyed_merge_sum "\<lambda>rm. attrKey P (res_attrs (rm_resource rm))"
    "\<lambda>rm. attrKey P (res_attrs (rm_resource rm))"
    "mergeScopeMetrics P level" "newResourceMetrics P level"
    "\<lambda>s. rollup_laws P \<and> resource_src s" "resource_dst P" "resourceTotal P" "resourceTotal P" for P level
proof (unfold_locales, goal_cases)
  case (1 s d)
  then show ?case using newResourceMetrics_conserves [of P s level d] by auto
next
  case (2 s d d')
  then show ?case using mergeScopeMetrics_conserves [of P s d level d'] by auto
next
  case (3 s d)
  then show ?case using newResourceMetrics_conserves [of P s level d] by auto
next
  case (4 s d d')
  then show ?case using mergeScopeMetrics_conserves [of P s d level d'] by auto
qed

definition metricsTotal :: "pdata \<Rightarrow> Metrics \<Rightarrow> int64" where
  "metricsTotal P ms = sum_list (map (resourceTotal P) ms)"

lemma metricsTotal_concat: "metricsTotal P (concat mss) = sum_list (map (metricsTotal P) mss)"
  by (induction mss) (simp_all add: metricsTotal_def)

lemma mergeMetrics_concat: "mergeMetrics sigs = concat (map ms_Metrics sigs)"
  by (simp add: mergeMetrics_def fold_append_concat)

subsection \<open>Counting log records\<close>

definition lr_distinct :: "LogRecord \<Rightarrow> bool" where
  "lr_distinct lr \<longleftrightarrow> distinct (keys (lr_attrs lr))"

definition log_laws :: "pdata \<Rightarrow> bool" where
  "log_laws P \<longleftrightarrow> attrmap_ok P \<and> value_ok P"

definition logCount :: "pdata \<Rightarrow> LogRecord \<Rightarrow> int64" where
  "logCount P lr = (case pd_Get P (lr_attrs lr) ''rollup.count'' of None \<Rightarrow> 0 | Some v \<Rightarrow> pd_Int P v)"

lemma countRecord_ok:
  assumes "log_laws P" and "lr_distinct d" and "countRecord P d s = Inr d'"
  shows "logKey P d' level = logKey P d level \<and> lr_distinct d' \<and> logCount P d' = logCount P d + 1"
  using assms
  by (cases "map_of (lr_attrs d) ''rollup.count''")
     (auto simp: countRecord_def log_laws_def lr_distinct_def logCount_def logKey_def value_ok_def
        attrmap_rules Let_def split: option.splits)

lemma newRecord_ok:
  assumes "log_laws P" and "lr_distinct s" and "newRecord P level s = Inr d"
  shows "logKey P d level' = logKey P s level' \<and> lr_distinct d \<and> logCount P d = 1"
  using assms
  by (auto simp: newRecord_def log_laws_def lr_distinct_def logCount_def logKey_def value_ok_def
        attrmap_rules Let_def split: if_splits)

interpretation lrs: keyed_merge_sum "\<lambda>lr. logKey P lr level" "\<lambda>lr. logKey P lr level"
    "countRecord P" "newRecord P level" "\<lambda>s. log_laws P \<and> lr_distinct s" lr_distinct
    "logCount P" "\<lambda>_. 1" for P level
  by unfold_locales (use newRecord_ok countRecord_ok in \<open>blast, metis\<close>)+

definition sl_src :: "ScopeLogs \<Rightarrow> bool" where
  "sl_src sl \<longleftrightarrow> (\<forall>lr \<in> set (sl_records sl). lr_distinct lr)"

definition sl_dst :: "pdata \<Rightarrow> CardinalityLevel \<Rightarrow> ScopeLogs \<Rightarrow> bool" where
  "sl_dst P level sl \<longleftrightarrow> sl_src sl \<and> distinct (map (\<lambda>lr. logKey P lr level) (sl_records sl))"

definition scopeCount :: "pdata \<Rightarrow> ScopeLogs \<Rightarrow> int64" where
  "scopeCount P sl = sum_list (map (logCount P) (sl_records sl))"

definition scopeSize :: "ScopeLogs \<Rightarrow> int64" where
  "scopeSize sl = of_nat (length (sl_records sl))"

lemma mergeScopeRecords_counts:
  assumes "log_laws P" and "sl_src s" and "sl_dst P level d" and "mergeScopeRecords P level d s = Inr d'"
  shows "sl_scope d' = sl_scope d \<and> sl_dst P level d' \<and> scopeCount P d' = scopeCount P d + scopeSize s"
proof -
  let ?g = "indexBy (\<lambda>lr. logKey P lr level) (sl_records d)"
  from assms(4) obtain rs where rs: "rollupLogRecords P (sl_records d) (sl_records s) level = Inr rs"
    and d': "d' = d\<lparr>sl_records := rs\<rparr>"
    by (auto simp: mergeScopeRecords_def res_bind_Inr_iff)
  have idx: "indexed (\<lambda>lr. logKey P lr level) ?g (sl_records d)"
    using assms(3) by (intro indexed_indexBy) (simp add: sl_dst_def)
  have src: "\<forall>lr \<in> set (sl_records s). log_laws P \<and> lr_distinct lr"
    and dst: "\<forall>lr \<in> set (sl_records d). lr_distinct lr"
    using assms(1-3) by (simp_all add: sl_src_def sl_dst_def)
  note loop = rs [unfolded rollupLogRecords_def]
  from lrs.loop_ok [OF idx src dst loop] lrs.loop_sum [OF idx src dst loop]
  show ?thesis
    by (simp add: d' sl_src_def sl_dst_def scopeCount_def scopeSize_def sum_list_triv)
qed

lemma newScopeLogs_counts:
  assumes "log_laws P" and "sl_src s" and "newScopeLogs P level s = Inr d"
  shows "sl_scope d = sl_scope s \<and> sl_dst P level d \<and> scopeCount P d = scopeSize s"
  using assms(3) mergeScopeRecords_counts [OF assms(1,2),
      of level "\<lparr>sl_scope = sl_scope s, sl_schema = [], sl_records = []\<rparr>" d]
  by (simp add: newScopeLogs_def sl_dst_def sl_src_def scopeCount_def)

interpretation sls: keyed_merge_sum "\<lambda>sl. scopeKey (sl_scope sl)" "\<lambda>sl. scopeKey (sl_scope sl)"
    "mergeScopeRecords P level" "newScopeLogs P level"
    "\<lambda>s. log_laws P \<and> sl_src s" "sl_dst P level" "scopeCount P" scopeSize for P level
proof (unfold_locales, goal_cases)
  case (1 s d)
  then show ?case using newScopeLogs_counts [of P s level d] by auto
next
  case (2 s d d')
  then show ?case using mergeScopeRecords_counts [of P s level d d'] by auto
next
  case (3 s d)
  then show ?case using newScopeLogs_counts [of P s level d] by auto
next
  case (4 s d d')
  then show ?case using mergeScopeRecords_counts [of P s level d d'] by auto
qed

definition rl_src :: "ResourceLogs \<Rightarrow> bool" where
  "rl_src rl \<longleftrightarrow> (\<forall>sl \<in> set (rl_scopes rl). sl_src sl)"

definition rl_dst :: "pdata \<Rightarrow> CardinalityLevel \<Rightarrow> ResourceLogs \<Rightarrow> bool" where
  "rl_dst P level rl \<longleftrightarrow> (\<forall>sl \<in> set (rl_scopes rl). sl_dst P level sl) \<and>
     distinct (map (\<lambda>sl. scopeKey (sl_scope sl)) (rl_scopes rl))"

definition resourceCount :: "pdata \<Rightarrow> ResourceLogs \<Rightarrow> int64" where
  "resourceCount P rl = sum_list (map (scopeCount P) (rl_scopes rl))"

definition resourceSize :: "ResourceLogs \<Rightarrow> int64" where
  "resourceSize rl = sum_list (map scopeSize (rl_scopes rl))"

lemma resourceSize_records: "sum_list (map resourceSize rls) = of_nat (length (records_of rls))"
proof -
  have scopes: "sum_list (map scopeSize ss) = of_nat (length (concat (map sl_records ss)))" for ss
    by (induction ss) (simp_all add: scopeSize_def)
  show ?thesis
    by (induction rls) (simp_all add: records_of_def resourceSize_def scopes)
qed

lemma mergeScopeLogs_counts:
  assumes "log_laws P" and "rl_src s" and "rl_dst P level d" and "mergeScopeLogs P level d s = Inr d'"
  shows "rl_resource d' = rl_resource d \<and> rl_dst P level d' \<and>
    resourceCount P d' = resourceCount P d + resourceSize s"
  using assms
    sls.loop_ok [of "indexBy (\<lambda>sl. scopeKey (sl_scope sl)) (rl_scopes d)" "rl_scopes d" "rl_scopes s" P level]
    sls.loop_sum [of "indexBy (\<lambda>sl. scopeKey (sl_scope sl)) (rl_scopes d)" "rl_scopes d" "rl_scopes s" P level]
  by (auto simp: mergeScopeLogs_def res_bind_Inr_iff rl_src_def rl_dst_def resourceCount_def
        resourceSize_def indexed_indexBy)

lemma newResourceLogs_counts:
  assumes "log_laws P" and "rl_src s" and "newResourceLogs P level s = Inr d"
  shows "rl_resource d = rl_resource s \<and> rl_dst P level d \<and> resourceCount P d = resourceSize s"
  using assms(3) mergeScopeLogs_counts [OF assms(1,2),
      of level "\<lparr>rl_resource = rl_resource s, rl_schema = [], rl_scopes = []\<rparr>" d]
  by (simp add: newResourceLogs_def rl_dst_def resourceCount_def)

interpretation rls: keyed_merge_sum "\<lambda>rl. attrKey P (res_attrs (rl_resource rl))"
    "\<lambda>rl. attrKey P (res_attrs (rl_resource rl))"
    "mergeScopeLogs P level" "newResourceLogs P level"
    "\<lambda>s. log_laws P \<and> rl_src s" "rl_dst P level" "resourceCount P" resourceSize for P level
proof (unfold_locales, goal_cases)
  case (1 s d)
  then show ?case using newResourceLogs_counts [of P s level d] by auto
next
  case (2 s d d')
  then show ?case using mergeScopeLogs_counts [of P s level d d'] by auto
next
  case (3 s d)
  then show ?case using newResourceLogs_counts [of P s level d] by auto
next
  case (4 s d d')
  then show ?case using mergeScopeLogs_counts [of P s level d d'] by auto
qed

lemma mergeScopeRecords_no_panic: "\<exists>d'. mergeScopeRecords P level d s = Inr d'"
proof -
  have "\<exists>rs. rollupLogRecords P (sl_records d) (sl_records s) level = Inr rs"
    unfolding rollupLogRecords_def
    by (rule mergeLoop_no_panic) (simp_all add: countRecord_def newRecord_def Let_def)
  then show ?thesis by (auto simp: mergeScopeRecords_def)
qed

lemma mergeScopeLogs_no_panic: "\<exists>d'. mergeScopeLogs P level d s = Inr d'"
proof -
  have "\<exists>sls. mergeLoop (\<lambda>sl. scopeKey (sl_scope sl)) (mergeScopeRecords P level) (newScopeLogs P level)
      g ds ss = Inr sls" for g ds ss
    by (rule mergeLoop_no_panic) (simp_all add: newScopeLogs_def mergeScopeRecords_no_panic)
  from this [of "indexBy (\<lambda>sl. scopeKey (sl_scope sl)) (rl_scopes d)" "rl_scopes d" "rl_scopes s"]
  show ?thesis by (auto simp: mergeScopeLogs_def)
qed

lemma RollupLogs_no_panic: "\<exists>out. RollupLogs P p sigs = Inr out"
proof (cases "rp_currentLevel p = LevelFine \<or> \<not> rlp_Enabled (rp_cfg p)")
  case False
  then show ?thesis
    unfolding RollupLogs_def Let_def if_not_P [OF False]
    by (intro mergeLoop_no_panic) (simp_all add: newResourceLogs_def mergeScopeLogs_no_panic)
qed (simp add: RollupLogs_def)

subsection \<open>Metric types that agree\<close>

fun metricKind :: "MetricData \<Rightarrow> nat" where
  "metricKind MetricEmpty = 0"
| "metricKind (MetricGauge ps) = 1"
| "metricKind (MetricSum m t ps) = 2"
| "metricKind (MetricOther b) = 3"

text \<open>Every metric of a name has one type (or none).\<close>

definition kind_ok :: "(string \<Rightarrow> nat) \<Rightarrow> Metric \<Rightarrow> bool" where
  "kind_ok kind m \<longleftrightarrow> metricKind (m_data m) = 0 \<or> metricKind (m_data m) = kind (m_name m)"

lemma rollupDataPoints_no_panic: "\<exists>ps. rollupDataPoints P dest src level = Inr ps"
  unfolding rollupDataPoints_def
  by (rule mergeLoop_no_panic) (simp_all add: aggregatePoint_def newPoint_def)

lemma rollupMetricData_kind:
  assumes "kind_ok kind s" and "kind_ok kind d" and "m_name d = m_name s"
  shows "\<exists>d'. rollupMetricData P level d s = Inr d' \<and> m_name d' = m_name s \<and> kind_ok kind d'"
proof -
  obtain ps where "rollupDataPoints P (points (m_data d)) (points (m_data s)) level = Inr ps"
    using rollupDataPoints_no_panic by blast
  with assms show ?thesis
    by (cases "m_data s"; cases "m_data d") (auto simp: rollupMetricData_def kind_ok_def)
qed

lemma newMetric_kind:
  "kind_ok kind s \<Longrightarrow> \<exists>d. newMetric P level s = Inr d \<and> m_name d = m_name s \<and> kind_ok kind d"
  unfolding newMetric_def by (rule rollupMetricData_kind) (simp_all add: kind_ok_def)

interpretation mtk: keyed_merge m_name m_name "rollupMetricData P level" "newMetric P level"
    "kind_ok kind" "kind_ok kind" for P level kind
  by unfold_locales (metis Inr_inject newMetric_kind, metis Inr_inject rollupMetricData_kind)

definition scope_kind :: "(string \<Rightarrow> nat) \<Rightarrow> ScopeMetrics \<Rightarrow> bool" where
  "scope_kind kind sm \<longleftrightarrow> (\<forall>m \<in> set (sm_metrics sm). kind_ok kind m)"

definition scope_kind_dst :: "(string \<Rightarrow> nat) \<Rightarrow> ScopeMetrics \<Rightarrow> bool" where
  "scope_kind_dst kind sm \<longleftrightarrow> scope_kind kind sm \<and> distinct (map m_name (sm_metrics sm))"

lemma mergeMetricsList_kind:
  assumes "scope_kind kind s" and "scope_kind_dst kind d"
  shows "\<exists>d'. mergeMetricsList P level d s = Inr d' \<and> sm_scope d' = sm_scope d \<and> scope_kind_dst kind d'"
proof -
  let ?g = "indexBy m_name (sm_metrics d)"
  have idx: "indexed m_name ?g (sm_metrics d)"
    using assms(2) by (intro indexed_indexBy) (simp add: scope_kind_dst_def)
  have oks: "\<forall>m \<in> set (sm_metrics s). kind_ok kind m" "\<forall>m \<in> set (sm_metrics d). kind_ok kind m"
    using assms by (simp_all add: scope_kind_def scope_kind_dst_def)
  have "\<exists>ms. mtk.loop P level ?g (sm_metrics d) (sm_metrics s) = Inr ms"
    by (rule mtk.loop_total [OF _ _ idx oks]) (metis newMetric_kind, metis rollupMetricData_kind)
  then obtain ms where ms: "mtk.loop P level ?g (sm_metrics d) (sm_metrics s) = Inr ms" by blast
  from mtk.loop_ok [OF idx oks ms] ms show ?thesis
    by (simp add: mergeMetricsList_def scope_kind_dst_def scope_kind_def)
qed

lemma newScopeMetrics_kind:
  "scope_kind kind s \<Longrightarrow>
   \<exists>d. newScopeMetrics P level s = Inr d \<and> sm_scope d = sm_scope s \<and> scope_kind_dst kind d"
  using mergeMetricsList_kind [of kind s "\<lparr>sm_scope = sm_scope s, sm_schema = [], sm_metrics = []\<rparr>" P level]
  by (simp add: newScopeMetrics_def scope_kind_dst_def scope_kind_def)

interpretation sck: keyed_merge "\<lambda>sm. scopeKey (sm_scope sm)" "\<lambda>sm. scopeKey (sm_scope sm)"
    "mergeMetricsList P level" "newScopeMetrics P level" "scope_kind kind" "scope_kind_dst kind"
    for P level kind
  by unfold_locales (metis Inr_inject newScopeMetrics_kind, metis Inr_inject mergeMetricsList_kind)

definition resource_kind :: "(string \<Rightarrow> nat) \<Rightarrow> ResourceMetrics \<Rightarrow> bool" where
  "resource_kind kind rm \<longleftrightarrow> (\<forall>sm \<in> set (rm_scopes rm). scope_kind kind sm)"

definition resource_kind_dst :: "(string \<Rightarrow> nat) \<Rightarrow> ResourceMetrics \<Rightarrow> bool" where
  "resource_kind_dst kind rm \<longleftrightarrow> (\<forall>sm \<in> set (rm_scopes rm). scope_kind_dst kind sm) \<and>
     distinct (map (\<lambda>sm. scopeKey (sm_scope sm)) (rm_scopes rm))"

lemma mergeScopeMetrics_kind:
  assumes "resource_kind kind s" and "resource_kind_dst kind d"
  shows "\<exists>d'. mergeScopeMetrics P level d s = Inr d' \<and> rm_resource d' = rm_resource d \<and>
    resource_kind_dst kind d'"
proof -
  let ?g = "indexBy (\<lambda>sm. scopeKey (sm_scope sm)) (rm_scopes d)"
  have idx: "indexed (\<lambda>sm. scopeKey (sm_scope sm)) ?g (rm_scopes d)"
    using assms(2) by (intro indexed_indexBy) (simp add: resource_kind_dst_def)
  have oks: "\<forall>sm \<in> set (rm_scopes s). scope_kind kind sm" "\<forall>sm \<in> set (rm_scopes d). scope_kind_dst kind sm"
    using assms by (simp_all add: resource_kind_def resource_kind_dst_def)
  have "\<exists>sms. sck.loop P level ?g (rm_scopes d) (rm_scopes s) = Inr sms"
    by (rule sck.loop_total [OF _ _ idx oks]) (metis newScopeMetrics_kind, metis mergeMetricsList_kind)
  then obtain sms where sms: "sck.loop P level ?g (rm_scopes d) (rm_scopes s) = Inr sms" by blast
  from sck.loop_ok [OF idx oks sms] sms show ?thesis
    by (simp add: mergeScopeMetrics_def resource_kind_dst_def)
qed

lemma newResourceMetrics_kind:
  "resource_kind kind s \<Longrightarrow>
   \<exists>d. newResourceMetrics P level s = Inr d \<and> rm_resource d = rm_resource s \<and> resource_kind_dst kind d"
  using mergeScopeMetrics_kind [of kind s "\<lparr>rm_resource = rm_resource s, rm_schema = [], rm_scopes = []\<rparr>" P level]
  by (simp add: newResourceMetrics_def resource_kind_dst_def)

interpretation rmk: keyed_merge "\<lambda>rm. attrKey P (res_attrs (rm_resource rm))"
    "\<lambda>rm. attrKey P (res_attrs (rm_resource rm))"
    "mergeScopeMetrics P level" "newResourceMetrics P level" "resource_kind kind" "resource_kind_dst kind"
    for P level kind
  by unfold_locales (metis Inr_inject newResourceMetrics_kind, metis Inr_inject mergeScopeMetrics_kind)

subsection \<open>Concrete inputs\<close>

definition scope_example :: InstrumentationScope where
  "scope_example = \<lparr>scope_name = ''lib'', scope_version = ''1'', scope_other = []\<rparr>"

definition point_example :: "AttrMap \<Rightarrow> NumberValue \<Rightarrow> NumberDataPoint" where
  "point_example attrs v = \<lparr>dp_attrs = attrs, dp_value = v, dp_other = []\<rparr>"

definition metric_example :: "string \<Rightarrow> MetricData \<Rightarrow> Metric" where
  "metric_example n d = \<lparr>m_name = n, m_description = [], m_unit = [], m_data = d, m_other = []\<rparr>"

definition metrics_example :: "AttrMap \<Rightarrow> Metric list \<Rightarrow> ResourceMetrics" where
  "metrics_example attrs ms = \<lparr>rm_resource = \<lparr>res_attrs = attrs, res_other = []\<rparr>, rm_schema = [],
     rm_scopes = [\<lparr>sm_scope = scope_example, sm_schema = [], sm_metrics = ms\<rparr>]\<rparr>"

definition msignal_example :: "ResourceMetrics list \<Rightarrow> MetricSignal" where
  "msignal_example rms = \<lparr>ms_Metrics = rms, ms_Ctx = ctxAt 0\<rparr>"

definition rollup_example :: "CardinalityLevel \<Rightarrow> RollupProcessor" where
  "rollup_example level = SetLevel level (rollup_New \<lparr>rlp_Enabled = True\<rparr>)"

definition sums_example :: "MetricSignal list" where
  "sums_example = [msignal_example [metrics_example []
     [metric_example ''req'' (MetricSum True 2
        [point_example [(''user_id'', ValueStr ''a'')] (NumberInt 3),
         point_example [(''user_id'', ValueStr ''b'')] (NumberInt 4)])]]]"

definition record_example :: "string \<Rightarrow> LogRecord" where
  "record_example user = \<lparr>lr_traceID = [], lr_severity = 9, lr_body = ValueStr ''cache miss'',
     lr_attrs = [(''user_id'', ValueStr user)], lr_other = []\<rparr>"

definition logs_example :: "LogSignal list" where
  "logs_example = [\<lparr>ls_Logs = [\<lparr>rl_resource = NewResource, rl_schema = [],
     rl_scopes = [\<lparr>sl_scope = scope_example, sl_schema = [],
                   sl_records = [record_example ''a'', record_example ''b'']\<rparr>]\<rparr>],
     ls_Ctx = ctxAt 0\<rparr>]"

lemma pdata_example_rollup_laws [simp]: "rollup_laws pdata_example" "log_laws pdata_example"
    "attrmap_ok pdata_example"
  using pdata_example_ok by (simp_all add: pdata_ok_def rollup_laws_def log_laws_def)

lemmas rollup_example_defs = rollup_example_def SetLevel_def rollup_New_def msignal_example_def
  metrics_example_def metric_example_def point_example_def scope_example_def

subsection \<open>Conservation\<close>

lemma RollupMetrics_total:
  assumes "rollup_laws P"
    and "\<forall>sig \<in> set sigs. \<forall>rm \<in> set (ms_Metrics sig). resource_src rm"
    and "RollupMetrics P p sigs = Inr out"
  shows "metricsTotal P out = sum_list (map (\<lambda>sig. metricsTotal P (ms_Metrics sig)) sigs)"
proof -
  let ?src = "concat (map ms_Metrics sigs)"
  have total: "metricsTotal P ?src = sum_list (map (\<lambda>sig. metricsTotal P (ms_Metrics sig)) sigs)"
    by (simp add: metricsTotal_concat comp_def)
  show ?thesis
  proof (cases "rp_currentLevel p = LevelFine \<or> \<not> rlp_Enabled (rp_cfg p)")
    case True
    with assms(3) total show ?thesis by (simp add: RollupMetrics_def mergeMetrics_concat)
  next
    case False
    with assms(3) have loop: "rms.loop P (rp_currentLevel p) Map.empty [] ?src = Inr out"
      by (simp add: RollupMetrics_def Let_def)
    have "\<forall>rm \<in> set ?src. rollup_laws P \<and> resource_src rm" using assms(1,2) by auto
    from rms.loop_sum [OF indexed_empty this _ loop] total show ?thesis
      by (simp add: metricsTotal_def)
  qed
qed

lemma RollupMetrics_returns:
  assumes "\<forall>sig \<in> set sigs. \<forall>rm \<in> set (ms_Metrics sig). resource_kind kind rm"
  shows "\<exists>out. RollupMetrics P p sigs = Inr out"
proof (cases "rp_currentLevel p = LevelFine \<or> \<not> rlp_Enabled (rp_cfg p)")
  case False
  let ?src = "concat (map ms_Metrics sigs)"
  have src: "\<forall>rm \<in> set ?src. resource_kind kind rm" using assms by auto
  have "\<exists>out. rmk.loop P (rp_currentLevel p) Map.empty [] ?src = Inr out"
    by (rule rmk.loop_total [OF _ _ indexed_empty src])
       (metis newResourceMetrics_kind, metis mergeScopeMetrics_kind, simp)
  with False show ?thesis by (simp add: RollupMetrics_def Let_def)
qed (auto simp: RollupMetrics_def)

subsection \<open>Properties\<close>

text \<open>
  C16: a rollup of integer data points conserves their sum.  Whatever the level, and however the
  points are regrouped by resource, scope, name and surviving attributes, the values in the
  output add up (in the 64-bit arithmetic of the code) to the values in the input.
\<close>

theorem RollupMetrics_conserves_sum:
  assumes "rollup_laws P"
    and "\<forall>sig \<in> set sigs. \<forall>rm \<in> set (ms_Metrics sig). resource_src rm"
    and "RollupMetrics P p sigs = Inr out"
  shows "metricsTotal P out = sum_list (map (\<lambda>sig. metricsTotal P (ms_Metrics sig)) sigs)"
  by (rule RollupMetrics_total [OF assms])

theorem RollupMetrics_conserves_sum_witness:
  "\<exists>out. RollupMetrics pdata_example (rollup_example LevelCoarse) sums_example = Inr out \<and>
     metricsTotal pdata_example out = 7"
proof -
  have "\<not> isl (RollupMetrics pdata_example (rollup_example LevelCoarse) sums_example)"
    by code_simp
  then obtain out where out: "RollupMetrics pdata_example (rollup_example LevelCoarse) sums_example = Inr out"
    by (metis isl_def sum.exhaust)
  have "metricsTotal pdata_example out
      = sum_list (map (\<lambda>sig. metricsTotal pdata_example (ms_Metrics sig)) sums_example)"
    by (rule RollupMetrics_conserves_sum [OF _ _ out])
       (simp_all add: sums_example_def rollup_example_defs resource_src_def scope_src_def
          metric_src_def dp_int_def dp_distinct_def)
  also have "\<dots> = 7"
    by (simp add: sums_example_def rollup_example_defs metricsTotal_def resourceTotal_def
          scopeTotal_def metricTotal_def dpInt_def pdata_example_def)
  finally show ?thesis using out by blast
qed

text \<open>
  Rolling metrics up returns a result, and does not panic, whenever all metrics of one name
  have the same type.
\<close>

theorem RollupMetrics_no_panic:
  assumes "\<forall>sig \<in> set sigs. \<forall>rm \<in> set (ms_Metrics sig). resource_kind kind rm"
  shows "\<exists>out. RollupMetrics P p sigs = Inr out"
  using assms by (rule RollupMetrics_returns)

theorem RollupMetrics_no_panic_witness:
  "\<exists>out. RollupMetrics pdata_example (rollup_example LevelMedium) sums_example = Inr out"
  by (rule RollupMetrics_no_panic [where kind = "\<lambda>_. 2"])
     (simp add: sums_example_def rollup_example_defs resource_kind_def scope_kind_def kind_ok_def)



text \<open>
  At the coarse level the points of a metric collapse into a single point without
  attributes.
\<close>

theorem coarse_single_point:
  assumes "attrmap_ok P" and "\<forall>dp \<in> set src. dp_distinct dp" and "src \<noteq> []"
  shows "\<exists>dp. rollupDataPoints P [] src LevelCoarse = Inr [dp] \<and> dp_attrs dp = []"
proof -
  obtain ps where ps: "rollupDataPoints P [] src LevelCoarse = Inr ps"
    using rollupDataPoints_no_panic by blast
  then have loop: "dpk.loop P LevelCoarse Map.empty [] src = Inr ps"
    by (simp add: rollupDataPoints_def indexBy_def)
  have src: "\<forall>dp \<in> set src. attrmap_ok P \<and> dp_distinct dp" using assms(1,2) by blast
  have keys: "set (map (pointKey P) ps) = {[]}"
    using dpk.loop_keys [OF indexed_empty src _ loop] assms(3)
    by (simp add: filterAttributesKey_def image_constant_conv)
  have "distinct (map (pointKey P) ps)" using dpk.loop_ok [OF indexed_empty src _ loop] by simp
  then have "length ps = card {[]::string}" using keys distinct_card by fastforce
  then obtain dp where dp: "ps = [dp]" by (auto simp: length_Suc_conv)
  with keys have "attrKey P (dp_attrs dp) = []" by simp
  then have "dp_attrs dp = []" by (cases "dp_attrs dp") (simp_all add: attrKey_concat attrPart_def)
  with ps dp show ?thesis by blast
qed

theorem coarse_single_point_witness:
  "\<exists>dp. rollupDataPoints pdata_example []
      [point_example [(''a'', ValueBool True)] (NumberInt 1), point_example [] (NumberInt 2)]
      LevelCoarse = Inr [dp] \<and> dp_attrs dp = []"
  by (rule coarse_single_point) (simp_all add: point_example_def dp_distinct_def)

text \<open>
  in general the points of a metric are grouped by exactly the attributes that survive the
  level: the keys of the result are those of the destination and the filtered keys of the
  source, and no two points of the result share one.
\<close>

theorem rollupDataPoints_grouped:
  assumes "attrmap_ok P" and "\<forall>dp \<in> set (dest @ src). dp_distinct dp"
    and "distinct (map (pointKey P) dest)"
  shows "\<exists>ps. rollupDataPoints P dest src level = Inr ps \<and> distinct (map (pointKey P) ps) \<and>
    set (map (pointKey P) ps) = set (map (pointKey P) dest) \<union>
      set (map (\<lambda>dp. filterAttributesKey P (dp_attrs dp) level) src)"
proof -
  obtain ps where ps: "rollupDataPoints P dest src level = Inr ps"
    using rollupDataPoints_no_panic by blast
  note loop = ps [unfolded rollupDataPoints_def]
  have src: "\<forall>dp \<in> set src. attrmap_ok P \<and> dp_distinct dp" "\<forall>dp \<in> set dest. dp_distinct dp"
    using assms(1,2) by auto
  from dpk.loop_ok [OF indexed_indexBy [OF assms(3)] src loop]
    dpk.loop_keys [OF indexed_indexBy [OF assms(3)] src loop] ps
  show ?thesis by blast
qed

theorem rollupDataPoints_grouped_witness:
  "\<exists>ps. rollupDataPoints pdata_example []
      [point_example [(''error'', ValueBool True)] (NumberInt 1), point_example [] (NumberInt 2)]
      LevelMedium = Inr ps \<and> distinct (map (pointKey pdata_example) ps)"
  using rollupDataPoints_grouped [of pdata_example "[]"
      "[point_example [(''error'', ValueBool True)] (NumberInt 1), point_example [] (NumberInt 2)]" LevelMedium]
  by (auto simp: point_example_def dp_distinct_def)

text \<open>
  C25: a rollup of log records accounts for every one of them.  Above the fine level it returns
  a result in which the counts stored under \<open>rollup.count\<close> add up to the number of records
  that went in.
\<close>

theorem RollupLogs_counts_records:
  assumes "log_laws P" and "rp_currentLevel p \<noteq> LevelFine" and "rlp_Enabled (rp_cfg p)"
    and "\<forall>sig \<in> set sigs. \<forall>rl \<in> set (ls_Logs sig). rl_src rl"
  shows "\<exists>out. RollupLogs P p sigs = Inr out \<and>
    sum_list (map (resourceCount P) out) =
      of_nat (length (concat (map (\<lambda>sig. records_of (ls_Logs sig)) sigs)))"
proof -
  let ?src = "concat (map ls_Logs sigs)"
  obtain out where out: "RollupLogs P p sigs = Inr out" using RollupLogs_no_panic by blast
  with assms(2,3) have loop: "rls.loop P (rp_currentLevel p) Map.empty [] ?src = Inr out"
    by (simp add: RollupLogs_def Let_def)
  have "\<forall>rl \<in> set ?src. log_laws P \<and> rl_src rl" using assms(1,4) by auto
  from rls.loop_sum [OF indexed_empty this _ loop]
  have "sum_list (map (resourceCount P) out) = sum_list (map resourceSize ?src)" by simp
  also have "\<dots> = of_nat (length (records_of ?src))" by (rule resourceSize_records)
  also have "records_of ?src = concat (map (\<lambda>sig. records_of (ls_Logs sig)) sigs)"
    by (induction sigs) simp_all
  finally show ?thesis using out by blast
qed

theorem RollupLogs_counts_records_witness:
  "\<exists>out. RollupLogs pdata_example (rollup_example LevelCoarse) logs_example = Inr out \<and>
     sum_list (map (resourceCount pdata_example) out) = 2"
  using RollupLogs_counts_records [of pdata_example "rollup_example LevelCoarse" logs_example]
  by (simp add: rollup_example_defs logs_example_def rl_src_def sl_src_def lr_distinct_def
        record_example_def records_of_def)

text \<open>
  the key of an attribute map is the concatenation of \<open>k=v;\<close> parts without quoting, so
  different resources can share one: with values rendered as themselves, the resources
  \<open>{a: "1;b=2"}\<close> and \<open>{a: "1", b: "2"}\<close> are merged into the first, and the second one's
  attributes are lost.
\<close>

theorem RollupMetrics_key_collision:
  assumes "\<forall>s. pd_AsString P (ValueStr s) = s"
    and "rp_currentLevel p \<noteq> LevelFine" and "rlp_Enabled (rp_cfg p)"
  shows "\<exists>rm. RollupMetrics P p [msignal_example
      [metrics_example [(''a'', ValueStr ''1;b=2'')] [],
       metrics_example [(''a'', ValueStr ''1''), (''b'', ValueStr ''2'')] []]] = Inr [rm] \<and>
    res_attrs (rm_resource rm) = [(''a'', ValueStr ''1;b=2'')]"
  using assms
  by (simp add: RollupMetrics_def msignal_example_def metrics_example_def newResourceMetrics_def
        mergeScopeMetrics_def newScopeMetrics_def mergeMetricsList_def indexBy_def
        attrKey_def attrPart_def)

theorem RollupMetrics_key_collision_witness:
  "\<exists>rm. RollupMetrics pdata_example (rollup_example LevelMedium) [msignal_example
      [metrics_example [(''a'', ValueStr ''1;b=2'')] [],
       metrics_example [(''a'', ValueStr ''1''), (''b'', ValueStr ''2'')] []]] = Inr [rm] \<and>
    res_attrs (rm_resource rm) = [(''a'', ValueStr ''1;b=2'')]"
  by (rule RollupMetrics_key_collision) (simp_all add: pdata_example_def rollup_example_defs)

end
