(* ===== verification/Telemetry.thy ===== *)
theory Telemetry
  imports Signals
begin

text \<open>
  The node's own telemetry, \<open>internal/telemetry/telemetry.go\<close>, as far as the other components
  see it: the three counters they add to, whether the two gauges are registered, and whether there
  is a telemetry at all.  The OpenTelemetry SDK behind it is not modelled; the results of its calls
  that can fail are arguments.
\<close>

record Telemetry =
  tel_SignalsReceived :: int
  tel_TracesSampled :: int
  tel_RollupsTotal :: int
  tel_BufferItems :: bool  \<comment> \<open>the gauge exists and calls its callback\<close>
  tel_GossipPeers :: bool

definition telemetry_Init :: "error option \<Rightarrow> error option \<Rightarrow> error + Telemetry" where
  "telemetry_Init newExporter mergeResource =
     (case newExporter of
        Some err \<Rightarrow> Inl (''failed to create metric exporter: '' @ err)
      | None \<Rightarrow>
          (case mergeResource of
             Some err \<Rightarrow> Inl (''failed to create resource: '' @ err)
           | None \<Rightarrow> Inr \<lparr>tel_SignalsReceived = 0, tel_TracesSampled = 0, tel_RollupsTotal = 0,
               tel_BufferItems = False, tel_GossipPeers = False\<rparr>))"

text \<open>The two gauges: creating the instrument fails or registers the callback.\<close>

definition RegisterBufferGauge :: "error option \<Rightarrow> Telemetry \<Rightarrow> Telemetry \<times> error option" where
  "RegisterBufferGauge create t = (t\<lparr>tel_BufferItems := (create = None)\<rparr>, create)"

definition RegisterGossipGauge :: "error option \<Rightarrow> Telemetry \<Rightarrow> Telemetry \<times> error option" where
  "RegisterGossipGauge create t = (t\<lparr>tel_GossipPeers := (create = None)\<rparr>, create)"

text \<open>The guarded updates \<open>if telemetry != nil { ... Add(ctx, n) }\<close> of the other components.\<close>

definition addReceived :: "Telemetry option \<Rightarrow> Telemetry option" where
  "addReceived tel = map_option (\<lambda>t. t\<lparr>tel_SignalsReceived := tel_SignalsReceived t + 1\<rparr>) tel"

definition addSampled :: "Telemetry option \<Rightarrow> Telemetry option" where
  "addSampled tel = map_option (\<lambda>t. t\<lparr>tel_TracesSampled := tel_TracesSampled t + 1\<rparr>) tel"

definition addRollups :: "int \<Rightarrow> Telemetry option \<Rightarrow> Telemetry option" where
  "addRollups n tel = map_option (\<lambda>t. t\<lparr>tel_RollupsTotal := tel_RollupsTotal t + n\<rparr>) tel"

end
