(* ===== verification/Processor.thy ===== *)
theory Processor
  imports BufferSpec Exporter Rollup Telemetry
begin

text \<open>
  The processor of \<open>internal/processor/processor.go\<close>: it acts on the sampling decisions and
  triggers that gossip delivers, collects the signals the buffer evicts, and rolls the remaining
  data up every 30 seconds.  Each of its four loops receives from a channel (or a ticker) and runs
  one of the handlers below.

  The buffer and the exporter are used through their interfaces only: the records
  \<open>BufferManager\<close> and \<open>Exporter\<close>.  What the handlers do is proved in the locale
  \<open>processor_env\<close>, from the contracts \<open>buffer_manager\<close> and \<open>exporter\<close>.
\<close>

record ('s, 'x) Processor =
  pr_buffer :: 's
  pr_rollup :: RollupProcessor
  pr_exporter :: 'x
  pr_telemetry :: "Telemetry option"
  pr_evictedMetrics :: "MetricSignal list"
  pr_evictedLogs :: "LogSignal list"

definition processor_New :: "'s \<Rightarrow> RollupProcessor \<Rightarrow> 'x \<Rightarrow> Telemetry option \<Rightarrow> ('s, 'x) Processor" where
  "processor_New buf rlp exp tel = \<lparr>pr_buffer = buf, pr_rollup = rlp, pr_exporter = exp,
     pr_telemetry = tel, pr_evictedMetrics = [], pr_evictedLogs = []\<rparr>"

subsection \<open>Labels\<close>

definition addProcessingLabelToTraces :: "pdata \<Rightarrow> Traces \<Rightarrow> Traces" where
  "addProcessingLabelToTraces P t = map (\<lambda>rs. rs\<lparr>rs_resource := (rs_resource rs)\<lparr>res_attrs :=
     pd_Put P (res_attrs (rs_resource rs)) ''sampler.processed'' (ValueBool True)\<rparr>\<rparr>) t"

definition addProcessingLabelToMetrics :: "pdata \<Rightarrow> Metrics \<Rightarrow> Metrics" where
  "addProcessingLabelToMetrics P m = map (\<lambda>rm. rm\<lparr>rm_resource := (rm_resource rm)\<lparr>res_attrs :=
     pd_Put P (res_attrs (rm_resource rm)) ''sampler.processed'' (ValueBool True)\<rparr>\<rparr>) m"

definition addProcessingLabelToLogs :: "pdata \<Rightarrow> Logs \<Rightarrow> Logs" where
  "addProcessingLabelToLogs P l = map (\<lambda>rl. rl\<lparr>rl_resource := (rl_resource rl)\<lparr>res_attrs :=
     pd_Put P (res_attrs (rl_resource rl)) ''sampler.processed'' (ValueBool True)\<rparr>\<rparr>) l"

subsection \<open>The handlers\<close>

fun handleEvictedSignal :: "Signal \<Rightarrow> ('s, 'x) Processor \<Rightarrow> ('s, 'x) Processor" where
  "handleEvictedSignal (SigMetric s) p = p\<lparr>pr_evictedMetrics := pr_evictedMetrics p @ [s]\<rparr>"
| "handleEvictedSignal (SigLog s) p = p\<lparr>pr_evictedLogs := pr_evictedLogs p @ [s]\<rparr>"
| "handleEvictedSignal (SigTrace s) p = p"
| "handleEvictedSignal (OtherSignal t c) p = p"

definition processTrigger :: "TriggerEvent \<Rightarrow> ('s, 'x) Processor \<Rightarrow> ('s, 'x) Processor" where
  "processTrigger t p =
     (if te_Name t = ''high_load'' then
        if fgt (te_Value t) (te_Threshold t)
        then p\<lparr>pr_rollup := SetLevel LevelCoarse (pr_rollup p)\<rparr>
        else p\<lparr>pr_rollup := SetLevel LevelFine (pr_rollup p)\<rparr>
      else p)"

definition countSampled :: "('s, 'x) Processor \<Rightarrow> ('s, 'x) Processor" where
  "countSampled p = p\<lparr>pr_telemetry := addSampled (pr_telemetry p)\<rparr>"

definition countRollups :: "nat \<Rightarrow> ('s, 'x) Processor \<Rightarrow> ('s, 'x) Processor" where
  "countRollups n p = p\<lparr>pr_telemetry := addRollups (int n) (pr_telemetry p)\<rparr>"

definition exportMetrics :: "'x Exporter \<Rightarrow> Metrics \<Rightarrow> ('s, 'x) Processor \<Rightarrow> ('s, 'x) Processor" where
  "exportMetrics X m p = p\<lparr>pr_exporter := fst (ex_ExportMetrics X m (pr_exporter p))\<rparr>"

definition exportLogs :: "'x Exporter \<Rightarrow> Logs \<Rightarrow> ('s, 'x) Processor \<Rightarrow> ('s, 'x) Processor" where
  "exportLogs X l p = p\<lparr>pr_exporter := fst (ex_ExportLogs X l (pr_exporter p))\<rparr>"

text \<open>The steps of \<open>processDecision\<close>: the trace, its logs, the metrics and the logs of the window.\<close>

definition sampleTrace :: "pdata \<Rightarrow> 's BufferManager \<Rightarrow> 'x Exporter \<Rightarrow> TraceID \<Rightarrow>
    ('s, 'x) Processor \<Rightarrow> ('s, 'x) Processor" where
  "sampleTrace P M X tid p =
     (case bm_GetTrace M (pr_buffer p) tid of
        None \<Rightarrow> p
      | Some trace \<Rightarrow>
          (let p1 = countSampled p;
               trace' = trace\<lparr>ts_Traces := addProcessingLabelToTraces P (ts_Traces trace)\<rparr>;
               p2 = p1\<lparr>pr_exporter := fst (ex_ExportTrace X trace' (pr_exporter p1))\<rparr>
           in p2\<lparr>pr_buffer := bm_RemoveTrace M (pr_buffer p2) tid\<rparr>))"

definition sampleTraceLogs :: "pdata \<Rightarrow> 's BufferManager \<Rightarrow> 'x Exporter \<Rightarrow> TraceID \<Rightarrow>
    ('s, 'x) Processor \<Rightarrow> ('s, 'x) Processor" where
  "sampleTraceLogs P M X tid p =
     (case bm_GetTraceLogs M (pr_buffer p) tid of
        None \<Rightarrow> p
      | Some logs \<Rightarrow> exportLogs X (addProcessingLabelToLogs P (ls_Logs logs)) p)"

definition sampleMetrics :: "pdata \<Rightarrow> 's BufferManager \<Rightarrow> 'x Exporter \<Rightarrow> time \<Rightarrow> time \<Rightarrow>
    ('s, 'x) Processor \<Rightarrow> ('s, 'x) Processor" where
  "sampleMetrics P M X start en p =
     (let metrics = bm_GetMetricsInRange M (pr_buffer p) start en in
      if length metrics > 0 then
        (let out = fold (\<lambda>m out. out @ ms_Metrics m) metrics [];
             p1 = exportMetrics X (addProcessingLabelToMetrics P out) p
         in p1\<lparr>pr_buffer := bm_RemoveMetricsInRange M (pr_buffer p1) start en\<rparr>)
      else p)"

definition sampleLogs :: "pdata \<Rightarrow> 's BufferManager \<Rightarrow> 'x Exporter \<Rightarrow> time \<Rightarrow> time \<Rightarrow>
    ('s, 'x) Processor \<Rightarrow> ('s, 'x) Processor" where
  "sampleLogs P M X start en p =
     (let logs = bm_GetLogsInRange M (pr_buffer p) start en in
      if length logs > 0 then
        (let out = fold (\<lambda>l out. out @ ls_Logs l) logs [];
             p1 = exportLogs X (addProcessingLabelToLogs P out) p
         in p1\<lparr>pr_buffer := bm_RemoveLogsInRange M (pr_buffer p1) start en\<rparr>)
      else p)"

definition windowStart :: "SamplingDecision \<Rightarrow> time" where
  "windowStart d = Add (sd_EventStart d) (- 5 * Second)"

definition windowEnd :: "SamplingDecision \<Rightarrow> time" where
  "windowEnd d = Add (sd_EventEnd d) (5 * Second)"

definition decisionTraceID :: "SamplingDecision \<Rightarrow> TraceID option" where
  "decisionTraceID d =
     (case DecodeString (sd_TraceID d) of
        None \<Rightarrow> None
      | Some b \<Rightarrow> if length b \<noteq> 16 then None else Some b)"

definition processDecision :: "pdata \<Rightarrow> 's BufferManager \<Rightarrow> 'x Exporter \<Rightarrow> SamplingDecision \<Rightarrow>
    ('s, 'x) Processor \<Rightarrow> ('s, 'x) Processor" where
  "processDecision P M X d p =
     (case decisionTraceID d of
        None \<Rightarrow> p
      | Some tid \<Rightarrow>
          sampleLogs P M X (windowStart d) (windowEnd d)
            (sampleMetrics P M X (windowStart d) (windowEnd d)
              (sampleTraceLogs P M X tid (sampleTrace P M X tid p))))"

subsection \<open>The periodic rollup\<close>

definition rollupEnd :: "time \<Rightarrow> time" where
  "rollupEnd now = Add now (- 10 * Second)"

definition rollupMetrics :: "pdata \<Rightarrow> 's BufferManager \<Rightarrow> 'x Exporter \<Rightarrow> time \<Rightarrow> time \<Rightarrow> MetricSignal list \<Rightarrow>
    ('s, 'x) Processor \<Rightarrow> ('s, 'x) Processor res" where
  "rollupMetrics P M X start en allMetrics p =
     (if length allMetrics > 0 then
        (let p1 = countRollups (length allMetrics) p in
         res_bind (RollupMetrics P (pr_rollup p1) allMetrics) (\<lambda>rolled.
           let p2 = exportMetrics X (addProcessingLabelToMetrics P rolled) p1 in
           Inr (p2\<lparr>pr_buffer := bm_RemoveMetricsInRange M (pr_buffer p2) start en\<rparr>)))
      else Inr p)"

definition rollupLogs :: "pdata \<Rightarrow> 's BufferManager \<Rightarrow> 'x Exporter \<Rightarrow> time \<Rightarrow> time \<Rightarrow> LogSignal list \<Rightarrow>
    ('s, 'x) Processor \<Rightarrow> ('s, 'x) Processor res" where
  "rollupLogs P M X start en allLogs p =
     (if length allLogs > 0 then
        (let p1 = countRollups (length allLogs) p in
         res_bind (RollupLogs P (pr_rollup p1) allLogs) (\<lambda>rolled.
           let p2 = exportLogs X (addProcessingLabelToLogs P rolled) p1 in
           Inr (p2\<lparr>pr_buffer := bm_RemoveLogsInRange M (pr_buffer p2) start en\<rparr>)))
      else Inr p)"

definition performRollup :: "pdata \<Rightarrow> 's BufferManager \<Rightarrow> 'x Exporter \<Rightarrow> time \<Rightarrow>
    ('s, 'x) Processor \<Rightarrow> ('s, 'x) Processor res" where
  "performRollup P M X now p =
     (let en = rollupEnd now; start = zeroTime;
          bufferMetrics = bm_GetMetricsInRange M (pr_buffer p) start en;
          bufferLogs = bm_GetLogsInRange M (pr_buffer p) start en;
          allMetrics = bufferMetrics @ pr_evictedMetrics p;
          allLogs = bufferLogs @ pr_evictedLogs p;
          p1 = p\<lparr>pr_evictedMetrics := [], pr_evictedLogs := []\<rparr>
      in res_bind (rollupMetrics P M X start en allMetrics p1)
           (\<lambda>p2. rollupLogs P M X start en allLogs p2))"

subsection \<open>What the handlers do\<close>

lemma countSampled_sel [simp]:
  "pr_buffer (countSampled p) = pr_buffer p" "pr_exporter (countSampled p) = pr_exporter p"
  "pr_rollup (countSampled p) = pr_rollup p"
  by (simp_all add: countSampled_def)

lemma countRollups_sel [simp]:
  "pr_buffer (countRollups n p) = pr_buffer p" "pr_exporter (countRollups n p) = pr_exporter p"
  "pr_rollup (countRollups n p) = pr_rollup p"
  "pr_evictedMetrics (countRollups n p) = pr_evictedMetrics p"
  "pr_evictedLogs (countRollups n p) = pr_evictedLogs p"
  by (simp_all add: countRollups_def)

lemmas sample_defs = sampleTrace_def sampleTraceLogs_def sampleMetrics_def sampleLogs_def
  exportMetrics_def exportLogs_def

text \<open>The data that is sent for the metrics and the logs of a window, when there is any.\<close>

definition metricsOut :: "pdata \<Rightarrow> 's BufferManager \<Rightarrow> 's \<Rightarrow> time \<Rightarrow> time \<Rightarrow> Export list" where
  "metricsOut P M s a b = (if bm_GetMetricsInRange M s a b = [] then [] else
     [OutMetrics (addProcessingLabelToMetrics P (mergeMetrics (bm_GetMetricsInRange M s a b)))])"

definition logsOut :: "pdata \<Rightarrow> 's BufferManager \<Rightarrow> 's \<Rightarrow> time \<Rightarrow> time \<Rightarrow> Export list" where
  "logsOut P M s a b = (if bm_GetLogsInRange M s a b = [] then [] else
     [OutLogs (addProcessingLabelToLogs P (mergeLogs (bm_GetLogsInRange M s a b)))])"

subsection \<open>Effects on the buffer\<close>

text \<open>What the handlers do to the buffer does not depend on the exporter: a failed export is logged only.\<close>

locale processor_buffer = buffer_manager M inv
  for M :: "'s BufferManager" and inv
begin

abbreviation "binv p \<equiv> inv (pr_buffer p)"

lemma sample_binv:
  "binv p \<Longrightarrow> binv (sampleTrace P M X tid p)"
  "binv p \<Longrightarrow> binv (sampleTraceLogs P M X tid p)"
  "binv p \<Longrightarrow> binv (sampleMetrics P M X a b p)"
  "binv p \<Longrightarrow> binv (sampleLogs P M X a b p)"
  by (auto simp: sample_defs Let_def inv_RemoveTrace inv_RemoveMetrics inv_RemoveLogs split: option.split)

lemma processDecision_binv: "binv p \<Longrightarrow> binv (processDecision P M X d p)"
  by (simp add: processDecision_def sample_binv split: option.split)

lemma sampleTrace_gone:
  "binv p \<Longrightarrow> bm_GetTrace M (pr_buffer (sampleTrace P M X tid p)) tid = None"
  by (simp add: sample_defs Let_def RemoveTrace_trace split: option.split)

lemma sampleTrace_buffer:
  "bm_GetTrace M (pr_buffer p) tid = Some trace \<Longrightarrow>
    pr_buffer (sampleTrace P M X tid p) = bm_RemoveTrace M (pr_buffer p) tid"
  by (simp add: sample_defs Let_def)

lemma sampleTraceLogs_after:
  assumes "binv p" and "bm_GetTrace M (pr_buffer p) tid = Some trace"
  shows "sampleTraceLogs P M X tid (sampleTrace P M X tid p) = sampleTrace P M X tid p"
  using assms by (simp add: sampleTraceLogs_def sampleTrace_buffer RemoveTrace_logs)

lemma sampleMetrics_buffer:
  assumes "binv p"
  shows "bm_GetMetricsInRange M (pr_buffer (sampleMetrics P M X a b p)) a b = []"
    and "bm_GetTrace M (pr_buffer p) tid = None \<Longrightarrow>
      bm_GetTrace M (pr_buffer (sampleMetrics P M X a b p)) tid = None"
  using assms by (simp_all add: sample_defs Let_def RemoveMetrics_gone RemoveMetrics_trace)

lemma sampleLogs_buffer:
  assumes "binv p"
  shows "bm_GetLogsInRange M (pr_buffer (sampleLogs P M X a b p)) a b = []"
    and "bm_GetTrace M (pr_buffer p) tid = None \<Longrightarrow>
      bm_GetTrace M (pr_buffer (sampleLogs P M X a b p)) tid = None"
    and "bm_GetMetricsInRange M (pr_buffer p) a b = [] \<Longrightarrow>
      bm_GetMetricsInRange M (pr_buffer (sampleLogs P M X a b p)) a b = []"
  using assms by (simp_all add: sample_defs Let_def RemoveLogs_gone RemoveLogs_trace RemoveLogs_metrics)

lemma processDecision_clears:
  assumes "binv p" and "decisionTraceID d = Some tid"
  shows "bm_GetTrace M (pr_buffer (processDecision P M X d p)) tid = None"
    and "bm_GetMetricsInRange M (pr_buffer (processDecision P M X d p)) (windowStart d) (windowEnd d) = []"
    and "bm_GetLogsInRange M (pr_buffer (processDecision P M X d p)) (windowStart d) (windowEnd d) = []"
proof -
  let ?p1 = "sampleTraceLogs P M X tid (sampleTrace P M X tid p)"
  let ?p2 = "sampleMetrics P M X (windowStart d) (windowEnd d) ?p1"
  have pd: "processDecision P M X d p = sampleLogs P M X (windowStart d) (windowEnd d) ?p2"
    by (simp add: processDecision_def assms(2))
  have ok: "binv ?p1" "binv ?p2" using assms(1) by (simp_all add: sample_binv)
  have "bm_GetTrace M (pr_buffer ?p1) tid = None"
    using sampleTrace_gone [OF assms(1), of P X tid]
    by (simp add: sampleTraceLogs_def exportLogs_def split: option.split)
  then show "bm_GetTrace M (pr_buffer (processDecision P M X d p)) tid = None"
    unfolding pd by (intro sampleLogs_buffer(2) [OF ok(2)] sampleMetrics_buffer(2) [OF ok(1)])
  show "bm_GetMetricsInRange M (pr_buffer (processDecision P M X d p)) (windowStart d) (windowEnd d) = []"
    unfolding pd by (intro sampleLogs_buffer(3) [OF ok(2)] sampleMetrics_buffer(1) [OF ok(1)])
  show "bm_GetLogsInRange M (pr_buffer (processDecision P M X d p)) (windowStart d) (windowEnd d) = []"
    unfolding pd by (rule sampleLogs_buffer(1) [OF ok(2)])
qed

lemma rollupMetrics_buffer:
  assumes "binv p" and "rollupMetrics P M X a b ms p = Inr p'"
  shows "binv p'"
    and "ms \<noteq> [] \<Longrightarrow> bm_GetMetricsInRange M (pr_buffer p') a b = []"
    and "bm_GetMetricsInRange M (pr_buffer p) a b = [] \<Longrightarrow> bm_GetMetricsInRange M (pr_buffer p') a b = []"
    and "bm_GetLogsInRange M (pr_buffer p) a b = [] \<Longrightarrow> bm_GetLogsInRange M (pr_buffer p') a b = []"
    and "pr_evictedMetrics p' = pr_evictedMetrics p" and "pr_evictedLogs p' = pr_evictedLogs p"
    and "pr_rollup p' = pr_rollup p"
  using assms
  by (auto simp: rollupMetrics_def Let_def res_bind_Inr_iff exportMetrics_def inv_RemoveMetrics
      RemoveMetrics_gone RemoveMetrics_logs split: if_splits)

lemma rollupLogs_buffer:
  assumes "binv p" and "rollupLogs P M X a b ls p = Inr p'"
  shows "binv p'"
    and "ls \<noteq> [] \<Longrightarrow> bm_GetLogsInRange M (pr_buffer p') a b = []"
    and "bm_GetLogsInRange M (pr_buffer p) a b = [] \<Longrightarrow> bm_GetLogsInRange M (pr_buffer p') a b = []"
    and "bm_GetMetricsInRange M (pr_buffer p) a b = [] \<Longrightarrow> bm_GetMetricsInRange M (pr_buffer p') a b = []"
    and "pr_evictedMetrics p' = pr_evictedMetrics p" and "pr_evictedLogs p' = pr_evictedLogs p"
  using assms
  by (auto simp: rollupLogs_def Let_def res_bind_Inr_iff exportLogs_def inv_RemoveLogs
      RemoveLogs_gone RemoveLogs_metrics split: if_splits)

lemma performRollup_phases:
  assumes "performRollup P M X now p = Inr p'"
  obtains p1 where
    "rollupMetrics P M X zeroTime (rollupEnd now)
       (bm_GetMetricsInRange M (pr_buffer p) zeroTime (rollupEnd now) @ pr_evictedMetrics p)
       (p\<lparr>pr_evictedMetrics := [], pr_evictedLogs := []\<rparr>) = Inr p1"
    "rollupLogs P M X zeroTime (rollupEnd now)
       (bm_GetLogsInRange M (pr_buffer p) zeroTime (rollupEnd now) @ pr_evictedLogs p) p1 = Inr p'"
  using assms by (auto simp: performRollup_def Let_def res_bind_Inr_iff)

lemma performRollup_clears:
  assumes "binv p" and "performRollup P M X now p = Inr p'"
  shows "binv p' \<and> pr_evictedMetrics p' = [] \<and> pr_evictedLogs p' = [] \<and>
    bm_GetMetricsInRange M (pr_buffer p') zeroTime (rollupEnd now) = [] \<and>
    bm_GetLogsInRange M (pr_buffer p') zeroTime (rollupEnd now) = []"
proof -
  let ?a = zeroTime and ?b = "rollupEnd now"
  obtain p1 where 1: "rollupMetrics P M X ?a ?b (bm_GetMetricsInRange M (pr_buffer p) ?a ?b @ pr_evictedMetrics p)
      (p\<lparr>pr_evictedMetrics := [], pr_evictedLogs := []\<rparr>) = Inr p1"
    and 2: "rollupLogs P M X ?a ?b (bm_GetLogsInRange M (pr_buffer p) ?a ?b @ pr_evictedLogs p) p1 = Inr p'"
    using performRollup_phases [OF assms(2)] .
  have "binv (p\<lparr>pr_evictedMetrics := [], pr_evictedLogs := []\<rparr>)" using assms(1) by simp
  note m = rollupMetrics_buffer [OF this 1]
  note l = rollupLogs_buffer [OF m(1) 2]
  have "bm_GetMetricsInRange M (pr_buffer p1) ?a ?b = []"
    using m(2,3) by (cases "bm_GetMetricsInRange M (pr_buffer p) ?a ?b") simp_all
  moreover have "bm_GetLogsInRange M (pr_buffer p') ?a ?b = []"
    using l(2,3) m(4) by (cases "bm_GetLogsInRange M (pr_buffer p) ?a ?b") simp_all
  ultimately show ?thesis using l m by simp
qed

end

subsection \<open>What is sent\<close>

text \<open>With a backend that is up, the handlers send the following, in this order.\<close>

locale processor_env = processor_buffer M inv + exporter X sent up
  for M :: "'s BufferManager" and inv and X :: "'x Exporter" and sent up +
  fixes P :: pdata
begin

lemma sample_up:
  "up (pr_exporter p) \<Longrightarrow> up (pr_exporter (sampleTrace P M X tid p))"
  "up (pr_exporter p) \<Longrightarrow> up (pr_exporter (sampleMetrics P M X a b p))"
  by (auto simp: sample_defs Let_def up_simps split: option.split)

lemma sampleTrace_sent:
  assumes "up (pr_exporter p)" and "bm_GetTrace M (pr_buffer p) tid = Some trace"
  shows "sent (pr_exporter (sampleTrace P M X tid p)) =
      sent (pr_exporter p) @ [OutTraces (addProcessingLabelToTraces P (ts_Traces trace))]"
  using assms by (simp add: sample_defs Let_def up_simps)

lemma sampleMetrics_sent:
  "up (pr_exporter p) \<Longrightarrow> sent (pr_exporter (sampleMetrics P M X a b p)) =
    sent (pr_exporter p) @ metricsOut P M (pr_buffer p) a b"
  by (simp add: sample_defs Let_def up_simps metricsOut_def mergeMetrics_def)

lemma sampleLogs_sent:
  "up (pr_exporter p) \<Longrightarrow> sent (pr_exporter (sampleLogs P M X a b p)) =
    sent (pr_exporter p) @ logsOut P M (pr_buffer p) a b"
  by (simp add: sample_defs Let_def up_simps logsOut_def mergeLogs_def)

lemma processDecision_sent:
  assumes "binv p" and "up (pr_exporter p)" and "decisionTraceID d = Some tid"
    and "bm_GetTrace M (pr_buffer p) tid = Some trace"
  shows "\<exists>s1 s2. s1 = bm_RemoveTrace M (pr_buffer p) tid \<and>
    (s2 = s1 \<or> s2 = bm_RemoveMetricsInRange M s1 (windowStart d) (windowEnd d)) \<and>
    sent (pr_exporter (processDecision P M X d p)) = sent (pr_exporter p) @
      [OutTraces (addProcessingLabelToTraces P (ts_Traces trace))] @
      metricsOut P M s1 (windowStart d) (windowEnd d) @ logsOut P M s2 (windowStart d) (windowEnd d)"
proof -
  let ?p1 = "sampleTrace P M X tid p"
  let ?p2 = "sampleMetrics P M X (windowStart d) (windowEnd d) ?p1"
  have pd: "processDecision P M X d p = sampleLogs P M X (windowStart d) (windowEnd d) ?p2"
    by (simp add: processDecision_def assms(3) sampleTraceLogs_after [OF assms(1,4)])
  have ok: "up (pr_exporter ?p1)" "up (pr_exporter ?p2)" using assms(2) by (simp_all add: sample_up)
  have "pr_buffer ?p2 = pr_buffer ?p1 \<or>
      pr_buffer ?p2 = bm_RemoveMetricsInRange M (pr_buffer ?p1) (windowStart d) (windowEnd d)"
    by (simp add: sampleMetrics_def exportMetrics_def Let_def)
  then show ?thesis
    unfolding pd sampleLogs_sent [OF ok(2)] sampleMetrics_sent [OF ok(1)]
      sampleTrace_sent [OF assms(2,4)] append_assoc
    using sampleTrace_buffer [OF assms(4)] by auto
qed

lemma rollupMetrics_sent:
  assumes "up (pr_exporter p)" and "rollupMetrics P M X a b ms p = Inr p'"
  shows "up (pr_exporter p') \<and> (ms = [] \<and> sent (pr_exporter p') = sent (pr_exporter p) \<or>
    (\<exists>rolled. RollupMetrics P (pr_rollup p) ms = Inr rolled \<and>
      sent (pr_exporter p') = sent (pr_exporter p) @ [OutMetrics (addProcessingLabelToMetrics P rolled)]))"
  using assms
  by (auto simp: rollupMetrics_def Let_def res_bind_Inr_iff exportMetrics_def up_simps split: if_splits)

lemma rollupLogs_sent:
  assumes "up (pr_exporter p)" and "rollupLogs P M X a b ls p = Inr p'"
  shows "ls = [] \<and> sent (pr_exporter p') = sent (pr_exporter p) \<or>
    (\<exists>rolled. RollupLogs P (pr_rollup p) ls = Inr rolled \<and>
      sent (pr_exporter p') = sent (pr_exporter p) @ [OutLogs (addProcessingLabelToLogs P rolled)])"
  using assms
  by (auto simp: rollupLogs_def Let_def res_bind_Inr_iff exportLogs_def up_simps split: if_splits)

lemma performRollup_sent:
  assumes "binv p" and "up (pr_exporter p)" and "performRollup P M X now p = Inr p'"
  defines "ms \<equiv> bm_GetMetricsInRange M (pr_buffer p) zeroTime (rollupEnd now) @ pr_evictedMetrics p"
    and "ls \<equiv> bm_GetLogsInRange M (pr_buffer p) zeroTime (rollupEnd now) @ pr_evictedLogs p"
  shows "\<exists>outM outL. sent (pr_exporter p') = sent (pr_exporter p) @ outM @ outL \<and>
    (ms = [] \<and> outM = [] \<or> (\<exists>rolled. RollupMetrics P (pr_rollup p) ms = Inr rolled \<and>
       outM = [OutMetrics (addProcessingLabelToMetrics P rolled)])) \<and>
    (ls = [] \<and> outL = [] \<or> (\<exists>rolled. RollupLogs P (pr_rollup p) ls = Inr rolled \<and>
       outL = [OutLogs (addProcessingLabelToLogs P rolled)]))"
proof -
  let ?p = "p\<lparr>pr_evictedMetrics := [], pr_evictedLogs := []\<rparr>"
  obtain p1 where 1: "rollupMetrics P M X zeroTime (rollupEnd now) ms ?p = Inr p1"
    and 2: "rollupLogs P M X zeroTime (rollupEnd now) ls p1 = Inr p'"
    using performRollup_phases [OF assms(3)] unfolding ms_def ls_def .
  have p: "binv ?p" "up (pr_exporter ?p)" using assms(1,2) by simp_all
  note m = rollupMetrics_sent [OF p(2) 1]
  from rollupLogs_sent [OF conjunct1 [OF m] 2]
  obtain outL where L: "sent (pr_exporter p') = sent (pr_exporter p1) @ outL"
    "ls = [] \<and> outL = [] \<or> (\<exists>rolled. RollupLogs P (pr_rollup p1) ls = Inr rolled \<and>
       outL = [OutLogs (addProcessingLabelToLogs P rolled)])" by auto
  from conjunct2 [OF m] obtain outM where M: "sent (pr_exporter p1) = sent (pr_exporter p) @ outM"
    "ms = [] \<and> outM = [] \<or> (\<exists>rolled. RollupMetrics P (pr_rollup p) ms = Inr rolled \<and>
       outM = [OutMetrics (addProcessingLabelToMetrics P rolled)])" by auto
  have "pr_rollup p1 = pr_rollup p" using rollupMetrics_buffer(7) [OF p(1) 1] by simp
  with L M show ?thesis by (intro exI [of _ outM] exI [of _ outL]) simp
qed

end

end
