(* ===== verification/Buffer.thy ===== *)
theory Buffer
  imports BufferSpec
begin

text \<open>
  The buffer of \<open>internal/buffer/buffer.go\<close>: signals are serialised into a BigCache, metrics
  and logs without a trace are indexed by arrival time in two B-trees with a key map each.
  The cache calls back into the buffer when it drops an entry; the callbacks of one cache
  operation are the list it returns, run on the buffer right after it.

  BigCache, the B-tree, the Protobuf marshalers and gob are the fields of the parameter
  \<open>bufenv\<close>; what their documentation promises is stated by \<open>cache_ok\<close>, \<open>btree_ok\<close> and
  \<open>codec_ok\<close>.  The choices of the run-time (clock readings, UUIDs, the iteration order of
  Go maps) are the fields of \<open>nondet\<close>.
\<close>

subsection \<open>Time keys\<close>

datatype TimeKey = TimeKey (tk_Timestamp: int64) (tk_Key: string)

fun TimeKey_Less :: "TimeKey \<Rightarrow> TimeKey \<Rightarrow> bool" where
  "TimeKey_Less (TimeKey t k) (TimeKey t' k') =
     (if t \<noteq> t' then sint t < sint t' else k < k')"

instantiation TimeKey :: linorder
begin

definition less_TimeKey :: "TimeKey \<Rightarrow> TimeKey \<Rightarrow> bool" where
  "less_TimeKey a b = TimeKey_Less a b"

definition less_eq_TimeKey :: "TimeKey \<Rightarrow> TimeKey \<Rightarrow> bool" where
  "less_eq_TimeKey a b \<longleftrightarrow> a = b \<or> TimeKey_Less a b"

instance
proof (intro_classes, goal_cases)
  case (1 x y)
  then show ?case
    by (cases x; cases y) (auto simp: less_TimeKey_def less_eq_TimeKey_def split: if_splits)
next
  case (3 x y z)
  then show ?case
    by (cases x; cases y; cases z) (auto simp: less_eq_TimeKey_def split: if_splits)
next
  case (4 x y)
  then show ?case
    by (cases x; cases y) (auto simp: less_eq_TimeKey_def split: if_splits)
next
  case (5 x y)
  obtain t k t' k' where xy: "x = TimeKey t k" "y = TimeKey t' k'" by (cases x; cases y) auto
  have "sint t = sint t' \<Longrightarrow> t = t'" by (rule signed_word_eqI)
  then have "t = t' \<or> sint t < sint t' \<or> sint t' < sint t" by linarith
  with xy show ?case by (auto simp: less_eq_TimeKey_def)
qed (simp add: less_eq_TimeKey_def)

end

subsection \<open>The environment\<close>

datatype RemoveReason = Expired | NoSpace | Deleted

type_synonym callback = "string \<times> bytes \<times> RemoveReason"

record StoredTraceData =
  st_ReceivedAt :: int64
  st_TracesData :: bytes
  st_LogsData :: bytes

record ('c, 't) bufenv =
  be_pd :: pdata
  cache_Get :: "'c \<Rightarrow> string \<Rightarrow> bytes option"
  cache_Set :: "'c \<Rightarrow> string \<Rightarrow> bytes \<Rightarrow> 'c \<times> callback list \<times> error option"
  cache_Delete :: "'c \<Rightarrow> string \<Rightarrow> 'c \<times> callback list \<times> error option"
  cache_Clean :: "'c \<Rightarrow> 'c \<times> callback list"
  cache_Len :: "'c \<Rightarrow> int"
  cache_collide :: "string \<Rightarrow> string \<Rightarrow> bool"  \<comment> \<open>equal hashes; not called by the code\<close>
  bt_ReplaceOrInsert :: "'t \<Rightarrow> TimeKey \<Rightarrow> 't"
  bt_Delete :: "'t \<Rightarrow> TimeKey \<Rightarrow> 't"
  bt_AscendRange :: "'t \<Rightarrow> TimeKey \<Rightarrow> TimeKey \<Rightarrow> TimeKey list"
  bt_items :: "'t \<Rightarrow> TimeKey list"  \<comment> \<open>all items, ascending; not called by the code\<close>
  bt_valid :: "'t \<Rightarrow> bool"  \<comment> \<open>built by the operations; not called by the code\<close>
  be_MarshalTraces :: "Traces \<Rightarrow> bytes \<times> error option"
  be_UnmarshalTraces :: "bytes \<Rightarrow> Traces \<times> error option"
  be_MarshalLogs :: "Logs \<Rightarrow> bytes \<times> error option"
  be_UnmarshalLogs :: "bytes \<Rightarrow> Logs \<times> error option"
  be_MarshalMetrics :: "Metrics \<Rightarrow> bytes \<times> error option"
  be_UnmarshalMetrics :: "bytes \<Rightarrow> Metrics \<times> error option"
  gob_Encode :: "StoredTraceData \<Rightarrow> bytes"
  gob_Decode :: "bytes \<Rightarrow> StoredTraceData \<times> error option"

text \<open>
  A clock reading for the operation, one for every cache key an operation handles on its own,
  a fresh UUID, and the order in which a Go map over trace IDs is iterated.
\<close>

record nondet =
  nd_now :: time
  nd_nowAt :: "string \<Rightarrow> time"
  nd_uuid :: string
  nd_range :: "TraceID list \<Rightarrow> TraceID list"

subsection \<open>The buffer\<close>

record ('c, 't) InMemoryBuffer =
  b_cache :: 'c
  b_evictedChan :: "Signal chan"
  b_metricTimeIndex :: 't
  b_logTimeIndex :: 't
  b_metricKeyMap :: "(string \<times> int64) list"
  b_logKeyMap :: "(string \<times> int64) list"

text \<open>
  \<open>New\<close>: an empty buffer over an empty cache and empty trees, and the size limit (in MB) the
  cache is configured with.
\<close>

definition buffer_New :: "'c \<Rightarrow> 't \<Rightarrow> ('c, 't) InMemoryBuffer" where
  "buffer_New c t = \<lparr>b_cache = c, b_evictedChan = makeChan 1000,
     b_metricTimeIndex = t, b_logTimeIndex = t, b_metricKeyMap = [], b_logKeyMap = []\<rparr>"

text \<open>\<open>Start\<close> does nothing and \<open>Stop\<close> closes the cache, by \<open>close\<close> of the library.\<close>

definition buffer_Stop :: "('c \<Rightarrow> 'c) \<Rightarrow> ('c, 't) InMemoryBuffer \<Rightarrow> ('c, 't) InMemoryBuffer" where
  "buffer_Stop close b = b\<lparr>b_cache := close (b_cache b)\<rparr>"

definition hardMaxCacheSize :: "BufferConfig \<Rightarrow> int" where
  "hardMaxCacheSize cfg = (if buf_Size cfg = 0 then 512 else buf_Size cfg)"

definition HasPrefix :: "string \<Rightarrow> string \<Rightarrow> bool" where
  "HasPrefix s p \<longleftrightarrow> take (length p) s = p"

definition isMetricKey :: "string \<Rightarrow> bool" where
  "isMetricKey k \<longleftrightarrow> HasPrefix k ''m_''"

definition isLogKey :: "string \<Rightarrow> bool" where
  "isLogKey k \<longleftrightarrow> HasPrefix k ''l_''"

definition cleanupIndex :: "('c, 't) bufenv \<Rightarrow> string \<Rightarrow> ('c, 't) InMemoryBuffer \<Rightarrow> ('c, 't) InMemoryBuffer" where
  "cleanupIndex E key b =
     (if isMetricKey key then
        (case map_of (b_metricKeyMap b) key of
           None \<Rightarrow> b
         | Some ts \<Rightarrow> b\<lparr>b_metricTimeIndex := bt_Delete E (b_metricTimeIndex b) (TimeKey ts key),
                        b_metricKeyMap := AList.delete key (b_metricKeyMap b)\<rparr>)
      else if isLogKey key then
        (case map_of (b_logKeyMap b) key of
           None \<Rightarrow> b
         | Some ts \<Rightarrow> b\<lparr>b_logTimeIndex := bt_Delete E (b_logTimeIndex b) (TimeKey ts key),
                        b_logKeyMap := AList.delete key (b_logKeyMap b)\<rparr>)
      else b)"

definition evictedSignal :: "('c, 't) bufenv \<Rightarrow> time \<Rightarrow> string \<Rightarrow> bytes \<Rightarrow> Signal option" where
  "evictedSignal E now key entry =
     (if isMetricKey key then
        (case be_UnmarshalMetrics E entry of
           (m, None) \<Rightarrow> Some (SigMetric \<lparr>ms_Metrics = m, ms_Ctx = ctxAt now\<rparr>)
         | (m, Some err) \<Rightarrow> None)
      else if isLogKey key then
        (case be_UnmarshalLogs E entry of
           (l, None) \<Rightarrow> Some (SigLog \<lparr>ls_Logs = l, ls_Ctx = ctxAt now\<rparr>)
         | (l, Some err) \<Rightarrow> None)
      else None)"

fun onCacheEvictionWithReason ::
  "('c, 't) bufenv \<Rightarrow> nondet \<Rightarrow> callback \<Rightarrow> ('c, 't) InMemoryBuffer \<Rightarrow> ('c, 't) InMemoryBuffer" where
  "onCacheEvictionWithReason E nd (key, entry, reason) b =
     (let b1 = cleanupIndex E key b in
      if reason = Expired \<or> reason = NoSpace then
        (case evictedSignal E (nd_nowAt nd key) key entry of
           None \<Rightarrow> b1
         | Some sig \<Rightarrow> b1\<lparr>b_evictedChan := trySend sig (b_evictedChan b1)\<rparr>)
      else b1)"

declare onCacheEvictionWithReason.simps [simp del]

definition withCallbacks ::
  "('c, 't) bufenv \<Rightarrow> nondet \<Rightarrow> 'c \<Rightarrow> callback list \<Rightarrow> ('c, 't) InMemoryBuffer \<Rightarrow> ('c, 't) InMemoryBuffer" where
  "withCallbacks E nd c evs b = fold (onCacheEvictionWithReason E nd) evs (b\<lparr>b_cache := c\<rparr>)"

definition cacheSet :: "('c, 't) bufenv \<Rightarrow> nondet \<Rightarrow> string \<Rightarrow> bytes \<Rightarrow>
    ('c, 't) InMemoryBuffer \<Rightarrow> ('c, 't) InMemoryBuffer \<times> error option" where
  "cacheSet E nd key data b =
     (case cache_Set E (b_cache b) key data of (c, evs, err) \<Rightarrow> (withCallbacks E nd c evs b, err))"

definition cacheDelete :: "('c, 't) bufenv \<Rightarrow> nondet \<Rightarrow> string \<Rightarrow>
    ('c, 't) InMemoryBuffer \<Rightarrow> ('c, 't) InMemoryBuffer" where
  "cacheDelete E nd key b =
     (case cache_Delete E (b_cache b) key of (c, evs, err) \<Rightarrow> withCallbacks E nd c evs b)"

text \<open>One run of the cache's background cleaning, every second.\<close>

definition cacheClean :: "('c, 't) bufenv \<Rightarrow> nondet \<Rightarrow> ('c, 't) InMemoryBuffer \<Rightarrow> ('c, 't) InMemoryBuffer" where
  "cacheClean E nd b = (case cache_Clean E (b_cache b) of (c, evs) \<Rightarrow> withCallbacks E nd c evs b)"

subsection \<open>Storing traces\<close>

definition wrapSpan :: "ResourceSpans \<Rightarrow> ScopeSpans \<Rightarrow> Span \<Rightarrow> ResourceSpans" where
  "wrapSpan rs ils span = \<lparr>rs_resource = rs_resource rs, rs_schema = [],
     rs_scopes = [\<lparr>ss_scope = ss_scope ils, ss_schema = [], ss_spans = [span]\<rparr>]\<rparr>"

definition addTo :: "TraceID \<Rightarrow> 'a \<Rightarrow> (TraceID \<times> 'a list) list \<Rightarrow> (TraceID \<times> 'a list) list" where
  "addTo tid x m =
     AList.update tid ((case map_of m tid of None \<Rightarrow> [] | Some xs \<Rightarrow> xs) @ [x]) m"

definition groupSpan :: "pdata \<Rightarrow> ResourceSpans \<Rightarrow> ScopeSpans \<Rightarrow> Span \<Rightarrow>
    (TraceID \<times> Traces) list \<Rightarrow> (TraceID \<times> Traces) list" where
  "groupSpan P rs ils span m =
     (if pd_IsEmpty P (span_traceID span) then m
      else addTo (span_traceID span) (wrapSpan rs ils span) m)"

definition groupSpans :: "pdata \<Rightarrow> Traces \<Rightarrow> (TraceID \<times> Traces) list" where
  "groupSpans P rss =
     fold (\<lambda>rs. fold (\<lambda>ils. fold (groupSpan P rs ils) (ss_spans ils)) (rs_scopes rs)) rss []"

definition loadStored :: "('c, 't) bufenv \<Rightarrow> nondet \<Rightarrow> string \<Rightarrow> ('c, 't) InMemoryBuffer \<Rightarrow> StoredTraceData" where
  "loadStored E nd key b =
     (case cache_Get E (b_cache b) key of
        Some entry \<Rightarrow> fst (gob_Decode E entry)
      | None \<Rightarrow> \<lparr>st_ReceivedAt = UnixNano (nd_nowAt nd key), st_TracesData = [], st_LogsData = []\<rparr>)"

definition mergedTraces :: "('c, 't) bufenv \<Rightarrow> StoredTraceData \<Rightarrow> Traces \<Rightarrow> Traces" where
  "mergedTraces E stored newTraces =
     (if length (st_TracesData stored) > 0
      then fst (be_UnmarshalTraces E (st_TracesData stored)) else []) @ newTraces"

definition traceEntry :: "('c, 't) bufenv \<Rightarrow> StoredTraceData \<Rightarrow> Traces \<Rightarrow> bytes" where
  "traceEntry E stored newTraces =
     (let data = fst (be_MarshalTraces E (mergedTraces E stored newTraces))
      in gob_Encode E (stored\<lparr>st_TracesData := data\<rparr>))"

definition storeTrace :: "('c, 't) bufenv \<Rightarrow> nondet \<Rightarrow> TraceID \<Rightarrow> Traces \<Rightarrow>
    ('c, 't) InMemoryBuffer \<Rightarrow> ('c, 't) InMemoryBuffer \<times> error option" where
  "storeTrace E nd tid newTraces b =
     (let key = EncodeToString tid; stored = loadStored E nd key b
      in cacheSet E nd key (traceEntry E stored newTraces) b)"

definition storeTraces :: "('c, 't) bufenv \<Rightarrow> nondet \<Rightarrow> TraceSignal \<Rightarrow>
    ('c, 't) InMemoryBuffer \<Rightarrow> ('c, 't) InMemoryBuffer \<times> error option" where
  "storeTraces E nd sig b =
     (let traceMap = groupSpans (be_pd E) (ts_Traces sig) in
      (fold (\<lambda>tid b. fst (storeTrace E nd tid (the (map_of traceMap tid)) b))
         (nd_range nd (map fst traceMap)) b, None))"

subsection \<open>Storing logs\<close>

definition wrapRecord :: "ResourceLogs \<Rightarrow> ScopeLogs \<Rightarrow> LogRecord \<Rightarrow> ResourceLogs" where
  "wrapRecord rl sl lr = \<lparr>rl_resource = rl_resource rl, rl_schema = [],
     rl_scopes = [\<lparr>sl_scope = sl_scope sl, sl_schema = [], sl_records = [lr]\<rparr>]\<rparr>"

text \<open>The logs by trace, and the logs without a trace once there is one (\<open>timeLogsInit\<close>).\<close>

type_synonym splitLogs = "(TraceID \<times> Logs) list \<times> Logs option"

definition splitRecord :: "pdata \<Rightarrow> ResourceLogs \<Rightarrow> ScopeLogs \<Rightarrow> LogRecord \<Rightarrow> splitLogs \<Rightarrow> splitLogs" where
  "splitRecord P rl sl lr st =
     (if \<not> pd_IsEmpty P (lr_traceID lr)
      then (addTo (lr_traceID lr) (wrapRecord rl sl lr) (fst st), snd st)
      else (fst st, Some ((case snd st of None \<Rightarrow> [] | Some l \<Rightarrow> l) @ [wrapRecord rl sl lr])))"

definition splitRecords :: "pdata \<Rightarrow> Logs \<Rightarrow> splitLogs" where
  "splitRecords P rls =
     fold (\<lambda>rl. fold (\<lambda>sl. fold (splitRecord P rl sl) (sl_records sl)) (rl_scopes rl)) rls ([], None)"

definition mergedLogs :: "('c, 't) bufenv \<Rightarrow> StoredTraceData \<Rightarrow> Logs \<Rightarrow> Logs" where
  "mergedLogs E stored newLogs =
     (if length (st_LogsData stored) > 0
      then fst (be_UnmarshalLogs E (st_LogsData stored)) else []) @ newLogs"

definition logsEntry :: "('c, 't) bufenv \<Rightarrow> StoredTraceData \<Rightarrow> Logs \<Rightarrow> bytes" where
  "logsEntry E stored newLogs =
     (let data = fst (be_MarshalLogs E (mergedLogs E stored newLogs))
      in gob_Encode E (stored\<lparr>st_LogsData := data\<rparr>))"

definition storeTraceLogs :: "('c, 't) bufenv \<Rightarrow> nondet \<Rightarrow> TraceID \<Rightarrow> Logs \<Rightarrow>
    ('c, 't) InMemoryBuffer \<Rightarrow> ('c, 't) InMemoryBuffer \<times> error option" where
  "storeTraceLogs E nd tid newLogs b =
     (let key = EncodeToString tid; stored = loadStored E nd key b
      in cacheSet E nd key (logsEntry E stored newLogs) b)"

definition timeLogKey :: "nondet \<Rightarrow> string" where
  "timeLogKey nd = ''l_'' @ showInt (sint (UnixNano (nd_now nd))) @ ''_'' @ nd_uuid nd"

definition storeTimeLogs :: "('c, 't) bufenv \<Rightarrow> nondet \<Rightarrow> Logs \<Rightarrow>
    ('c, 't) InMemoryBuffer \<Rightarrow> ('c, 't) InMemoryBuffer" where
  "storeTimeLogs E nd timeLogs b =
     (case be_MarshalLogs E timeLogs of
        (data, Some err) \<Rightarrow> b
      | (data, None) \<Rightarrow>
          (let ts = UnixNano (nd_now nd); key = timeLogKey nd in
           case cacheSet E nd key data b of
             (b1, Some err) \<Rightarrow> b1
           | (b1, None) \<Rightarrow> b1\<lparr>b_logKeyMap := AList.update key ts (b_logKeyMap b1),
                b_logTimeIndex := bt_ReplaceOrInsert E (b_logTimeIndex b1) (TimeKey ts key)\<rparr>))"

definition storeSplitLogs :: "('c, 't) bufenv \<Rightarrow> nondet \<Rightarrow> LogSignal \<Rightarrow>
    ('c, 't) InMemoryBuffer \<Rightarrow> ('c, 't) InMemoryBuffer \<times> error option" where
  "storeSplitLogs E nd sig b =
     (let (traceLogs, timeLogs) = splitRecords (be_pd E) (ls_Logs sig);
          b1 = fold (\<lambda>tid b. fst (storeTraceLogs E nd tid (the (map_of traceLogs tid)) b))
                 (nd_range nd (map fst traceLogs)) b
      in (case timeLogs of None \<Rightarrow> b1 | Some l \<Rightarrow> storeTimeLogs E nd l b1, None))"

subsection \<open>Storing metrics\<close>

definition metricKey :: "nondet \<Rightarrow> string" where
  "metricKey nd = ''m_'' @ showInt (sint (UnixNano (nd_now nd))) @ ''_'' @ nd_uuid nd"

definition storeMetric :: "('c, 't) bufenv \<Rightarrow> nondet \<Rightarrow> MetricSignal \<Rightarrow>
    ('c, 't) InMemoryBuffer \<Rightarrow> ('c, 't) InMemoryBuffer \<times> error option" where
  "storeMetric E nd sig b =
     (case be_MarshalMetrics E (ms_Metrics sig) of
        (data, Some err) \<Rightarrow> (b, Some err)
      | (data, None) \<Rightarrow>
          (let ts = UnixNano (nd_now nd); key = metricKey nd in
           case cacheSet E nd key data b of
             (b1, Some err) \<Rightarrow> (b1, None)
           | (b1, None) \<Rightarrow> (b1\<lparr>b_metricKeyMap := AList.update key ts (b_metricKeyMap b1),
                b_metricTimeIndex := bt_ReplaceOrInsert E (b_metricTimeIndex b1) (TimeKey ts key)\<rparr>,
                None)))"

fun Store :: "('c, 't) bufenv \<Rightarrow> nondet \<Rightarrow> Signal \<Rightarrow>
    ('c, 't) InMemoryBuffer \<Rightarrow> ('c, 't) InMemoryBuffer \<times> error option" where
  "Store E nd (SigTrace s) b = storeTraces E nd s b"
| "Store E nd (SigMetric s) b = storeMetric E nd s b"
| "Store E nd (SigLog s) b = storeSplitLogs E nd s b"
| "Store E nd (OtherSignal t c) b = (b, None)"

subsection \<open>Reading and removing\<close>

definition GetTrace :: "('c, 't) bufenv \<Rightarrow> ('c, 't) InMemoryBuffer \<Rightarrow> TraceID \<Rightarrow> TraceSignal option" where
  "GetTrace E b tid =
     (case cache_Get E (b_cache b) (EncodeToString tid) of
        None \<Rightarrow> None
      | Some entry \<Rightarrow>
          (case gob_Decode E entry of (stored, err) \<Rightarrow>
             if err \<noteq> None \<or> length (st_TracesData stored) = 0 then None
             else Some \<lparr>ts_Traces = fst (be_UnmarshalTraces E (st_TracesData stored)),
                        ts_Ctx = ctxAt (UnixNsec (st_ReceivedAt stored))\<rparr>))"

definition GetTraceLogs :: "('c, 't) bufenv \<Rightarrow> ('c, 't) InMemoryBuffer \<Rightarrow> TraceID \<Rightarrow> LogSignal option" where
  "GetTraceLogs E b tid =
     (case cache_Get E (b_cache b) (EncodeToString tid) of
        None \<Rightarrow> None
      | Some entry \<Rightarrow>
          (case gob_Decode E entry of (stored, err) \<Rightarrow>
             if err \<noteq> None \<or> length (st_LogsData stored) = 0 then None
             else Some \<lparr>ls_Logs = fst (be_UnmarshalLogs E (st_LogsData stored)),
                        ls_Ctx = ctxAt (UnixNsec (st_ReceivedAt stored))\<rparr>))"

definition GetTraceCount :: "('c, 't) bufenv \<Rightarrow> ('c, 't) InMemoryBuffer \<Rightarrow> int" where
  "GetTraceCount E b = cache_Len E (b_cache b)"

definition RemoveTrace :: "('c, 't) bufenv \<Rightarrow> nondet \<Rightarrow> ('c, 't) InMemoryBuffer \<Rightarrow> TraceID \<Rightarrow>
    ('c, 't) InMemoryBuffer" where
  "RemoveTrace E nd b tid = cacheDelete E nd (EncodeToString tid) b"

definition indexRange :: "('c, 't) bufenv \<Rightarrow> 't \<Rightarrow> time \<Rightarrow> time \<Rightarrow> TimeKey list" where
  "indexRange E t start en =
     bt_AscendRange E t (TimeKey (UnixNano start) []) (TimeKey (UnixNano en + 1) [])"

definition metricAt :: "('c, 't) bufenv \<Rightarrow> ('c, 't) InMemoryBuffer \<Rightarrow> TimeKey \<Rightarrow> MetricSignal option" where
  "metricAt E b tk =
     (case cache_Get E (b_cache b) (tk_Key tk) of
        None \<Rightarrow> None
      | Some data \<Rightarrow>
          (case be_UnmarshalMetrics E data of
             (m, None) \<Rightarrow> Some \<lparr>ms_Metrics = m, ms_Ctx = ctxAt (UnixNsec (tk_Timestamp tk))\<rparr>
           | (m, Some err) \<Rightarrow> None))"

definition logAt :: "('c, 't) bufenv \<Rightarrow> ('c, 't) InMemoryBuffer \<Rightarrow> TimeKey \<Rightarrow> LogSignal option" where
  "logAt E b tk =
     (case cache_Get E (b_cache b) (tk_Key tk) of
        None \<Rightarrow> None
      | Some data \<Rightarrow>
          (case be_UnmarshalLogs E data of
             (l, None) \<Rightarrow> Some \<lparr>ls_Logs = l, ls_Ctx = ctxAt (UnixNsec (tk_Timestamp tk))\<rparr>
           | (l, Some err) \<Rightarrow> None))"

definition GetMetricsInRange :: "('c, 't) bufenv \<Rightarrow> ('c, 't) InMemoryBuffer \<Rightarrow> time \<Rightarrow> time \<Rightarrow>
    MetricSignal list" where
  "GetMetricsInRange E b start en =
     List.map_filter (metricAt E b) (indexRange E (b_metricTimeIndex b) start en)"

definition GetLogsInRange :: "('c, 't) bufenv \<Rightarrow> ('c, 't) InMemoryBuffer \<Rightarrow> time \<Rightarrow> time \<Rightarrow>
    LogSignal list" where
  "GetLogsInRange E b start en =
     List.map_filter (logAt E b) (indexRange E (b_logTimeIndex b) start en)"

definition RemoveMetricsInRange :: "('c, 't) bufenv \<Rightarrow> nondet \<Rightarrow> ('c, 't) InMemoryBuffer \<Rightarrow>
    time \<Rightarrow> time \<Rightarrow> ('c, 't) InMemoryBuffer" where
  "RemoveMetricsInRange E nd b start en =
     fold (cacheDelete E nd) (map tk_Key (indexRange E (b_metricTimeIndex b) start en)) b"

definition RemoveLogsInRange :: "('c, 't) bufenv \<Rightarrow> nondet \<Rightarrow> ('c, 't) InMemoryBuffer \<Rightarrow>
    time \<Rightarrow> time \<Rightarrow> ('c, 't) InMemoryBuffer" where
  "RemoveLogsInRange E nd b start en =
     fold (cacheDelete E nd) (map tk_Key (indexRange E (b_logTimeIndex b) start en)) b"

text \<open>The key order of the two clearing loops is that of a Go map: any order \<open>ord\<close>.\<close>

definition ClearMetrics :: "('c, 't) bufenv \<Rightarrow> nondet \<Rightarrow> (string list \<Rightarrow> string list) \<Rightarrow>
    ('c, 't) InMemoryBuffer \<Rightarrow> ('c, 't) InMemoryBuffer" where
  "ClearMetrics E nd ord b = fold (cacheDelete E nd) (ord (map fst (b_metricKeyMap b))) b"

definition ClearLogs :: "('c, 't) bufenv \<Rightarrow> nondet \<Rightarrow> (string list \<Rightarrow> string list) \<Rightarrow>
    ('c, 't) InMemoryBuffer \<Rightarrow> ('c, 't) InMemoryBuffer" where
  "ClearLogs E nd ord b = fold (cacheDelete E nd) (ord (map fst (b_logKeyMap b))) b"

definition inMemoryManager :: "('c, 't) bufenv \<Rightarrow> nondet \<Rightarrow> ('c, 't) InMemoryBuffer BufferManager" where
  "inMemoryManager E nd = \<lparr>
     bm_GetTrace = GetTrace E, bm_GetTraceLogs = GetTraceLogs E, bm_RemoveTrace = RemoveTrace E nd,
     bm_GetTraceCount = GetTraceCount E,
     bm_GetMetricsInRange = GetMetricsInRange E, bm_GetLogsInRange = GetLogsInRange E,
     bm_RemoveMetricsInRange = RemoveMetricsInRange E nd,
     bm_RemoveLogsInRange = RemoveLogsInRange E nd\<rparr>"

subsection \<open>What the libraries promise\<close>

text \<open>
  BigCache.  A successful \<open>Set\<close> is read back by \<open>Get\<close>.  Other entries can only stay or
  vanish: they vanish when they are evicted, which is reported by a callback with their
  contents, or silently when their hash collides with that of the new key.  \<open>Delete\<close> removes
  the entry of its key, if there is one, and reports it; on an absent key it can at most hit an
  entry with a colliding hash, which is reported too.  Cleaning removes what it reports.
\<close>

definition cache_set_ok :: "('c, 't) bufenv \<Rightarrow> bool" where
  "cache_set_ok E \<longleftrightarrow> (\<forall>c k v c' evs err. cache_Set E c k v = (c', evs, err) \<longrightarrow>
     (err = None \<longrightarrow> cache_Get E c' k = Some v) \<and>
     (err \<noteq> None \<longrightarrow> cache_Get E c' k = cache_Get E c k \<or> cache_Get E c' k = None) \<and>
     (\<forall>k'. k' \<noteq> k \<longrightarrow> cache_Get E c' k' = cache_Get E c k' \<or> cache_Get E c' k' = None) \<and>
     (\<forall>k'. k' \<noteq> k \<longrightarrow> \<not> cache_collide E k k' \<longrightarrow> k' \<notin> fst ` set evs \<longrightarrow>
        cache_Get E c' k' = cache_Get E c k') \<and>
     (\<forall>k' e r. (k', e, r) \<in> set evs \<longrightarrow> k' \<noteq> k \<and> r \<noteq> Deleted \<and>
        cache_Get E c k' = Some e \<and> cache_Get E c' k' = None))"

definition cache_delete_ok :: "('c, 't) bufenv \<Rightarrow> bool" where
  "cache_delete_ok E \<longleftrightarrow> (\<forall>c k c' evs err. cache_Delete E c k = (c', evs, err) \<longrightarrow>
     (\<forall>k'. k' \<notin> fst ` set evs \<longrightarrow> cache_Get E c' k' = cache_Get E c k') \<and>
     (\<forall>k' e r. (k', e, r) \<in> set evs \<longrightarrow> r = Deleted \<and> cache_Get E c k' = Some e \<and>
        cache_Get E c' k' = None \<and> (k' = k \<or> cache_collide E k k')) \<and>
     (\<forall>e. cache_Get E c k = Some e \<longrightarrow> evs = [(k, e, Deleted)]))"

definition cache_clean_ok :: "('c, 't) bufenv \<Rightarrow> bool" where
  "cache_clean_ok E \<longleftrightarrow> (\<forall>c c' evs. cache_Clean E c = (c', evs) \<longrightarrow>
     (\<forall>k'. k' \<notin> fst ` set evs \<longrightarrow> cache_Get E c' k' = cache_Get E c k') \<and>
     (\<forall>k' e r. (k', e, r) \<in> set evs \<longrightarrow> r = Expired \<and> cache_Get E c k' = Some e \<and>
        cache_Get E c' k' = None))"

definition cache_ok :: "('c, 't) bufenv \<Rightarrow> bool" where
  "cache_ok E \<longleftrightarrow> cache_set_ok E \<and> cache_delete_ok E \<and> cache_clean_ok E"

text \<open>The B-tree: an ordered set with the order of \<open>TimeKey.Less\<close>.\<close>

definition btree_ok :: "('c, 't) bufenv \<Rightarrow> bool" where
  "btree_ok E \<longleftrightarrow> (\<forall>t. bt_valid E t \<longrightarrow>
     sorted_wrt (<) (bt_items E t) \<and>
     (\<forall>x. bt_valid E (bt_ReplaceOrInsert E t x) \<and>
        set (bt_items E (bt_ReplaceOrInsert E t x)) = insert x (set (bt_items E t))) \<and>
     (\<forall>x. bt_valid E (bt_Delete E t x) \<and>
        set (bt_items E (bt_Delete E t x)) = set (bt_items E t) - {x}) \<and>
     (\<forall>lo hi. bt_AscendRange E t lo hi = filter (\<lambda>x. lo \<le> x \<and> x < hi) (bt_items E t)))"

text \<open>
  Marshalling that succeeds is inverted by unmarshalling, and does not encode a message with
  content by the empty byte string; gob decodes what it encoded.
\<close>

definition codec_ok :: "('c, 't) bufenv \<Rightarrow> bool" where
  "codec_ok E \<longleftrightarrow>
     (\<forall>t d. be_MarshalTraces E t = (d, None) \<longrightarrow>
        be_UnmarshalTraces E d = (t, None) \<and> (t \<noteq> [] \<longrightarrow> d \<noteq> [])) \<and>
     (\<forall>l d. be_MarshalLogs E l = (d, None) \<longrightarrow>
        be_UnmarshalLogs E d = (l, None) \<and> (l \<noteq> [] \<longrightarrow> d \<noteq> [])) \<and>
     (\<forall>m d. be_MarshalMetrics E m = (d, None) \<longrightarrow> be_UnmarshalMetrics E d = (m, None)) \<and>
     (\<forall>s. gob_Decode E (gob_Encode E s) = (s, None))"

lemma cache_set_okD:
  assumes "cache_ok E" and "cache_Set E c k v = (c', evs, err)"
  shows "err = None \<Longrightarrow> cache_Get E c' k = Some v"
    and "err \<noteq> None \<Longrightarrow> cache_Get E c' k = cache_Get E c k \<or> cache_Get E c' k = None"
    and "k' \<noteq> k \<Longrightarrow> cache_Get E c' k' = cache_Get E c k' \<or> cache_Get E c' k' = None"
    and "k' \<noteq> k \<Longrightarrow> \<not> cache_collide E k k' \<Longrightarrow> k' \<notin> fst ` set evs \<Longrightarrow>
      cache_Get E c' k' = cache_Get E c k'"
    and "(k', e, r) \<in> set evs \<Longrightarrow> k' \<noteq> k \<and> r \<noteq> Deleted \<and>
      cache_Get E c k' = Some e \<and> cache_Get E c' k' = None"
proof -
  from assms(1) have "cache_set_ok E" by (simp add: cache_ok_def)
  note law = this [unfolded cache_set_ok_def, rule_format, OF assms(2)]
  show "err = None \<Longrightarrow> cache_Get E c' k = Some v"
    by (rule law [THEN conjunct1, rule_format])
  show "err \<noteq> None \<Longrightarrow> cache_Get E c' k = cache_Get E c k \<or> cache_Get E c' k = None"
    by (rule law [THEN conjunct2, THEN conjunct1, rule_format])
  show "k' \<noteq> k \<Longrightarrow> cache_Get E c' k' = cache_Get E c k' \<or> cache_Get E c' k' = None"
    by (rule law [THEN conjunct2, THEN conjunct2, THEN conjunct1, rule_format])
  show "k' \<noteq> k \<Longrightarrow> \<not> cache_collide E k k' \<Longrightarrow> k' \<notin> fst ` set evs \<Longrightarrow>
      cache_Get E c' k' = cache_Get E c k'"
    by (rule law [THEN conjunct2, THEN conjunct2, THEN conjunct2, THEN conjunct1, rule_format])
  show "(k', e, r) \<in> set evs \<Longrightarrow> k' \<noteq> k \<and> r \<noteq> Deleted \<and>
      cache_Get E c k' = Some e \<and> cache_Get E c' k' = None"
    by (rule law [THEN conjunct2, THEN conjunct2, THEN conjunct2, THEN conjunct2, rule_format])
qed

lemma cache_delete_okD:
  assumes "cache_ok E" and "cache_Delete E c k = (c', evs, err)"
  shows "k' \<notin> fst ` set evs \<Longrightarrow> cache_Get E c' k' = cache_Get E c k'"
    and "(k', e, r) \<in> set evs \<Longrightarrow> r = Deleted \<and> cache_Get E c k' = Some e \<and>
      cache_Get E c' k' = None \<and> (k' = k \<or> cache_collide E k k')"
    and "cache_Get E c k = Some e \<Longrightarrow> evs = [(k, e, Deleted)]"
  using assms unfolding cache_ok_def cache_delete_ok_def by blast+

lemma cache_clean_okD:
  assumes "cache_ok E" and "cache_Clean E c = (c', evs)"
  shows "k' \<notin> fst ` set evs \<Longrightarrow> cache_Get E c' k' = cache_Get E c k'"
    and "(k', e, r) \<in> set evs \<Longrightarrow> r = Expired \<and> cache_Get E c k' = Some e \<and> cache_Get E c' k' = None"
  using assms unfolding cache_ok_def cache_clean_ok_def by blast+

lemma btree_okD:
  assumes "btree_ok E" and "bt_valid E t"
  shows "sorted_wrt (<) (bt_items E t)"
    and "bt_valid E (bt_ReplaceOrInsert E t x)"
    and "set (bt_items E (bt_ReplaceOrInsert E t x)) = insert x (set (bt_items E t))"
    and "bt_valid E (bt_Delete E t x)"
    and "set (bt_items E (bt_Delete E t x)) = set (bt_items E t) - {x}"
    and "bt_AscendRange E t lo hi = filter (\<lambda>x. lo \<le> x \<and> x < hi) (bt_items E t)"
  using assms unfolding btree_ok_def by blast+

lemma codec_okD:
  assumes "codec_ok E"
  shows "be_MarshalTraces E t = (d, None) \<Longrightarrow> be_UnmarshalTraces E d = (t, None)"
    and "be_MarshalTraces E t = (d, None) \<Longrightarrow> t \<noteq> [] \<Longrightarrow> d \<noteq> []"
    and "be_MarshalLogs E l = (d, None) \<Longrightarrow> be_UnmarshalLogs E d = (l, None)"
    and "be_MarshalLogs E l = (d, None) \<Longrightarrow> l \<noteq> [] \<Longrightarrow> d \<noteq> []"
    and "be_MarshalMetrics E m = (d, None) \<Longrightarrow> be_UnmarshalMetrics E d = (m, None)"
    and "gob_Decode E (gob_Encode E s) = (s, None)"
  using assms unfolding codec_ok_def by blast+

subsection \<open>The invariant of the indices\<close>

text \<open>A tree and its key map hold the same entries.\<close>

definition idx_ok :: "('c, 't) bufenv \<Rightarrow> 't \<Rightarrow> (string \<times> int64) list \<Rightarrow> bool" where
  "idx_ok E t m \<longleftrightarrow> bt_valid E t \<and> distinct (map fst m) \<and>
     set (bt_items E t) = (\<lambda>(k, ts). TimeKey ts k) ` set m"

lemma idx_ok_delete:
  assumes "btree_ok E" and "idx_ok E t m" and "map_of m key = Some ts"
  shows "idx_ok E (bt_Delete E t (TimeKey ts key)) (AList.delete key m)"
proof -
  from assms(2) have t: "bt_valid E t" "distinct (map fst m)"
    "set (bt_items E t) = (\<lambda>(k, ts). TimeKey ts k) ` set m"
    by (auto simp: idx_ok_def)
  have "set (AList.delete key m) = set m - {(key, ts)}"
    using t(2) assms(3) by (auto simp: AList.delete_eq dest: eq_key_imp_eq_value)
  moreover have "(\<lambda>(k, ts). TimeKey ts k) ` (set m - {(key, ts)})
      = (\<lambda>(k, ts). TimeKey ts k) ` set m - {TimeKey ts key}"
    by (auto simp: image_iff)
  ultimately show ?thesis
    using t btree_okD [OF assms(1) t(1)] by (simp add: idx_ok_def distinct_delete)
qed

lemma idx_ok_insert:
  assumes "btree_ok E" and "idx_ok E t m" and "key \<notin> fst ` set m"
  shows "idx_ok E (bt_ReplaceOrInsert E t (TimeKey ts key)) (AList.update key ts m)"
proof -
  from assms(2) have t: "bt_valid E t" "distinct (map fst m)"
    "set (bt_items E t) = (\<lambda>(k, ts). TimeKey ts k) ` set m"
    by (auto simp: idx_ok_def)
  have "AList.update key ts m = m @ [(key, ts)]"
    using assms(3) by (simp add: update_new)
  with t assms(3) btree_okD [OF assms(1) t(1)] show ?thesis by (simp add: idx_ok_def)
qed

text \<open>
  The invariant of a buffer, with a set \<open>X\<close> of keys that may be in the cache before they are
  indexed: tree and key map agree, on both sides; the keys carry their prefix; every metric and
  log in the cache is indexed, so that it can be found and rolled up; and the channel of evicted
  signals is within its capacity.
\<close>

definition inv_except :: "('c, 't) bufenv \<Rightarrow> string set \<Rightarrow> ('c, 't) InMemoryBuffer \<Rightarrow> bool" where
  "inv_except E X b \<longleftrightarrow>
     idx_ok E (b_metricTimeIndex b) (b_metricKeyMap b) \<and>
     idx_ok E (b_logTimeIndex b) (b_logKeyMap b) \<and>
     (\<forall>k \<in> fst ` set (b_metricKeyMap b). isMetricKey k) \<and>
     (\<forall>k \<in> fst ` set (b_logKeyMap b). isLogKey k) \<and>
     (\<forall>k. k \<notin> X \<longrightarrow> cache_Get E (b_cache b) k \<noteq> None \<longrightarrow> isMetricKey k \<longrightarrow>
        k \<in> fst ` set (b_metricKeyMap b)) \<and>
     (\<forall>k. k \<notin> X \<longrightarrow> cache_Get E (b_cache b) k \<noteq> None \<longrightarrow> isLogKey k \<longrightarrow>
        k \<in> fst ` set (b_logKeyMap b)) \<and>
     chanCap (b_evictedChan b) = 1000 \<and> chan_ok (b_evictedChan b)"

abbreviation buf_inv :: "('c, 't) bufenv \<Rightarrow> ('c, 't) InMemoryBuffer \<Rightarrow> bool" where
  "buf_inv E b \<equiv> inv_except E {} b"

lemma not_both_keys: "isMetricKey k \<Longrightarrow> \<not> isLogKey k"
  by (cases k) (auto simp: isMetricKey_def isLogKey_def HasPrefix_def)

lemma b_cache_callback [simp]: "b_cache (onCacheEvictionWithReason E nd ev b) = b_cache b"
  by (cases ev) (auto simp: onCacheEvictionWithReason.simps cleanupIndex_def Let_def split: option.splits)

lemma b_cache_callbacks [simp]: "b_cache (fold (onCacheEvictionWithReason E nd) evs b) = b_cache b"
  by (induction evs arbitrary: b) auto

lemma b_cache_withCallbacks [simp]: "b_cache (withCallbacks E nd c evs b) = c"
  by (simp add: withCallbacks_def)

lemma fst_set_delete: "fst ` set (AList.delete k m) = fst ` set m - {k}"
  by (auto simp: AList.delete_eq)

lemma set_delete_mem: "x \<in> set (AList.delete k m) \<Longrightarrow> x \<in> set m"
  by (simp add: AList.delete_eq)

lemma cleanupIndex_inv:
  assumes "btree_ok E" and "inv_except E X b" and "cache_Get E (b_cache b) key = None"
  shows "inv_except E X (cleanupIndex E key b)"
proof (cases "isMetricKey key")
  case True
  with assms not_both_keys [OF True] show ?thesis
    by (auto simp: cleanupIndex_def inv_except_def idx_ok_delete fst_set_delete
        split: option.splits dest: set_delete_mem)
next
  case False
  with assms show ?thesis
    by (auto simp: cleanupIndex_def inv_except_def idx_ok_delete fst_set_delete
        split: option.splits dest: set_delete_mem)
qed

lemma callback_inv:
  assumes "btree_ok E" and "inv_except E X b" and "cache_Get E (b_cache b) (fst ev) = None"
  shows "inv_except E X (onCacheEvictionWithReason E nd ev b)"
proof -
  obtain key entry reason where ev: "ev = (key, entry, reason)" by (cases ev)
  with assms have "inv_except E X (cleanupIndex E key b)" by (simp add: cleanupIndex_inv)
  then show ?thesis
    by (auto simp: ev onCacheEvictionWithReason.simps Let_def inv_except_def chan.send_inv
        split: option.splits)
qed

lemma withCallbacks_inv:
  assumes "btree_ok E" and "inv_except E X (b\<lparr>b_cache := c\<rparr>)"
    and "\<forall>ev \<in> set evs. cache_Get E c (fst ev) = None"
  shows "inv_except E X (withCallbacks E nd c evs b)"
proof -
  have "b_cache b' = c \<Longrightarrow> inv_except E X b' \<Longrightarrow>
      inv_except E X (fold (onCacheEvictionWithReason E nd) evs b')" for b'
    using assms(3) by (induction evs arbitrary: b') (auto simp: callback_inv [OF assms(1)])
  with assms(2) show ?thesis by (simp add: withCallbacks_def)
qed

definition shrinks :: "('c, 't) bufenv \<Rightarrow> 'c \<Rightarrow> 'c \<Rightarrow> bool" where
  "shrinks E c c' \<longleftrightarrow> (\<forall>k. cache_Get E c' k = cache_Get E c k \<or> cache_Get E c' k = None)"

lemma inv_shrink: "inv_except E X b \<Longrightarrow> shrinks E (b_cache b) c \<Longrightarrow> inv_except E X (b\<lparr>b_cache := c\<rparr>)"
proof -
  assume inv: "inv_except E X b" and shr: "shrinks E (b_cache b) c"
  have "cache_Get E (b_cache b) k \<noteq> None" if "cache_Get E c k \<noteq> None" for k
    using shr that unfolding shrinks_def by metis
  then show ?thesis using inv unfolding inv_except_def by (simp del: not_None_eq)
qed

lemma shrinks_refl [simp]: "shrinks E c c"
  by (simp add: shrinks_def)

lemma shrinks_trans: "shrinks E a b \<Longrightarrow> shrinks E b c \<Longrightarrow> shrinks E a c"
  unfolding shrinks_def by metis

lemma cacheSet_inv:
  assumes "cache_ok E" and "btree_ok E" and "buf_inv E b" and "cacheSet E nd k v b = (b', err)"
  shows "inv_except E {k} b'" and "err \<noteq> None \<Longrightarrow> buf_inv E b'"
    and "\<not> isMetricKey k \<Longrightarrow> \<not> isLogKey k \<Longrightarrow> buf_inv E b'"
proof -
  obtain c evs where set: "cache_Set E (b_cache b) k v = (c, evs, err)"
    and b': "b' = withCallbacks E nd c evs b"
    using assms(4) by (auto simp: cacheSet_def split: prod.splits)
  note laws = cache_set_okD [OF assms(1) set]
  have gone: "\<forall>ev \<in> set evs. cache_Get E c (fst ev) = None" using laws(5) by auto
  have other: "cache_Get E c k' \<noteq> None \<Longrightarrow> k' \<noteq> k \<Longrightarrow> cache_Get E (b_cache b) k' \<noteq> None" for k'
    using laws(3) [of k'] by auto
  have "inv_except E {k} (b\<lparr>b_cache := c\<rparr>)"
    using assms(3) other unfolding inv_except_def by auto
  then show ex: "inv_except E {k} b'"
    unfolding b' by (rule withCallbacks_inv [OF assms(2) _ gone])
  show "err \<noteq> None \<Longrightarrow> buf_inv E b'"
  proof -
    assume "err \<noteq> None"
    with laws(2,3) have "shrinks E (b_cache b) c" unfolding shrinks_def by metis
    then show "buf_inv E b'"
      unfolding b' by (intro withCallbacks_inv [OF assms(2) _ gone] inv_shrink [OF assms(3)])
  qed
  show "\<not> isMetricKey k \<Longrightarrow> \<not> isLogKey k \<Longrightarrow> buf_inv E b'"
    using ex unfolding inv_except_def by auto
qed

lemma cacheDelete_cache:
  assumes "cache_ok E"
  shows "shrinks E (b_cache b) (b_cache (cacheDelete E nd k b))"
    and "cache_Get E (b_cache (cacheDelete E nd k b)) k = None"
proof -
  obtain c evs err where del: "cache_Delete E (b_cache b) k = (c, evs, err)"
    by (metis prod_cases3)
  note laws = cache_delete_okD [OF assms del]
  have c: "b_cache (cacheDelete E nd k b) = c" by (simp add: cacheDelete_def del)
  show "shrinks E (b_cache b) (b_cache (cacheDelete E nd k b))"
    unfolding shrinks_def c
  proof
    fix k'
    show "cache_Get E c k' = cache_Get E (b_cache b) k' \<or> cache_Get E c k' = None"
      using laws(1) [of k'] laws(2) [of k'] by (cases "k' \<in> fst ` set evs") auto
  qed
  show "cache_Get E (b_cache (cacheDelete E nd k b)) k = None"
  proof (cases "cache_Get E (b_cache b) k")
    case None
    with laws(2) [of k] have "k \<notin> fst ` set evs" by force
    with None show ?thesis using laws(1) [of k] c by simp
  next
    case (Some e)
    then show ?thesis using laws(2) [of k e Deleted] laws(3) [of e] c by simp
  qed
qed

lemma cacheDelete_inv:
  assumes "cache_ok E" and "btree_ok E" and "inv_except E X b"
  shows "inv_except E X (cacheDelete E nd k b)"
proof -
  obtain c evs err where del: "cache_Delete E (b_cache b) k = (c, evs, err)"
    by (metis prod_cases3)
  have "shrinks E (b_cache b) c"
    using cacheDelete_cache(1) [OF assms(1), of b nd k] by (simp add: cacheDelete_def del)
  then have "inv_except E X (b\<lparr>b_cache := c\<rparr>)" by (rule inv_shrink [OF assms(3)])
  moreover have "\<forall>ev \<in> set evs. cache_Get E c (fst ev) = None"
    using cache_delete_okD(2) [OF assms(1) del] by auto
  ultimately show ?thesis by (simp add: cacheDelete_def del withCallbacks_inv [OF assms(2)])
qed

lemma cacheDeletes:
  assumes "cache_ok E" and "btree_ok E" and "inv_except E X b"
  shows "inv_except E X (fold (cacheDelete E nd) ks b)"
    and "shrinks E (b_cache b) (b_cache (fold (cacheDelete E nd) ks b))"
    and "k \<in> set ks \<Longrightarrow> cache_Get E (b_cache (fold (cacheDelete E nd) ks b)) k = None"
proof -
  show "inv_except E X (fold (cacheDelete E nd) ks b)"
    using assms by (intro fold_inv [where Q = "inv_except E X"] cacheDelete_inv)
  show shr: "shrinks E (b_cache b) (b_cache (fold (cacheDelete E nd) ks b))" for ks b
    by (induction ks arbitrary: b)
       (auto intro: shrinks_trans [OF cacheDelete_cache(1) [OF assms(1)]])
  show "k \<in> set ks \<Longrightarrow> cache_Get E (b_cache (fold (cacheDelete E nd) ks b)) k = None"
  proof (induction ks arbitrary: b)
    case (Cons a ks)
    have "cache_Get E (b_cache (fold (cacheDelete E nd) ks (cacheDelete E nd a b))) a = None"
      using shr [of "cacheDelete E nd a b" ks] cacheDelete_cache(2) [OF assms(1), of nd a b]
      unfolding shrinks_def by metis
    with Cons show ?case by auto
  qed simp
qed

subsection \<open>Every operation keeps the invariant\<close>

lemma hex_not_indexed: "\<not> isMetricKey (EncodeToString t)" "\<not> isLogKey (EncodeToString t)"
proof -
  have "isMetricKey k \<Longrightarrow> CHR ''m'' \<in> set k" "isLogKey k \<Longrightarrow> CHR ''l'' \<in> set k" for k
    by (cases k; simp add: isMetricKey_def isLogKey_def HasPrefix_def)+
  moreover have "CHR ''m'' \<notin> set (EncodeToString t)" "CHR ''l'' \<notin> set (EncodeToString t)"
    using set_EncodeToString [of t] by (auto simp: hexDigits_def)
  ultimately show "\<not> isMetricKey (EncodeToString t)" "\<not> isLogKey (EncodeToString t)" by blast+
qed

lemma own_keys: "isMetricKey (metricKey nd)" "isLogKey (timeLogKey nd)"
  by (simp_all add: isMetricKey_def isLogKey_def HasPrefix_def metricKey_def timeLogKey_def)

text \<open>
  The UUID of an operation is fresh: its key is not indexed yet.  And a Go map is iterated over its
  keys, each once, in any order.
\<close>

definition range_ok :: "nondet \<Rightarrow> bool" where
  "range_ok nd \<longleftrightarrow> (\<forall>xs. distinct xs \<longrightarrow> distinct (nd_range nd xs) \<and> set (nd_range nd xs) = set xs)"

definition fresh :: "nondet \<Rightarrow> ('c, 't) InMemoryBuffer \<Rightarrow> bool" where
  "fresh nd b \<longleftrightarrow> metricKey nd \<notin> fst ` set (b_metricKeyMap b) \<and>
     timeLogKey nd \<notin> fst ` set (b_logKeyMap b) \<and> range_ok nd"

lemma fresh_range: "fresh nd b \<Longrightarrow> range_ok nd"
  by (simp add: fresh_def)

lemma fresh_callback: "fresh nd' b \<Longrightarrow> fresh nd' (onCacheEvictionWithReason E nd ev b)"
  by (cases ev)
     (auto simp: fresh_def onCacheEvictionWithReason.simps cleanupIndex_def Let_def fst_set_delete
       split: option.splits dest: set_delete_mem)

lemma fresh_withCallbacks: "fresh nd' b \<Longrightarrow> fresh nd' (withCallbacks E nd c evs b)"
proof -
  assume "fresh nd' b"
  then have "fresh nd' (b\<lparr>b_cache := c\<rparr>)" by (simp add: fresh_def)
  then show ?thesis
    unfolding withCallbacks_def by (rule fold_inv [where Q = "fresh nd'"]) (rule fresh_callback)
qed

lemma fresh_cacheSet: "fresh nd' b \<Longrightarrow> fresh nd' (fst (cacheSet E nd k v b))"
  by (simp add: cacheSet_def fresh_withCallbacks split: prod.splits)

lemma inv_insert_metric:
  assumes "btree_ok E" and "inv_except E {key} b" and "isMetricKey key"
    and "key \<notin> fst ` set (b_metricKeyMap b)"
  shows "buf_inv E (b\<lparr>b_metricKeyMap := AList.update key ts (b_metricKeyMap b),
    b_metricTimeIndex := bt_ReplaceOrInsert E (b_metricTimeIndex b) (TimeKey ts key)\<rparr>)"
  using assms idx_ok_insert [OF assms(1) _ assms(4), of "b_metricTimeIndex b" ts] not_both_keys [OF assms(3)]
  by (auto simp: inv_except_def update_new)

lemma inv_insert_log:
  assumes "btree_ok E" and "inv_except E {key} b" and "isLogKey key"
    and "key \<notin> fst ` set (b_logKeyMap b)"
  shows "buf_inv E (b\<lparr>b_logKeyMap := AList.update key ts (b_logKeyMap b),
    b_logTimeIndex := bt_ReplaceOrInsert E (b_logTimeIndex b) (TimeKey ts key)\<rparr>)"
proof -
  have "\<not> isMetricKey key" using assms(3) not_both_keys by blast
  with assms idx_ok_insert [OF assms(1) _ assms(4), of "b_logTimeIndex b" ts] show ?thesis
    by (auto simp: inv_except_def update_new)
qed

lemma cacheSet_hex_inv:
  assumes "cache_ok E" and "btree_ok E" and "buf_inv E b"
  shows "buf_inv E (fst (cacheSet E nd (EncodeToString tid) v b))"
  using cacheSet_inv(3) [OF assms, of nd "EncodeToString tid" v] hex_not_indexed
  by (cases "cacheSet E nd (EncodeToString tid) v b") simp

lemma storeTrace_inv:
  "cache_ok E \<Longrightarrow> btree_ok E \<Longrightarrow> buf_inv E b \<Longrightarrow> buf_inv E (fst (storeTrace E nd tid new b))"
  by (simp add: storeTrace_def Let_def cacheSet_hex_inv)

lemma storeTraceLogs_inv:
  "cache_ok E \<Longrightarrow> btree_ok E \<Longrightarrow> buf_inv E b \<Longrightarrow> buf_inv E (fst (storeTraceLogs E nd tid new b))"
  by (simp add: storeTraceLogs_def Let_def cacheSet_hex_inv)

lemma fresh_storeTraceLogs: "fresh nd' b \<Longrightarrow> fresh nd' (fst (storeTraceLogs E nd tid new b))"
  by (simp add: storeTraceLogs_def Let_def fresh_cacheSet)

lemma storeTraces_inv:
  assumes "cache_ok E" and "btree_ok E" and "buf_inv E b"
  shows "buf_inv E (fst (storeTraces E nd sig b))"
  unfolding storeTraces_def Let_def fst_conv
  by (rule fold_inv [where Q = "buf_inv E"]) (use assms storeTrace_inv in blast)+

lemma storeMetric_inv:
  assumes "cache_ok E" and "btree_ok E" and "buf_inv E b" and "fresh nd b"
  shows "buf_inv E (fst (storeMetric E nd sig b))"
proof -
  obtain data err where m: "be_MarshalMetrics E (ms_Metrics sig) = (data, err)" by fastforce
  obtain b1 r where b1: "cacheSet E nd (metricKey nd) data b = (b1, r)" by fastforce
  have "fresh nd b1" using fresh_cacheSet [OF assms(4), of E nd "metricKey nd" data] b1 by simp
  then have "buf_inv E (b1\<lparr>b_metricKeyMap := AList.update (metricKey nd) (UnixNano (nd_now nd)) (b_metricKeyMap b1),
      b_metricTimeIndex := bt_ReplaceOrInsert E (b_metricTimeIndex b1)
        (TimeKey (UnixNano (nd_now nd)) (metricKey nd))\<rparr>)"
    by (intro inv_insert_metric [OF assms(2) cacheSet_inv(1) [OF assms(1-3) b1] own_keys(1)])
       (simp add: fresh_def)
  with assms(3) m b1 cacheSet_inv(2) [OF assms(1-3) b1] show ?thesis
    by (auto simp: storeMetric_def Let_def split: option.splits)
qed

lemma storeTimeLogs_inv:
  assumes "cache_ok E" and "btree_ok E" and "buf_inv E b" and "fresh nd b"
  shows "buf_inv E (storeTimeLogs E nd l b)"
proof -
  obtain data err where m: "be_MarshalLogs E l = (data, err)" by fastforce
  obtain b1 r where b1: "cacheSet E nd (timeLogKey nd) data b = (b1, r)" by fastforce
  have "fresh nd b1" using fresh_cacheSet [OF assms(4), of E nd "timeLogKey nd" data] b1 by simp
  then have "buf_inv E (b1\<lparr>b_logKeyMap := AList.update (timeLogKey nd) (UnixNano (nd_now nd)) (b_logKeyMap b1),
      b_logTimeIndex := bt_ReplaceOrInsert E (b_logTimeIndex b1)
        (TimeKey (UnixNano (nd_now nd)) (timeLogKey nd))\<rparr>)"
    by (intro inv_insert_log [OF assms(2) cacheSet_inv(1) [OF assms(1-3) b1] own_keys(2)])
       (simp add: fresh_def)
  with assms(3) m b1 cacheSet_inv(2) [OF assms(1-3) b1] show ?thesis
    by (auto simp: storeTimeLogs_def Let_def split: option.splits)
qed

lemma storeSplitLogs_inv:
  assumes "cache_ok E" and "btree_ok E" and "buf_inv E b" and "fresh nd b"
  shows "buf_inv E (fst (storeSplitLogs E nd sig b))"
proof -
  obtain tl l where split: "splitRecords (be_pd E) (ls_Logs sig) = (tl, l)" by fastforce
  let ?b1 = "fold (\<lambda>tid b. fst (storeTraceLogs E nd tid (the (map_of tl tid)) b))
               (nd_range nd (map fst tl)) b"
  have "buf_inv E ?b1 \<and> fresh nd ?b1"
    by (rule fold_inv [where Q = "\<lambda>b. buf_inv E b \<and> fresh nd b"])
       (use assms storeTraceLogs_inv fresh_storeTraceLogs in blast)+
  then show ?thesis
    using storeTimeLogs_inv [OF assms(1,2)]
    by (auto simp: storeSplitLogs_def split Let_def split: option.splits)
qed

lemma Store_inv:
  assumes "cache_ok E" and "btree_ok E" and "buf_inv E b" and "fresh nd b"
  shows "buf_inv E (fst (Store E nd sig b))"
  using assms storeTraces_inv storeMetric_inv storeSplitLogs_inv by (cases sig) auto

lemma cacheClean_inv:
  assumes "cache_ok E" and "btree_ok E" and "buf_inv E b"
  shows "buf_inv E (cacheClean E nd b)"
proof -
  obtain c evs where cl: "cache_Clean E (b_cache b) = (c, evs)" by fastforce
  note laws = cache_clean_okD [OF assms(1) cl]
  have "shrinks E (b_cache b) c"
    unfolding shrinks_def
  proof
    fix k
    show "cache_Get E c k = cache_Get E (b_cache b) k \<or> cache_Get E c k = None"
      using laws(1) [of k] laws(2) [of k] by (cases "k \<in> fst ` set evs") auto
  qed
  then have "buf_inv E (b\<lparr>b_cache := c\<rparr>)" by (rule inv_shrink [OF assms(3)])
  moreover have "\<forall>ev \<in> set evs. cache_Get E c (fst ev) = None" using laws(2) by auto
  ultimately show ?thesis by (simp add: cacheClean_def cl withCallbacks_inv [OF assms(2)])
qed

lemma RemoveTrace_inv:
  "cache_ok E \<Longrightarrow> btree_ok E \<Longrightarrow> buf_inv E b \<Longrightarrow> buf_inv E (RemoveTrace E nd b tid)"
  by (simp add: RemoveTrace_def cacheDelete_inv)

lemma RemoveInRange_inv:
  assumes "cache_ok E" and "btree_ok E" and "buf_inv E b"
  shows "buf_inv E (RemoveMetricsInRange E nd b s e)" and "buf_inv E (RemoveLogsInRange E nd b s e)"
    and "buf_inv E (ClearMetrics E nd ord b)" and "buf_inv E (ClearLogs E nd ord b)"
  by (simp_all add: RemoveMetricsInRange_def RemoveLogsInRange_def ClearMetrics_def ClearLogs_def
        cacheDeletes(1) [OF assms])

subsection \<open>Time ranges\<close>

definition in_window :: "time \<Rightarrow> time \<Rightarrow> TimeKey \<Rightarrow> bool" where
  "in_window s e tk \<longleftrightarrow> sint (UnixNano s) \<le> sint (tk_Timestamp tk) \<and>
     sint (tk_Timestamp tk) \<le> sint (UnixNano e)"

lemma TimeKey_bounds:
  "TimeKey lo [] \<le> tk \<longleftrightarrow> sint lo \<le> sint (tk_Timestamp tk)"
  "tk < TimeKey hi [] \<longleftrightarrow> sint (tk_Timestamp tk) < sint hi"
proof -
  obtain t k where tk: "tk = TimeKey t k" by (cases tk)
  have "sint lo = sint t \<Longrightarrow> lo = t" by (rule signed_word_eqI)
  then have "sint lo \<le> sint t \<longleftrightarrow> lo = t \<or> sint lo < sint t" by (auto simp: order_le_less)
  then show "TimeKey lo [] \<le> tk \<longleftrightarrow> sint lo \<le> sint (tk_Timestamp tk)"
    by (cases k) (auto simp: tk less_eq_TimeKey_def)
  show "tk < TimeKey hi [] \<longleftrightarrow> sint (tk_Timestamp tk) < sint hi"
    by (auto simp: tk less_TimeKey_def)
qed

lemma sint_plus_1:
  assumes "(w :: int64) \<noteq> 2 ^ 63 - 1"
  shows "sint (w + 1) = sint w + 1"
proof -
  have "sint w \<noteq> 2 ^ 63 - 1"
  proof
    assume "sint w = 2 ^ 63 - 1"
    then have "sint w = sint (2 ^ 63 - 1 :: int64)" by simp
    then have "w = 2 ^ 63 - 1" by (rule signed_word_eqI)
    with assms show False by simp
  qed
  then have "sint (word_of_int (sint w + 1) :: int64) = sint w + 1"
    using sint_range_64 [of w] by (intro sint_word_of_int_64) auto
  then show ?thesis by simp
qed

lemma indexRange_window:
  assumes "btree_ok E" and "bt_valid E t" and "UnixNano e \<noteq> 2 ^ 63 - 1"
  shows "indexRange E t s e = filter (in_window s e) (bt_items E t)"
  unfolding indexRange_def btree_okD(6) [OF assms(1,2)]
  by (rule filter_cong) (auto simp: TimeKey_bounds sint_plus_1 [OF assms(3)] in_window_def)

end
