(* ===== verification/BufferExample.thy ===== *)
theory BufferExample
  imports BufferCorrect
begin

text \<open>
  Concrete libraries for the buffer, which satisfy every law the buffer relies on: a cache that
  holds a fixed number of entries and evicts the oldest, an ordered list for the B-tree,
  marshalers that encode a message by its position in a table, and an encoding for gob.
  Concrete evaluations of the buffer use them.
\<close>

type_synonym listCache = "(string \<times> bytes) list"
type_synonym exampleBuffer = "(listCache, TimeKey list) InMemoryBuffer"
type_synonym exampleEnv = "(listCache, TimeKey list) bufenv"

subsection \<open>The cache and the tree\<close>

definition cacheSet_example :: "nat \<Rightarrow> listCache \<Rightarrow> string \<Rightarrow> bytes \<Rightarrow> listCache \<times> callback list \<times> error option" where
  "cacheSet_example cap c k v =
     (case c of
        (k0, e0) # _ \<Rightarrow>
          if cap \<le> length c \<and> map_of c k = None
          then (AList.update k v (AList.delete k0 c), [(k0, e0, NoSpace)], None)
          else (AList.update k v c, [], None)
      | [] \<Rightarrow> ([(k, v)], [], None))"

definition cacheDelete_example :: "listCache \<Rightarrow> string \<Rightarrow> listCache \<times> callback list \<times> error option" where
  "cacheDelete_example c k =
     (case map_of c k of
        None \<Rightarrow> (c, [], Some ''Entry not found'')
      | Some e \<Rightarrow> (AList.delete k c, [(k, e, Deleted)], None))"

definition cacheClean_example :: "listCache \<Rightarrow> listCache \<times> callback list" where
  "cacheClean_example c = ([], map (\<lambda>k. (k, the (map_of c k), Expired)) (remdups (map fst c)))"

subsection \<open>The encodings\<close>

fun position :: "'a \<Rightarrow> 'a list \<Rightarrow> nat option" where
  "position x [] = None"
| "position x (y # ys) = (if x = y then Some 0 else map_option Suc (position x ys))"

definition tableMarshal :: "'a list \<Rightarrow> 'a \<Rightarrow> bytes \<times> error option" where
  "tableMarshal tbl x =
     (case position x tbl of
        None \<Rightarrow> ([], Some ''marshal'')
      | Some i \<Rightarrow> if i < 255 then ([of_nat (Suc i)], None) else ([], Some ''marshal''))"

definition tableUnmarshal :: "'a list \<Rightarrow> 'a \<Rightarrow> bytes \<Rightarrow> 'a \<times> error option" where
  "tableUnmarshal tbl z d =
     (case d of
        [w] \<Rightarrow> if 0 < unat w \<and> unat w \<le> length tbl then (tbl ! (unat w - 1), None) else (z, Some ''unmarshal'')
      | _ \<Rightarrow> (z, Some ''unmarshal''))"

lemma position_Some: "position x tbl = Some i \<Longrightarrow> i < length tbl \<and> tbl ! i = x"
proof (induction tbl arbitrary: i)
  case (Cons y ys)
  then show ?case by (cases "position x ys") (auto split: if_splits)
qed simp

lemma table_roundtrip:
  assumes "tableMarshal tbl x = (d, None)"
  shows "tableUnmarshal tbl z d = (x, None)" and "d \<noteq> []"
proof -
  obtain i where i: "position x tbl = Some i" "i < 255" "d = [of_nat (Suc i)]"
    using assms by (auto simp: tableMarshal_def split: option.splits if_splits)
  have "unat (of_nat (Suc i) :: 8 word) = Suc i"
    using i(2) by (simp add: unat_of_nat take_bit_nat_eq_self del: of_nat_Suc)
  then show "tableUnmarshal tbl z d = (x, None)"
    using position_Some [OF i(1)] by (simp add: tableUnmarshal_def i(3))
  show "d \<noteq> []" by (simp add: i(3))
qed

definition int64_bytes :: "int64 \<Rightarrow> bytes" where
  "int64_bytes w = map (\<lambda>i. if bit w i then 1 else 0) [0..<64]"

definition bytes_int64 :: "bytes \<Rightarrow> int64" where
  "bytes_int64 bs = horner_sum of_bool 2 (map (\<lambda>b. b = 1) bs)"

lemma bytes_int64_roundtrip: "bytes_int64 (int64_bytes w) = w"
proof -
  have "map (\<lambda>b. b = 1) (int64_bytes w) = map (bit w) [0..<64]"
    by (simp add: int64_bytes_def)
  then have "bytes_int64 (int64_bytes w) = take_bit 64 w"
    by (simp only: bytes_int64_def horner_sum_bit_eq_take_bit)
  then show ?thesis by (simp add: take_bit_word_eq_self)
qed

definition gobEncode_example :: "StoredTraceData \<Rightarrow> bytes" where
  "gobEncode_example s = int64_bytes (st_ReceivedAt s) @
     replicate (length (st_TracesData s)) 1 @ 0 # st_TracesData s @ st_LogsData s"

definition gobDecode_example :: "bytes \<Rightarrow> StoredTraceData \<times> error option" where
  "gobDecode_example bs =
     (let rest = drop 64 bs; n = length (takeWhile (\<lambda>b. b = 1) rest); body = drop (Suc n) rest in
      (\<lparr>st_ReceivedAt = bytes_int64 (take 64 bs), st_TracesData = take n body, st_LogsData = drop n body\<rparr>,
       None))"

lemma gob_roundtrip: "gobDecode_example (gobEncode_example s) = (s, None)"
proof -
  have len: "length (int64_bytes w) = 64" for w by (simp add: int64_bytes_def)
  have "takeWhile (\<lambda>b. b = 1) (replicate n 1 @ 0 # xs) = replicate n (1 :: 8 word)" for n xs
    by (induction n) auto
  then show ?thesis
    by (simp add: gobDecode_example_def gobEncode_example_def len bytes_int64_roundtrip)
qed

subsection \<open>The environment\<close>

definition buf_example :: "nat \<Rightarrow> Traces list \<Rightarrow> Logs list \<Rightarrow> Metrics list \<Rightarrow> exampleEnv" where
  "buf_example cap tt lt mt = \<lparr>
     be_pd = pdata_example,
     cache_Get = map_of,
     cache_Set = cacheSet_example cap,
     cache_Delete = cacheDelete_example,
     cache_Clean = cacheClean_example,
     cache_Len = (\<lambda>c. int (length c)),
     cache_collide = (=),
     bt_ReplaceOrInsert = (\<lambda>t x. insort_insert x t),
     bt_Delete = (\<lambda>t x. removeAll x t),
     bt_AscendRange = (\<lambda>t lo hi. filter (\<lambda>x. lo \<le> x \<and> x < hi) t),
     bt_items = (\<lambda>t. t),
     bt_valid = (\<lambda>t. sorted t \<and> distinct t),
     be_MarshalTraces = tableMarshal tt,
     be_UnmarshalTraces = tableUnmarshal tt [],
     be_MarshalLogs = tableMarshal lt,
     be_UnmarshalLogs = tableUnmarshal lt [],
     be_MarshalMetrics = tableMarshal mt,
     be_UnmarshalMetrics = tableUnmarshal mt [],
     gob_Encode = gobEncode_example,
     gob_Decode = gobDecode_example\<rparr>"

definition nd_example :: "time \<Rightarrow> string \<Rightarrow> nondet" where
  "nd_example t u = \<lparr>nd_now = t, nd_nowAt = (\<lambda>_. t), nd_uuid = u, nd_range = (\<lambda>xs. xs)\<rparr>"

abbreviation empty_buffer :: exampleBuffer where
  "empty_buffer \<equiv> buffer_New [] []"

lemma buf_example_set_ok: "cache_set_ok (buf_example cap tt lt mt)"
  unfolding cache_set_ok_def
  by (auto simp: buf_example_def cacheSet_example_def update_conv' delete_conv'
      split: list.splits if_splits)

lemma buf_example_cache_ok: "cache_ok (buf_example cap tt lt mt)"
  unfolding cache_ok_def
proof (intro conjI)
  show "cache_delete_ok (buf_example cap tt lt mt)"
    unfolding cache_delete_ok_def
    by (auto simp: buf_example_def cacheDelete_example_def delete_conv' split: option.splits)
  show "cache_clean_ok (buf_example cap tt lt mt)"
    unfolding cache_clean_ok_def
  proof (intro allI impI conjI)
    fix c c' :: listCache and evs k' e r
    assume "cache_Clean (buf_example cap tt lt mt) c = (c', evs)"
    then have c': "c' = []" "evs = map (\<lambda>k. (k, the (map_of c k), Expired)) (remdups (map fst c))"
      by (simp_all add: buf_example_def cacheClean_example_def)
    have keys: "fst ` set evs = fst ` set c" by (simp add: c' image_image)
    show "cache_Get (buf_example cap tt lt mt) c' k' = cache_Get (buf_example cap tt lt mt) c k'"
      if "k' \<notin> fst ` set evs"
    proof -
      have "map_of c k' = None" using that keys by (metis map_of_eq_None_iff)
      then show ?thesis by (simp add: buf_example_def c')
    qed
    assume ev: "(k', e, r) \<in> set evs"
    then have "k' \<in> fst ` set evs" by force
    then obtain v where "map_of c k' = Some v"
      unfolding keys by (metis map_of_eq_None_iff option.exhaust)
    with ev show "r = Expired" "cache_Get (buf_example cap tt lt mt) c k' = Some e"
      "cache_Get (buf_example cap tt lt mt) c' k' = None"
      by (auto simp: c' buf_example_def)
  qed
qed (rule buf_example_set_ok)

lemma buf_example_btree_ok: "btree_ok (buf_example cap tt lt mt)"
  by (auto simp: btree_ok_def buf_example_def sorted_insort_insert distinct_insort_insert
      set_insort_insert removeAll_filter_not_eq strict_sorted_iff sorted_wrt_filter)

lemma buf_example_codec_ok: "codec_ok (buf_example cap tt lt mt)"
  unfolding codec_ok_def by (auto simp: buf_example_def gob_roundtrip table_roundtrip)

lemma buf_example_collide: "cache_collide (buf_example cap tt lt mt) = (=)"
  by (simp add: buf_example_def)

lemma nd_example_range_ok: "range_ok (nd_example t u)"
  by (simp add: range_ok_def nd_example_def)

lemmas buf_example_laws = buf_example_cache_ok buf_example_btree_ok buf_example_codec_ok
  nd_example_range_ok

lemma buffer_New_inv:
  "bt_valid E t \<Longrightarrow> bt_items E t = [] \<Longrightarrow> \<forall>k. cache_Get E c k = None \<Longrightarrow> buf_inv E (buffer_New c t)"
  by (simp add: inv_except_def idx_ok_def buffer_New_def, simp add: makeChan_def chan_ok_def)

lemma empty_buffer_inv: "buf_inv (buf_example cap tt lt mt) empty_buffer"
  by (rule buffer_New_inv) (simp_all add: buf_example_def)

lemma empty_buffer_store_ok: "store_ok (buf_example cap tt lt mt) empty_buffer"
proof -
  have "entries_ok (buf_example cap tt lt mt) empty_buffer"
    by (simp add: entries_ok_def buf_example_def buffer_New_def)
  then show ?thesis by (simp add: store_ok_def buf_example_laws)
qed

end
