(* ===== verification/Gossip.thy ===== *)
theory Gossip
  imports Signals
begin

text \<open>
  The gossip manager of \<open>internal/gossip/gossip.go\<close>: decisions and triggers are converted
  to the Protobuf messages of \<open>internal/gossip/pb\<close>, queued for the cluster and delivered to
  the node's own channels; \<open>NotifyMsg\<close> is the way back.  Protobuf, \<open>timestamppb\<close> and
  \<open>memberlist\<close> are not part of the repository: their operations are the fields of the
  parameter \<open>gossip_env\<close>, with the round trips their documentation promises as the
  predicates \<open>proto_ok\<close> and \<open>tspb_ok\<close>.
\<close>

subsection \<open>Wire messages\<close>

datatype Timestamp = Timestamp int64 "32 word"  \<comment> \<open>seconds and nanoseconds\<close>

record pbSamplingDecision =
  pb_TraceId :: string
  pb_Reason :: string
  pb_DecidedAt :: "Timestamp option"
  pb_DecidedBy :: string
  pb_EventStart :: "Timestamp option"
  pb_EventEnd :: "Timestamp option"

record pbTriggerEvent =
  pb_Name :: string
  pb_Value :: float64
  pb_Threshold :: float64
  pb_StartedAt :: "Timestamp option"

datatype Payload =
    GossipMessage_SamplingDecision pbSamplingDecision
  | GossipMessage_TriggerEvent pbTriggerEvent

text \<open>A message with no payload set is \<open>None\<close>.\<close>

type_synonym GossipMessage = "Payload option"

record broadcast =
  bc_msg :: bytes

text \<open>\<open>Invalidates\<close>: no queued message replaces another.\<close>

definition broadcast_Invalidates :: "broadcast \<Rightarrow> broadcast \<Rightarrow> bool" where
  "broadcast_Invalidates b other = False"

definition broadcast_Message :: "broadcast \<Rightarrow> bytes" where
  "broadcast_Message b = bc_msg b"

record 'q gossip_env =
  ge_Marshal :: "GossipMessage \<Rightarrow> error + bytes"
  ge_Unmarshal :: "bytes \<Rightarrow> error + GossipMessage"
  ge_New :: "time \<Rightarrow> Timestamp"
  ge_AsTime :: "Timestamp option \<Rightarrow> time"
  ge_QueueBroadcast :: "'q \<Rightarrow> broadcast \<Rightarrow> 'q"
  ge_GetBroadcasts :: "'q \<Rightarrow> int \<Rightarrow> int \<Rightarrow> bytes list \<times> 'q"

text \<open>
  Marshalling is inverted by unmarshalling, and a message whose payload is set is not encoded
  by the empty byte string.
\<close>

definition proto_ok :: "'q gossip_env \<Rightarrow> bool" where
  "proto_ok E \<longleftrightarrow>
     (\<forall>m b. ge_Marshal E m = Inr b \<longrightarrow> ge_Unmarshal E b = Inr m) \<and>
     (\<forall>p b. ge_Marshal E (Some p) = Inr b \<longrightarrow> b \<noteq> [])"

definition ts_range :: "time \<Rightarrow> bool" where
  "ts_range t \<longleftrightarrow> - (2 ^ 63) \<le> t div 1000000000 \<and> t div 1000000000 < 2 ^ 63"

definition tspb_ok :: "'q gossip_env \<Rightarrow> bool" where
  "tspb_ok E \<longleftrightarrow> (\<forall>t. ts_range t \<longrightarrow> ge_AsTime E (Some (ge_New E t)) = t)"

subsection \<open>The manager\<close>

record 'q Manager =
  gm_cfg :: GossipConfig
  gm_broadcasts :: "'q option"
  gm_decisionChan :: "SamplingDecision chan"
  gm_triggerChan :: "TriggerEvent chan"

definition gossip_New :: "GossipConfig \<Rightarrow> 'q Manager" where
  "gossip_New cfg = \<lparr>gm_cfg = cfg, gm_broadcasts = None,
     gm_decisionChan = makeChan 100, gm_triggerChan = makeChan 100\<rparr>"

text \<open>
  \<open>Start\<close> as far as the manager's own state goes: \<open>memberlist.Create\<close> either fails or
  yields the list, for which the (empty) transmit queue \<open>q0\<close> is installed.
\<close>

definition gossip_Start :: "error option \<Rightarrow> 'q \<Rightarrow> 'q Manager \<Rightarrow> 'q Manager \<times> error option" where
  "gossip_Start create q0 m =
     (case create of
        Some err \<Rightarrow> (m, Some (''failed to create memberlist: '' @ err))
      | None \<Rightarrow> (m\<lparr>gm_broadcasts := Some q0\<rparr>, None))"

definition toPbDecision :: "'q gossip_env \<Rightarrow> SamplingDecision \<Rightarrow> pbSamplingDecision" where
  "toPbDecision E d = \<lparr>
     pb_TraceId = sd_TraceID d, pb_Reason = sd_Reason d,
     pb_DecidedAt = Some (ge_New E (sd_DecidedAt d)), pb_DecidedBy = sd_DecidedBy d,
     pb_EventStart = Some (ge_New E (sd_EventStart d)),
     pb_EventEnd = Some (ge_New E (sd_EventEnd d))\<rparr>"

definition toPbTrigger :: "'q gossip_env \<Rightarrow> TriggerEvent \<Rightarrow> pbTriggerEvent" where
  "toPbTrigger E t = \<lparr>
     pb_Name = te_Name t, pb_Value = te_Value t, pb_Threshold = te_Threshold t,
     pb_StartedAt = Some (ge_New E (te_StartedAt t))\<rparr>"

definition BroadcastDecision :: "'q gossip_env \<Rightarrow> 'q Manager Broadcaster" where
  "BroadcastDecision E decision m =
     (let pbMsg = Some (GossipMessage_SamplingDecision (toPbDecision E decision)) in
      case ge_Marshal E pbMsg of
        Inl err \<Rightarrow> Inr (m, Some err)
      | Inr data \<Rightarrow>
          (case gm_broadcasts m of
             None \<Rightarrow> Inl NilPointer
           | Some q \<Rightarrow>
               Inr (m\<lparr>gm_broadcasts := Some (ge_QueueBroadcast E q \<lparr>bc_msg = data\<rparr>),
                      gm_decisionChan := trySend decision (gm_decisionChan m)\<rparr>, None)))"

definition BroadcastTrigger ::
  "'q gossip_env \<Rightarrow> TriggerEvent \<Rightarrow> 'q Manager \<Rightarrow> ('q Manager \<times> error option) res" where
  "BroadcastTrigger E trigger m =
     (let pbMsg = Some (GossipMessage_TriggerEvent (toPbTrigger E trigger)) in
      case ge_Marshal E pbMsg of
        Inl err \<Rightarrow> Inr (m, Some err)
      | Inr data \<Rightarrow>
          (case gm_broadcasts m of
             None \<Rightarrow> Inl NilPointer
           | Some q \<Rightarrow>
               Inr (m\<lparr>gm_broadcasts := Some (ge_QueueBroadcast E q \<lparr>bc_msg = data\<rparr>),
                      gm_triggerChan := trySend trigger (gm_triggerChan m)\<rparr>, None)))"

definition NotifyMsg :: "'q gossip_env \<Rightarrow> bytes \<Rightarrow> 'q Manager \<Rightarrow> 'q Manager" where
  "NotifyMsg E b m =
     (if b = [] then m
      else case ge_Unmarshal E b of
        Inl err \<Rightarrow> m
      | Inr None \<Rightarrow> m
      | Inr (Some (GossipMessage_SamplingDecision sd)) \<Rightarrow>
          (let decision = \<lparr>
             sd_TraceID = pb_TraceId sd, sd_Reason = pb_Reason sd,
             sd_DecidedAt = ge_AsTime E (pb_DecidedAt sd), sd_DecidedBy = pb_DecidedBy sd,
             sd_EventStart = ge_AsTime E (pb_EventStart sd),
             sd_EventEnd = ge_AsTime E (pb_EventEnd sd)\<rparr>
           in m\<lparr>gm_decisionChan := trySend decision (gm_decisionChan m)\<rparr>)
      | Inr (Some (GossipMessage_TriggerEvent te)) \<Rightarrow>
          (let trigger = \<lparr>
             te_Name = pb_Name te, te_Value = pb_Value te, te_Threshold = pb_Threshold te,
             te_StartedAt = ge_AsTime E (pb_StartedAt te)\<rparr>
           in m\<lparr>gm_triggerChan := trySend trigger (gm_triggerChan m)\<rparr>))"

definition GetBroadcasts ::
  "'q gossip_env \<Rightarrow> int \<Rightarrow> int \<Rightarrow> 'q Manager \<Rightarrow> (bytes list \<times> 'q Manager) res" where
  "GetBroadcasts E overhead limit m =
     (case gm_broadcasts m of
        None \<Rightarrow> Inl NilPointer
      | Some q \<Rightarrow> (let (msgs, q') = ge_GetBroadcasts E q overhead limit
                   in Inr (msgs, m\<lparr>gm_broadcasts := Some q'\<rparr>)))"

text \<open>
  One tick of \<open>joinLoop\<close> with \<open>tryJoin\<close>: the peers handed to \<open>memberlist.Join\<close>, if
  it is called.  A node that already sees another member does not look for peers.
\<close>

definition tryJoin :: "error + string list \<Rightarrow> string list option" where
  "tryJoin peers =
     (case peers of Inl err \<Rightarrow> None | Inr ps \<Rightarrow> if length ps = 0 then None else Some ps)"

definition joinTick :: "int \<Rightarrow> error + string list \<Rightarrow> string list option" where
  "joinTick numMembers peers = (if numMembers \<le> 1 then tryJoin peers else None)"

text \<open>
  The ticker of \<open>joinLoop\<close>.  \<open>time.NewTicker\<close> panics when its interval is not positive; the
  default of five seconds is only set afterwards.
\<close>

definition NewTicker :: "duration \<Rightarrow> duration res" where
  "NewTicker d = (if sint d \<le> 0 then Inl NonPositiveInterval else Inr d)"

definition joinInterval :: "GossipConfig \<Rightarrow> duration res" where
  "joinInterval cfg =
     res_bind (NewTicker (word_of_int (gsp_Interval cfg) * 1000000))
       (\<lambda>d. Inr (if gsp_Interval cfg = 0 then 5 * Second else d))"

text \<open>
  The rest of the delegate interface of \<open>memberlist\<close>: no meta data, and no state that is exchanged
  when a node joins.  \<open>Members\<close> is the list of members, once there is one.
\<close>

definition NodeMeta :: "int \<Rightarrow> bytes" where
  "NodeMeta limit = []"

definition LocalState :: "bool \<Rightarrow> bytes" where
  "LocalState join = []"

definition MergeRemoteState :: "bytes \<Rightarrow> bool \<Rightarrow> 'q Manager \<Rightarrow> 'q Manager" where
  "MergeRemoteState buf join m = m"

definition Members :: "'m list option \<Rightarrow> 'm list" where
  "Members list = (case list of None \<Rightarrow> [] | Some ms \<Rightarrow> ms)"

text \<open>
  \<open>Stop\<close> on the member list, if there is one: whether it is active.  It leaves the cluster and
  shuts the list down.
\<close>

definition gossip_Stop :: "bool option \<Rightarrow> bool option" where
  "gossip_Stop list = (case list of None \<Rightarrow> None | Some active \<Rightarrow> Some False)"

subsection \<open>The broadcaster contract\<close>

interpretation gossip: broadcaster "BroadcastDecision E" gm_decisionChan for E
  by unfold_locales
     (auto simp: BroadcastDecision_def Let_def split: sum.splits option.splits)

lemma BroadcastTrigger_ok:
  "BroadcastTrigger E t m = Inr (m', None) \<Longrightarrow>
     gm_triggerChan m' = trySend t (gm_triggerChan m) \<and> gm_decisionChan m' = gm_decisionChan m"
  by (auto simp: BroadcastTrigger_def Let_def split: sum.splits option.splits)

lemma BroadcastTrigger_fail: "BroadcastTrigger E t m = Inr (m', Some e) \<Longrightarrow> m' = m"
  by (auto simp: BroadcastTrigger_def Let_def split: sum.splits option.splits)

lemma proto_okD:
  assumes "proto_ok E" and "ge_Marshal E (Some p) = Inr b"
  shows "b \<noteq> []" and "ge_Unmarshal E b = Inr (Some p)"
  using assms by (auto simp: proto_ok_def)

lemma tspb_okD: "tspb_ok E \<Longrightarrow> ts_range t \<Longrightarrow> ge_AsTime E (Some (ge_New E t)) = t"
  by (simp add: tspb_ok_def)

lemma NotifyMsg_decision:
  assumes "proto_ok E" and "tspb_ok E"
    and "ge_Marshal E (Some (GossipMessage_SamplingDecision (toPbDecision E d))) = Inr b"
    and "ts_range (sd_DecidedAt d)" "ts_range (sd_EventStart d)" "ts_range (sd_EventEnd d)"
  shows "NotifyMsg E b m = m\<lparr>gm_decisionChan := trySend d (gm_decisionChan m)\<rparr>"
  using assms proto_okD [OF assms(1,3)]
  by (cases d) (simp add: NotifyMsg_def toPbDecision_def tspb_okD)

lemma NotifyMsg_trigger:
  assumes "proto_ok E" and "tspb_ok E"
    and "ge_Marshal E (Some (GossipMessage_TriggerEvent (toPbTrigger E t))) = Inr b"
    and "ts_range (te_StartedAt t)"
  shows "NotifyMsg E b m = m\<lparr>gm_triggerChan := trySend t (gm_triggerChan m)\<rparr>"
  using assms proto_okD [OF assms(1,3)]
  by (cases t) (simp add: NotifyMsg_def toPbTrigger_def tspb_okD)

subsection \<open>Runs of the manager\<close>

text \<open>
  The steps of a manager between its goroutines: local broadcasts, messages from the network,
  and receives by the processor's loops.
\<close>

inductive gossip_step :: "'q gossip_env \<Rightarrow> 'q Manager \<Rightarrow> 'q Manager \<Rightarrow> bool" for E where
  decision: "BroadcastDecision E d m = Inr (m', r) \<Longrightarrow> gossip_step E m m'"
| trigger: "BroadcastTrigger E t m = Inr (m', r) \<Longrightarrow> gossip_step E m m'"
| notify: "gossip_step E m (NotifyMsg E b m)"
| gather: "GetBroadcasts E ov lim m = Inr (msgs, m') \<Longrightarrow> gossip_step E m m'"
| recv_decision: "recv (gm_decisionChan m) = Some (d, ch) \<Longrightarrow>
    gossip_step E m (m\<lparr>gm_decisionChan := ch\<rparr>)"
| recv_trigger: "recv (gm_triggerChan m) = Some (t, ch) \<Longrightarrow>
    gossip_step E m (m\<lparr>gm_triggerChan := ch\<rparr>)"

inductive gossip_reachable :: "'q gossip_env \<Rightarrow> 'q Manager \<Rightarrow> bool" for E where
  start: "gossip_Start None q0 (gossip_New cfg) = (m, None) \<Longrightarrow> gossip_reachable E m"
| step: "gossip_reachable E m \<Longrightarrow> gossip_step E m m' \<Longrightarrow> gossip_reachable E m'"

definition gossip_inv :: "'q Manager \<Rightarrow> bool" where
  "gossip_inv m \<longleftrightarrow> gm_broadcasts m \<noteq> None \<and>
     chanCap (gm_decisionChan m) = 100 \<and> chan_ok (gm_decisionChan m) \<and>
     chanCap (gm_triggerChan m) = 100 \<and> chan_ok (gm_triggerChan m)"

lemma recv_chan_ok: "recv ch = Some (x, ch') \<Longrightarrow> chan_ok ch \<Longrightarrow> chan_ok ch' \<and> chanCap ch' = chanCap ch"
  by (auto simp: chan_ok_def recv_def split: list.splits)

lemma gossip_inv_step: "gossip_step E m m' \<Longrightarrow> gossip_inv m \<Longrightarrow> gossip_inv m'"
proof (induction rule: gossip_step.induct)
  case (decision d m m' r)
  then show ?case
    by (auto simp: BroadcastDecision_def Let_def gossip_inv_def chan.send_inv
             split: sum.splits option.splits)
next
  case (trigger t m m' r)
  then show ?case
    by (auto simp: BroadcastTrigger_def Let_def gossip_inv_def chan.send_inv
             split: sum.splits option.splits)
next
  case (notify m b)
  then show ?case
    by (auto simp: NotifyMsg_def Let_def gossip_inv_def chan.send_inv
             split: sum.splits option.splits Payload.splits)
next
  case (gather ov lim m msgs m')
  then show ?case
    by (auto simp: GetBroadcasts_def gossip_inv_def split: option.splits prod.splits)
qed (auto simp: gossip_inv_def dest: recv_chan_ok)

lemma gossip_inv_start: "gossip_Start None q0 (gossip_New cfg) = (m, None) \<Longrightarrow> gossip_inv m"
  by (auto simp: gossip_Start_def gossip_New_def gossip_inv_def makeChan_def chan_ok_def)

lemma gossip_reachable_inv: "gossip_reachable E m \<Longrightarrow> gossip_inv m"
  by (induction rule: gossip_reachable.induct) (auto intro: gossip_inv_start gossip_inv_step)

lemma BroadcastDecision_queued:
  assumes "BroadcastDecision E d m = Inr (m', None)"
  shows "\<exists>b q. ge_Marshal E (Some (GossipMessage_SamplingDecision (toPbDecision E d))) = Inr b
    \<and> gm_broadcasts m = Some q
    \<and> m' = m\<lparr>gm_broadcasts := Some (ge_QueueBroadcast E q \<lparr>bc_msg = b\<rparr>),
             gm_decisionChan := trySend d (gm_decisionChan m)\<rparr>"
  using assms by (auto simp: BroadcastDecision_def Let_def split: sum.splits option.splits)

lemma BroadcastTrigger_queued:
  assumes "BroadcastTrigger E t m = Inr (m', None)"
  shows "\<exists>b q. ge_Marshal E (Some (GossipMessage_TriggerEvent (toPbTrigger E t))) = Inr b
    \<and> gm_broadcasts m = Some q
    \<and> m' = m\<lparr>gm_broadcasts := Some (ge_QueueBroadcast E q \<lparr>bc_msg = b\<rparr>),
             gm_triggerChan := trySend t (gm_triggerChan m)\<rparr>"
  using assms by (auto simp: BroadcastTrigger_def Let_def split: sum.splits option.splits)

subsection \<open>A concrete environment\<close>

text \<open>
  An environment in which one message can be marshalled, with the timestamps of
  \<open>timestamppb\<close> and a queue that keeps everything.
\<close>

definition tspbNew :: "time \<Rightarrow> Timestamp" where
  "tspbNew t = Timestamp (word_of_int (t div 1000000000)) (word_of_int (t mod 1000000000))"

fun tspbAsTime :: "Timestamp option \<Rightarrow> time" where
  "tspbAsTime None = 0"
| "tspbAsTime (Some (Timestamp s n)) = sint s * 1000000000 + sint n"

definition gossip_example :: "GossipMessage \<Rightarrow> broadcast list gossip_env" where
  "gossip_example msg = \<lparr>
     ge_Marshal = (\<lambda>m. if m = msg then Inr [7] else Inl ''unsupported''),
     ge_Unmarshal = (\<lambda>b. if b = [7] then Inr msg else Inl ''cannot parse''),
     ge_New = tspbNew, ge_AsTime = tspbAsTime,
     ge_QueueBroadcast = (\<lambda>q b. q @ [b]),
     ge_GetBroadcasts = (\<lambda>q ov lim. (map bc_msg q, q))\<rparr>"

lemma gossip_example_proto_ok: "proto_ok (gossip_example msg)"
  by (simp add: proto_ok_def gossip_example_def)

lemma tspb_roundtrip: "ts_range t \<Longrightarrow> tspbAsTime (Some (tspbNew t)) = t"
proof -
  assume "ts_range t"
  moreover have "sint (word_of_int (t mod 1000000000) :: 32 word) = t mod 1000000000"
    by (simp add: sint_sbintrunc' signed_take_bit_int_eq_self)
  ultimately show ?thesis
    by (simp add: ts_range_def tspbNew_def sint_word_of_int_64)
qed

lemma gossip_example_tspb_ok: "tspb_ok (gossip_example msg)"
  unfolding tspb_ok_def gossip_example_def using tspb_roundtrip by simp

definition decision_example :: SamplingDecision where
  "decision_example = \<lparr>sd_TraceID = ''0102030405060708090a0b0c0d0e0f10'', sd_Reason = ''errors'',
     sd_DecidedAt = 1700000000000000000, sd_DecidedBy = ''local'',
     sd_EventStart = 1699999999000000000, sd_EventEnd = 1699999999500000000\<rparr>"

definition trigger_example :: TriggerEvent where
  "trigger_example = \<lparr>te_Name = ''high_load'', te_Value = floatOfInt 4500,
     te_Threshold = floatOfInt 4000, te_StartedAt = 1700000000000000000\<rparr>"

abbreviation env_decision :: "broadcast list gossip_env" where
  "env_decision \<equiv> gossip_example
     (Some (GossipMessage_SamplingDecision (toPbDecision (gossip_example None) decision_example)))"

abbreviation env_trigger :: "broadcast list gossip_env" where
  "env_trigger \<equiv> gossip_example
     (Some (GossipMessage_TriggerEvent (toPbTrigger (gossip_example None) trigger_example)))"

definition manager_example :: "broadcast list Manager" where
  "manager_example = fst (gossip_Start None [] (gossip_New (cfg_Gossip DefaultConfig)))"

subsection \<open>Properties\<close>

text \<open>
  A sampling decision survives the gossip round trip.  When a broadcast succeeds, the
  node's own channel is offered the decision, one message is queued for the cluster, and any
  peer that is notified of that message offers exactly the same decision to its own channel.
\<close>

theorem gossip_decision_roundtrip:
  assumes "proto_ok E" and "tspb_ok E"
    and "ts_range (sd_DecidedAt d)" and "ts_range (sd_EventStart d)" and "ts_range (sd_EventEnd d)"
    and "BroadcastDecision E d m = Inr (m', None)"
  shows "gm_decisionChan m' = trySend d (gm_decisionChan m) \<and>
    (\<exists>b q. gm_broadcasts m = Some q \<and>
       gm_broadcasts m' = Some (ge_QueueBroadcast E q \<lparr>bc_msg = b\<rparr>) \<and>
       (\<forall>peer. NotifyMsg E b peer = peer\<lparr>gm_decisionChan := trySend d (gm_decisionChan peer)\<rparr>))"
proof -
  from BroadcastDecision_queued [OF assms(6)] obtain b q where
    b: "ge_Marshal E (Some (GossipMessage_SamplingDecision (toPbDecision E d))) = Inr b"
    and q: "gm_broadcasts m = Some q"
    and m': "m' = m\<lparr>gm_broadcasts := Some (ge_QueueBroadcast E q \<lparr>bc_msg = b\<rparr>),
                    gm_decisionChan := trySend d (gm_decisionChan m)\<rparr>"
    by blast
  have "NotifyMsg E b peer = peer\<lparr>gm_decisionChan := trySend d (gm_decisionChan peer)\<rparr>" for peer
    by (rule NotifyMsg_decision [OF assms(1,2) b assms(3,4,5)])
  with q m' show ?thesis by auto
qed

theorem gossip_decision_roundtrip_witness:
  "\<exists>m'. BroadcastDecision env_decision decision_example manager_example = Inr (m', None) \<and>
     gm_decisionChan m' = trySend decision_example (gm_decisionChan manager_example)"
proof -
  obtain m' where m': "BroadcastDecision env_decision decision_example manager_example = Inr (m', None)"
    by (simp add: BroadcastDecision_def manager_example_def gossip_Start_def gossip_New_def
          gossip_example_def toPbDecision_def)
  from gossip_decision_roundtrip [OF gossip_example_proto_ok gossip_example_tspb_ok _ _ _ m'] m'
  show ?thesis by (auto simp: decision_example_def ts_range_def)
qed

text \<open>
  A trigger event survives the gossip round trip, its two floating-point fields
  included.
\<close>

theorem gossip_trigger_roundtrip:
  assumes "proto_ok E" and "tspb_ok E" and "ts_range (te_StartedAt t)"
    and "BroadcastTrigger E t m = Inr (m', None)"
  shows "gm_triggerChan m' = trySend t (gm_triggerChan m) \<and>
    (\<exists>b q. gm_broadcasts m = Some q \<and>
       gm_broadcasts m' = Some (ge_QueueBroadcast E q \<lparr>bc_msg = b\<rparr>) \<and>
       (\<forall>peer. NotifyMsg E b peer = peer\<lparr>gm_triggerChan := trySend t (gm_triggerChan peer)\<rparr>))"
proof -
  from BroadcastTrigger_queued [OF assms(4)] obtain b q where
    b: "ge_Marshal E (Some (GossipMessage_TriggerEvent (toPbTrigger E t))) = Inr b"
    and q: "gm_broadcasts m = Some q"
    and m': "m' = m\<lparr>gm_broadcasts := Some (ge_QueueBroadcast E q \<lparr>bc_msg = b\<rparr>),
                    gm_triggerChan := trySend t (gm_triggerChan m)\<rparr>"
    by blast
  have "NotifyMsg E b peer = peer\<lparr>gm_triggerChan := trySend t (gm_triggerChan peer)\<rparr>" for peer
    by (rule NotifyMsg_trigger [OF assms(1,2) b assms(3)])
  with q m' show ?thesis by auto
qed

theorem gossip_trigger_roundtrip_witness:
  "\<exists>m'. BroadcastTrigger env_trigger trigger_example manager_example = Inr (m', None) \<and>
     gm_triggerChan m' = trySend trigger_example (gm_triggerChan manager_example)"
proof -
  obtain m' where m': "BroadcastTrigger env_trigger trigger_example manager_example = Inr (m', None)"
    by (simp add: BroadcastTrigger_def manager_example_def gossip_Start_def gossip_New_def
          gossip_example_def toPbTrigger_def)
  from gossip_trigger_roundtrip [OF gossip_example_proto_ok gossip_example_tspb_ok _ m'] m'
  show ?thesis by (auto simp: trigger_example_def ts_range_def)
qed

text \<open>
  In every state a started manager can reach, by any interleaving of broadcasts, network
  messages and receives, both channels hold at most 100 values and a broadcast does not hit the
  nil transmit queue.
\<close>

theorem gossip_channels_bounded:
  assumes "gossip_reachable E m"
  shows "length (chanQueue (gm_decisionChan m)) \<le> 100 \<and>
    length (chanQueue (gm_triggerChan m)) \<le> 100 \<and>
    (\<forall>d. BroadcastDecision E d m \<noteq> Inl NilPointer) \<and>
    (\<forall>t. BroadcastTrigger E t m \<noteq> Inl NilPointer)"
proof -
  from assms have "gossip_inv m" by (rule gossip_reachable_inv)
  then show ?thesis
    by (auto simp: gossip_inv_def chan_ok_def BroadcastDecision_def BroadcastTrigger_def Let_def
             split: sum.splits option.splits)
qed

theorem gossip_channels_bounded_witness:
  "gossip_reachable env_decision manager_example \<and>
   length (chanQueue (gm_decisionChan manager_example)) \<le> 100"
proof -
  have r: "gossip_reachable env_decision manager_example"
    by (rule gossip_reachable.start) (simp add: manager_example_def gossip_Start_def)
  then show ?thesis using gossip_channels_bounded [OF r] by simp
qed

text \<open>
  The loop that joins the cluster does not survive an interval of zero in the configuration:
  the ticker is created from the configured interval first, which panics, so the fallback to five
  seconds is never reached.  A positive interval of less than 292 years is used as configured.
\<close>

theorem joinLoop_interval:
  "joinInterval (cfg\<lparr>gsp_Interval := 0\<rparr>) = Inl NonPositiveInterval \<and>
   (0 < gsp_Interval cfg \<longrightarrow> gsp_Interval cfg < 9223372036854 \<longrightarrow>
      (\<exists>d. joinInterval cfg = Inr d \<and> sint d = gsp_Interval cfg * 1000000))"
proof -
  have "sint (word_of_int (gsp_Interval cfg) * 1000000 :: int64) = gsp_Interval cfg * 1000000"
    if "0 < gsp_Interval cfg" "gsp_Interval cfg < 9223372036854"
  proof -
    have "(word_of_int (gsp_Interval cfg) * 1000000 :: int64) = word_of_int (gsp_Interval cfg * 1000000)"
      by simp
    then show ?thesis using that by (simp only:) (rule sint_word_of_int_64, simp_all)
  qed
  then show ?thesis by (auto simp: joinInterval_def NewTicker_def)
qed

theorem joinLoop_interval_witness:
  "(\<exists>d. joinInterval (cfg_Gossip DefaultConfig) = Inr d \<and> sint d = 100000000)"
  using joinLoop_interval [of "cfg_Gossip DefaultConfig"] by (simp add: DefaultConfig_def)

end
