(* ===== verification/Decision.thy ===== *)
theory Decision
  imports Gossip
begin

text \<open>
  The decision engine of \<open>internal/decision/engine.go\<close>.  A trace signal is evaluated
  against the configured policies in order; the first one that matches triggers a sampling
  decision, which goes to the broadcaster.  The three checks are the same triple loop with an
  early return, \<open>anySpan\<close>, around a condition on one span; the locale \<open>span_policy\<close> holds
  what follows from that shape.
\<close>

subsection \<open>The engine\<close>

record 'b Engine =
  eng_cfg :: DecisionConfig
  eng_broadcaster :: "'b Broadcaster option"
  eng_debug :: bool

definition decision_New :: "DecisionConfig \<Rightarrow> 'b Broadcaster option \<Rightarrow> bool \<Rightarrow> 'b Engine" where
  "decision_New cfg b dbg = \<lparr>eng_cfg = cfg, eng_broadcaster = b, eng_debug = dbg\<rparr>"

subsection \<open>The policies\<close>

primrec anyInSpans :: "(Span \<Rightarrow> bool) \<Rightarrow> Span list \<Rightarrow> bool" where
  "anyInSpans p [] = False"
| "anyInSpans p (s # ss) = (if p s then True else anyInSpans p ss)"

primrec anyInScopes :: "(Span \<Rightarrow> bool) \<Rightarrow> ScopeSpans list \<Rightarrow> bool" where
  "anyInScopes p [] = False"
| "anyInScopes p (i # is) = (if anyInSpans p (ss_spans i) then True else anyInScopes p is)"

primrec anySpan :: "(Span \<Rightarrow> bool) \<Rightarrow> Traces \<Rightarrow> bool" where
  "anySpan p [] = False"
| "anySpan p (r # rs) = (if anyInScopes p (rs_scopes r) then True else anySpan p rs)"

definition spanError :: "Span \<Rightarrow> bool" where
  "spanError s \<longleftrightarrow> span_status s = StatusCodeError"

definition spanLatency :: "pdata \<Rightarrow> int64 \<Rightarrow> Span \<Rightarrow> bool" where
  "spanLatency P thresholdNs s \<longleftrightarrow>
     sint thresholdNs < sint (Sub (pd_AsTime P (span_end s)) (pd_AsTime P (span_start s)))"

definition spanAttribute :: "pdata \<Rightarrow> string \<Rightarrow> string \<Rightarrow> Span \<Rightarrow> bool" where
  "spanAttribute P key v s \<longleftrightarrow>
     (case pd_Get P (span_attrs s) key of None \<Rightarrow> False | Some x \<Rightarrow> pd_Str P x = v)"

definition checkError :: "TraceSignal \<Rightarrow> bool" where
  "checkError trace = anySpan spanError (ts_Traces trace)"

definition checkLatency :: "pdata \<Rightarrow> TraceSignal \<Rightarrow> int64 \<Rightarrow> bool" where
  "checkLatency P trace threshold =
     (let thresholdNs = threshold * 1000000 in anySpan (spanLatency P thresholdNs) (ts_Traces trace))"

definition checkAttribute :: "pdata \<Rightarrow> TraceSignal \<Rightarrow> string \<Rightarrow> string \<Rightarrow> bool" where
  "checkAttribute P trace key v = anySpan (spanAttribute P key v) (ts_Traces trace)"

definition policyMatched :: "pdata \<Rightarrow> TraceSignal \<Rightarrow> PolicyConfig \<Rightarrow> bool" where
  "policyMatched P trace p =
     (if pol_Type p = ''error'' then checkError trace
      else if pol_Type p = ''latency'' then checkLatency P trace (pol_LatencyThresholdMS p)
      else if pol_Type p = ''attribute''
        then checkAttribute P trace (pol_AttributeKey p) (pol_AttributeValue p)
      else False)"

subsection \<open>Triggering a decision\<close>

record scanState =
  scan_traceID :: string
  scan_start :: time
  scan_end :: time

definition scanSpan :: "pdata \<Rightarrow> Span \<Rightarrow> scanState \<Rightarrow> scanState" where
  "scanSpan P span st =
     (let s = pd_AsTime P (span_start span); e = pd_AsTime P (span_end span) in
      \<lparr>scan_traceID =
         (if scan_traceID st = [] \<and> \<not> pd_IsEmpty P (span_traceID span)
          then pd_String P (span_traceID span) else scan_traceID st),
       scan_start = (if IsZero (scan_start st) \<or> Before s (scan_start st) then s else scan_start st),
       scan_end = (if IsZero (scan_end st) \<or> After e (scan_end st) then e else scan_end st)\<rparr>)"

definition scanTraces :: "pdata \<Rightarrow> Traces \<Rightarrow> scanState" where
  "scanTraces P t =
     fold (\<lambda>rs. fold (\<lambda>sls. fold (scanSpan P) (ss_spans sls)) (rs_scopes rs)) t
       \<lparr>scan_traceID = [], scan_start = zeroTime, scan_end = zeroTime\<rparr>"

definition triggerDecision ::
  "pdata \<Rightarrow> 'b Engine \<Rightarrow> time \<Rightarrow> TraceSignal \<Rightarrow> string \<Rightarrow> 'b \<Rightarrow> 'b res" where
  "triggerDecision P e now trace reason b =
     (let st = scanTraces P (ts_Traces trace) in
      if scan_traceID st = [] then Inr b
      else
        let decision = \<lparr>sd_TraceID = scan_traceID st, sd_Reason = reason, sd_DecidedAt = now,
              sd_DecidedBy = ''local'', sd_EventStart = scan_start st, sd_EventEnd = scan_end st\<rparr>
        in case eng_broadcaster e of
             None \<Rightarrow> Inr b
           | Some bc \<Rightarrow> (case bc decision b of Inl p \<Rightarrow> Inl p | Inr (b', err) \<Rightarrow> Inr b'))"

primrec evalPolicies ::
  "pdata \<Rightarrow> 'b Engine \<Rightarrow> time \<Rightarrow> TraceSignal \<Rightarrow> PolicyConfig list \<Rightarrow> 'b \<Rightarrow> 'b res" where
  "evalPolicies P e now trace [] b = Inr b"
| "evalPolicies P e now trace (p # ps) b =
     (if policyMatched P trace p then triggerDecision P e now trace (pol_Name p) b
      else evalPolicies P e now trace ps b)"

definition EvaluateTrace :: "pdata \<Rightarrow> 'b Engine \<Rightarrow> time \<Rightarrow> TraceSignal \<Rightarrow> 'b \<Rightarrow> 'b res" where
  "EvaluateTrace P e now trace b = evalPolicies P e now trace (dec_Policies (eng_cfg e)) b"

subsection \<open>Checks that look at single spans\<close>

locale span_policy =
  fixes check :: "Traces \<Rightarrow> bool"
    and matches :: "Span \<Rightarrow> bool"
  assumes check_spans: "check t \<longleftrightarrow> list_ex matches (spans_of t)"
begin

lemma check_iff: "check t \<longleftrightarrow> (\<exists>s \<in> set (spans_of t). matches s)"
  by (simp add: check_spans list_ex_iff)

lemma check_append: "check (a @ b) \<longleftrightarrow> check a \<or> check b"
  by (simp add: check_spans)

lemma check_regroup: "set (spans_of t) = set (spans_of u) \<Longrightarrow> check t \<longleftrightarrow> check u"
  by (simp add: check_iff)

end

lemma anyInSpans_list_ex: "anyInSpans p ss = list_ex p ss"
  by (induction ss) auto

lemma anyInScopes_list_ex: "anyInScopes p is = list_ex p (concat (map ss_spans is))"
  by (induction "is") (auto simp: anyInSpans_list_ex)

lemma anySpan_list_ex: "anySpan p t = list_ex p (spans_of t)"
  by (induction t) (auto simp: anyInScopes_list_ex spans_of_def)

interpretation err: span_policy "\<lambda>t. checkError \<lparr>ts_Traces = t, ts_Ctx = c\<rparr>" spanError for c
  by unfold_locales (simp add: checkError_def anySpan_list_ex)

interpretation lat: span_policy "\<lambda>t. checkLatency P \<lparr>ts_Traces = t, ts_Ctx = c\<rparr> th"
    "spanLatency P (th * 1000000)" for P c th
  by unfold_locales (simp add: checkLatency_def anySpan_list_ex)

interpretation attr: span_policy "\<lambda>t. checkAttribute P \<lparr>ts_Traces = t, ts_Ctx = c\<rparr> k v"
    "spanAttribute P k v" for P c k v
  by unfold_locales (simp add: checkAttribute_def anySpan_list_ex)

text \<open>The condition a policy puts on one span, and the specification of the evaluation.\<close>

definition policySpan :: "pdata \<Rightarrow> PolicyConfig \<Rightarrow> Span \<Rightarrow> bool" where
  "policySpan P p s \<longleftrightarrow>
     (pol_Type p = ''error'' \<and> spanError s) \<or>
     (pol_Type p = ''latency'' \<and> spanLatency P (pol_LatencyThresholdMS p * 1000000) s) \<or>
     (pol_Type p = ''attribute'' \<and> spanAttribute P (pol_AttributeKey p) (pol_AttributeValue p) s)"

interpretation pol: span_policy "\<lambda>t. policyMatched P \<lparr>ts_Traces = t, ts_Ctx = c\<rparr> p"
    "policySpan P p" for P c p
  by unfold_locales
     (auto simp: policyMatched_def policySpan_def list_ex_iff err.check_iff lat.check_iff attr.check_iff)

lemma policyMatched_iff:
  "policyMatched P trace p \<longleftrightarrow> (\<exists>s \<in> set (spans_of (ts_Traces trace)). policySpan P p s)"
  using pol.check_iff [of P "ts_Traces trace" "ts_Ctx trace" p] by (cases trace) simp

lemma evalPolicies_find:
  "evalPolicies P e now trace ps b =
     (case find (policyMatched P trace) ps of
        None \<Rightarrow> Inr b | Some p \<Rightarrow> triggerDecision P e now trace (pol_Name p) b)"
  by (induction ps) auto

subsection \<open>The scan\<close>

lemma scanTraces_spans:
  "scanTraces P t = fold (scanSpan P) (spans_of t)
     \<lparr>scan_traceID = [], scan_start = zeroTime, scan_end = zeroTime\<rparr>"
proof -
  have scopes: "fold (\<lambda>sls. fold (scanSpan P) (ss_spans sls)) is st
      = fold (scanSpan P) (concat (map ss_spans is)) st" for "is" st
    by (induction "is" arbitrary: st) auto
  have "fold (\<lambda>rs. fold (\<lambda>sls. fold (scanSpan P) (ss_spans sls)) (rs_scopes rs)) t st
      = fold (scanSpan P) (spans_of t) st" for st
    by (induction t arbitrary: st) (auto simp: scopes spans_of_def)
  then show ?thesis by (simp add: scanTraces_def)
qed

definition firstTraceID :: "pdata \<Rightarrow> Span list \<Rightarrow> string" where
  "firstTraceID P ss =
     (case find (\<lambda>s. \<not> pd_IsEmpty P (span_traceID s)) ss of
        None \<Rightarrow> [] | Some s \<Rightarrow> pd_String P (span_traceID s))"

lemma pd_String_nonempty: "traceid_ok P \<Longrightarrow> \<not> pd_IsEmpty P t \<Longrightarrow> pd_String P t \<noteq> []"
  by (cases t) (auto simp: traceid_ok_def)

lemma fold_scan_traceID:
  "traceid_ok P \<Longrightarrow> scan_traceID (fold (scanSpan P) ss st) =
     (if scan_traceID st = [] then firstTraceID P ss else scan_traceID st)"
proof (induction ss arbitrary: st)
  case (Cons s ss)
  then show ?case
    by (auto simp: scanSpan_def firstTraceID_def Let_def pd_String_nonempty)
qed (simp add: firstTraceID_def)

text \<open>
  Once a real span timestamp is recorded the \<open>IsZero\<close> test cannot succeed again, so the scan
  computes a minimum and a maximum.
\<close>

definition spanStart :: "pdata \<Rightarrow> Span \<Rightarrow> time" where
  "spanStart P s = pd_AsTime P (span_start s)"

definition spanEnd :: "pdata \<Rightarrow> Span \<Rightarrow> time" where
  "spanEnd P s = pd_AsTime P (span_end s)"

definition span_times_ok :: "Span \<Rightarrow> bool" where
  "span_times_ok s \<longleftrightarrow> unat (span_start s) < 2 ^ 63 \<and> unat (span_end s) < 2 ^ 63"

lemma span_times_eq:
  assumes "timestamp_ok P" and "span_times_ok s"
  shows "spanStart P s = int (unat (span_start s))" and "spanEnd P s = int (unat (span_end s))"
  using assms by (simp_all add: timestamp_ok_def span_times_ok_def spanStart_def spanEnd_def)

lemma span_times_not_zero:
  assumes "timestamp_ok P" and "span_times_ok s"
  shows "zeroTime < spanStart P s" and "zeroTime < spanEnd P s"
  unfolding span_times_eq [OF assms] by (rule zeroTime_less_nat)+

lemma scanSpan_start_end:
  "scan_start (scanSpan P s st) =
     (if scan_start st = zeroTime then spanStart P s else min (scan_start st) (spanStart P s))"
  "scan_end (scanSpan P s st) =
     (if scan_end st = zeroTime then spanEnd P s else max (scan_end st) (spanEnd P s))"
  by (auto simp: scanSpan_def Let_def IsZero_def Before_def After_def spanStart_def spanEnd_def)

lemma fold_scan_start:
  assumes "timestamp_ok P" and "\<forall>s \<in> set ss. span_times_ok s" and "zeroTime < scan_start st"
  shows "scan_start (fold (scanSpan P) ss st) = Min (insert (scan_start st) (spanStart P ` set ss))"
  using assms(2,3)
proof (induction ss arbitrary: st)
  case (Cons s ss)
  from assms(1) Cons.prems have "zeroTime < spanStart P s"
    by (intro span_times_not_zero) auto
  with Cons.prems have "scan_start (scanSpan P s st) = min (scan_start st) (spanStart P s)"
    and "zeroTime < scan_start (scanSpan P s st)"
    by (auto simp: scanSpan_start_end)
  with Cons show ?case by (simp add: Min_insert_min del: Min_insert)
qed simp

lemma fold_scan_end:
  assumes "timestamp_ok P" and "\<forall>s \<in> set ss. span_times_ok s" and "zeroTime < scan_end st"
  shows "scan_end (fold (scanSpan P) ss st) = Max (insert (scan_end st) (spanEnd P ` set ss))"
  using assms(2,3)
proof (induction ss arbitrary: st)
  case (Cons s ss)
  from assms(1) Cons.prems have "zeroTime < spanEnd P s"
    by (intro span_times_not_zero) auto
  with Cons.prems have "scan_end (scanSpan P s st) = max (scan_end st) (spanEnd P s)"
    and "zeroTime < scan_end (scanSpan P s st)"
    by (auto simp: scanSpan_start_end)
  with Cons show ?case by (simp add: Max_insert_max del: Max_insert)
qed simp

lemma scanTraces_window:
  assumes "timestamp_ok P" and "\<forall>s \<in> set (spans_of t). span_times_ok s" and "spans_of t \<noteq> []"
  shows "scan_start (scanTraces P t) = Min (spanStart P ` set (spans_of t))"
    and "scan_end (scanTraces P t) = Max (spanEnd P ` set (spans_of t))"
proof -
  from assms(3) obtain s ss where ss: "spans_of t = s # ss" by (cases "spans_of t") auto
  let ?st = "scanSpan P s \<lparr>scan_traceID = [], scan_start = zeroTime, scan_end = zeroTime\<rparr>"
  from ss assms(2) have ok: "span_times_ok s" "\<forall>s \<in> set ss. span_times_ok s" by auto
  from span_times_not_zero [OF assms(1) ok(1)]
  have st: "zeroTime < scan_start ?st" "zeroTime < scan_end ?st"
    and eq: "scan_start ?st = spanStart P s" "scan_end ?st = spanEnd P s"
    by (simp_all add: scanSpan_start_end)
  have "scanTraces P t = fold (scanSpan P) ss ?st" by (simp add: scanTraces_spans ss)
  then show "scan_start (scanTraces P t) = Min (spanStart P ` set (spans_of t))"
    and "scan_end (scanTraces P t) = Max (spanEnd P ` set (spans_of t))"
    using fold_scan_start [OF assms(1) ok(2) st(1)] fold_scan_end [OF assms(1) ok(2) st(2)]
    by (simp_all add: eq ss)
qed

lemma scanTraces_traceID: "traceid_ok P \<Longrightarrow> scan_traceID (scanTraces P t) = firstTraceID P (spans_of t)"
  by (simp add: scanTraces_spans fold_scan_traceID)

definition decisionFor :: "pdata \<Rightarrow> time \<Rightarrow> string \<Rightarrow> Span list \<Rightarrow> SamplingDecision" where
  "decisionFor P now reason ss = \<lparr>sd_TraceID = firstTraceID P ss, sd_Reason = reason,
     sd_DecidedAt = now, sd_DecidedBy = ''local'',
     sd_EventStart = Min (spanStart P ` set ss), sd_EventEnd = Max (spanEnd P ` set ss)\<rparr>"

lemma firstTraceID_nonempty:
  assumes "traceid_ok P" and "s \<in> set ss" and "\<not> pd_IsEmpty P (span_traceID s)"
  shows "firstTraceID P ss \<noteq> []"
proof -
  from assms(2,3) obtain s' where
    "find (\<lambda>s. \<not> pd_IsEmpty P (span_traceID s)) ss = Some s'" "\<not> pd_IsEmpty P (span_traceID s')"
    by (cases "find (\<lambda>s. \<not> pd_IsEmpty P (span_traceID s)) ss")
       (auto simp: find_None_iff find_Some_iff)
  then show ?thesis by (simp add: firstTraceID_def pd_String_nonempty assms(1))
qed

lemma firstTraceID_single:
  assumes "traceid_ok P" and "\<forall>s \<in> set ss. span_traceID s = tid" and "ss \<noteq> []"
    and "\<not> pd_IsEmpty P tid"
  shows "firstTraceID P ss = EncodeToString tid"
  using assms by (cases ss) (auto simp: firstTraceID_def traceid_ok_def)

lemma triggerDecision_eq:
  assumes "traceid_ok P" and "timestamp_ok P"
    and "\<forall>s \<in> set (spans_of (ts_Traces trace)). span_times_ok s"
    and "s \<in> set (spans_of (ts_Traces trace))" and "\<not> pd_IsEmpty P (span_traceID s)"
    and "eng_broadcaster e = Some bc"
  shows "triggerDecision P e now trace reason b =
    (case bc (decisionFor P now reason (spans_of (ts_Traces trace))) b of
       Inl p \<Rightarrow> Inl p | Inr (b', err) \<Rightarrow> Inr b')"
proof -
  from assms(4) have "spans_of (ts_Traces trace) \<noteq> []" by auto
  note window = scanTraces_window [OF assms(2,3) this]
  show ?thesis
    using firstTraceID_nonempty [OF assms(1,4,5)]
    by (simp add: triggerDecision_def scanTraces_traceID [OF assms(1)] window assms(6) decisionFor_def)
qed

context broadcaster
begin

lemma evaluate_matched:
  fixes trace :: TraceSignal
  defines "ss \<equiv> spans_of (ts_Traces trace)"
  assumes "traceid_ok P" and "timestamp_ok P"
    and "\<forall>s \<in> set ss. span_times_ok s \<and> span_traceID s = tid" and "\<not> pd_IsEmpty P tid"
    and "find (policyMatched P trace) (dec_Policies (eng_cfg e)) = Some pol"
    and "eng_broadcaster e = Some bcast" and "bcast (decisionFor P now (pol_Name pol) ss) b = Inr (b', None)"
  shows "EvaluateTrace P e now trace b = Inr b' \<and>
    localChan b' = trySend (decisionFor P now (pol_Name pol) ss) (localChan b) \<and>
    sd_TraceID (decisionFor P now (pol_Name pol) ss) = EncodeToString tid \<and> ss \<noteq> []"
proof -
  from assms(6) have "policyMatched P trace pol" by (auto simp: find_Some_iff)
  then obtain s where s: "s \<in> set ss" by (auto simp: policyMatched_iff ss_def)
  then have ne: "\<not> pd_IsEmpty P (span_traceID s)" using assms(4,5) by auto
  have ok: "\<forall>s \<in> set ss. span_times_ok s" using assms(4) by blast
  have "firstTraceID P ss = EncodeToString tid" using assms(2,4,5) s by (intro firstTraceID_single) auto
  moreover have "EvaluateTrace P e now trace b = Inr b'"
    using assms(6,8) triggerDecision_eq [OF assms(2,3) ok [unfolded ss_def] s [unfolded ss_def] ne assms(7)]
    by (simp add: EvaluateTrace_def evalPolicies_find ss_def)
  ultimately show ?thesis using bcast_ok [OF assms(8)] s by (auto simp: decisionFor_def)
qed

lemma evaluate_chan_ok:
  assumes "eng_broadcaster e = Some bcast" and "EvaluateTrace P e now trace b = Inr b'"
    and "chan_ok (localChan b)"
  shows "chan_ok (localChan b') \<and> chanCap (localChan b') = chanCap (localChan b)"
  using assms
  by (auto simp: EvaluateTrace_def evalPolicies_find triggerDecision_def Let_def
           split: option.splits if_splits sum.splits dest: bcast_chan_ok bcast_cap)

end

subsection \<open>Concrete inputs\<close>

definition tidA :: TraceID where
  "tidA = replicate 16 1"

definition tidB :: TraceID where
  "tidB = replicate 16 2"

definition span_example :: "TraceID \<Rightarrow> StatusCode \<Rightarrow> Span" where
  "span_example tid st = \<lparr>span_traceID = tid, span_start = 1000, span_end = 2000,
     span_status = st, span_attrs = [], span_other = []\<rparr>"

definition traces_example :: "Span list \<Rightarrow> Traces" where
  "traces_example ss = [\<lparr>rs_resource = NewResource, rs_schema = [],
     rs_scopes = [\<lparr>ss_scope = \<lparr>scope_name = [], scope_version = [], scope_other = []\<rparr>,
                   ss_schema = [], ss_spans = ss\<rparr>]\<rparr>]"

definition trace_example :: "Span list \<Rightarrow> TraceSignal" where
  "trace_example ss = \<lparr>ts_Traces = traces_example ss, ts_Ctx = ctxAt 0\<rparr>"

definition policy_example :: "string \<Rightarrow> int64 \<Rightarrow> PolicyConfig" where
  "policy_example ty th = \<lparr>pol_Name = ty, pol_Type = ty, pol_LatencyThresholdMS = th,
     pol_AttributeKey = [], pol_AttributeValue = [], pol_SampleRate = Fin False 0 0\<rparr>"

definition recorder :: "SamplingDecision list Broadcaster" where
  "recorder d ds = Inr (ds @ [d], None)"

lemma spans_of_example [simp]: "spans_of (ts_Traces (trace_example ss)) = ss"
  by (simp add: trace_example_def traces_example_def spans_of_def)

lemma example_laws: "traceid_ok pdata_example" "timestamp_ok pdata_example" "value_ok pdata_example"
    "attrmap_ok pdata_example" "numpoint_ok pdata_example"
  using pdata_example_ok by (simp_all add: pdata_ok_def)

lemma example_nonempty [simp]:
  "\<not> pd_IsEmpty pdata_example tidA" "\<not> pd_IsEmpty pdata_example tidB"
  by (simp_all add: pdata_example_def tidA_def tidB_def list_all_iff)

lemma span_example_ok [simp]: "span_times_ok (span_example t st)"
  by (simp add: span_times_ok_def span_example_def)

subsection \<open>Properties\<close>

text \<open>
  C15: evaluating a trace signal triggers the first policy, in configuration order, that some
  span of the signal satisfies, and does nothing when there is none; a policy of an unknown
  type matches no span.
\<close>

theorem EvaluateTrace_first_match:
  "EvaluateTrace P e now trace b =
     (case find (\<lambda>p. list_ex (policySpan P p) (spans_of (ts_Traces trace)))
             (dec_Policies (eng_cfg e)) of
        None \<Rightarrow> Inr b
      | Some p \<Rightarrow> triggerDecision P e now trace (pol_Name p) b)"
proof -
  have "policyMatched P trace = (\<lambda>p. list_ex (policySpan P p) (spans_of (ts_Traces trace)))"
    by (rule ext) (simp add: policyMatched_iff list_ex_iff)
  then show ?thesis by (simp add: EvaluateTrace_def evalPolicies_find)
qed

text \<open>
  the decision a trigger broadcasts covers the whole signal.  Its event window runs from
  the earliest start to the latest end over all spans, whichever span matched, and the sentinel
  test on the zero time never resets it.
\<close>

theorem triggerDecision_window:
  assumes "traceid_ok P" and "timestamp_ok P"
    and "\<forall>s \<in> set (spans_of (ts_Traces trace)). span_times_ok s"
    and "s \<in> set (spans_of (ts_Traces trace))" and "\<not> pd_IsEmpty P (span_traceID s)"
    and "eng_broadcaster e = Some recorder"
  shows "\<exists>d. triggerDecision P e now trace reason ds = Inr (ds @ [d]) \<and>
    sd_EventStart d = Min (spanStart P ` set (spans_of (ts_Traces trace))) \<and>
    sd_EventEnd d = Max (spanEnd P ` set (spans_of (ts_Traces trace))) \<and>
    sd_Reason d = reason \<and> sd_DecidedAt d = now"
  using triggerDecision_eq [OF assms, of now reason ds]
  by (simp add: recorder_def decisionFor_def)

theorem triggerDecision_window_witness:
  "\<exists>d. triggerDecision pdata_example (decision_New \<lparr>dec_Policies = []\<rparr> (Some recorder) False)
          5 (trace_example [span_example tidA StatusCodeOk]) ''r'' [] = Inr ([] @ [d]) \<and>
     sd_EventStart d = Min (spanStart pdata_example ` {span_example tidA StatusCodeOk})"
proof -
  let ?s = "span_example tidA StatusCodeOk"
  let ?e = "decision_New \<lparr>dec_Policies = []\<rparr> (Some recorder) False"
  have "\<exists>d. triggerDecision pdata_example ?e 5 (trace_example [?s]) ''r'' [] = Inr ([] @ [d]) \<and>
      sd_EventStart d = Min (spanStart pdata_example ` set (spans_of (ts_Traces (trace_example [?s])))) \<and>
      sd_EventEnd d = Max (spanEnd pdata_example ` set (spans_of (ts_Traces (trace_example [?s])))) \<and>
      sd_Reason d = ''r'' \<and> sd_DecidedAt d = 5"
    by (rule triggerDecision_window [OF example_laws(1,2), where s = ?s])
       (simp_all add: decision_New_def span_example_def span_times_ok_def)
  then show ?thesis by auto
qed



definition env_always :: "broadcast list gossip_env" where
  "env_always = (gossip_example None)\<lparr>ge_Marshal := (\<lambda>_. Inr [7])\<rparr>"

lemma sint_threshold:
  assumes "\<bar>sint (th :: int64)\<bar> \<le> 9223372036854"
  shows "sint (th * 1000000) = sint th * 1000000"
proof -
  have "th * 1000000 = word_of_int (sint th * 1000000)" by simp
  moreover have "sint (word_of_int (sint th * 1000000) :: int64) = sint th * 1000000"
    using assms by (intro sint_word_of_int_64) auto
  ultimately show ?thesis by metis
qed

lemma spanLatency_iff:
  assumes "timestamp_ok P" and "span_times_ok s" and "\<bar>sint th\<bar> \<le> 9223372036854"
  shows "spanLatency P (th * 1000000) s \<longleftrightarrow>
    sint th * 1000000 < int (unat (span_end s)) - int (unat (span_start s))"
proof -
  have "int (unat (span_start s)) < 2 ^ 63" "int (unat (span_end s)) < 2 ^ 63"
    using assms(2) unfolding span_times_ok_def
    by (metis of_nat_less_numeral_power_cancel_iff)+
  then have "sint (Sub (spanEnd P s) (spanStart P s))
      = int (unat (span_end s)) - int (unat (span_start s))"
    by (simp only: span_times_eq [OF assms(1,2)] sint_Sub)
  then show ?thesis
    unfolding spanLatency_def sint_threshold [OF assms(3)]
    by (simp only: spanEnd_def spanStart_def)
qed

text \<open>
  C26: the latency policy means what the configuration says: it matches exactly when some span
  lasts longer than the threshold, for span times up to the year 2262 and thresholds whose
  conversion to nanoseconds fits 64 bits.
\<close>

theorem checkLatency_exact:
  assumes "timestamp_ok P" and "\<forall>s \<in> set (spans_of (ts_Traces trace)). span_times_ok s"
    and "\<bar>sint th\<bar> \<le> 9223372036854"
  shows "checkLatency P trace th \<longleftrightarrow>
    (\<exists>s \<in> set (spans_of (ts_Traces trace)).
       sint th * 1000000 < int (unat (span_end s)) - int (unat (span_start s)))"
  using assms spanLatency_iff [OF assms(1) _ assms(3)]
  by (auto simp: checkLatency_def anySpan_list_ex list_ex_iff)

theorem checkLatency_exact_witness:
  "checkLatency pdata_example (trace_example [span_example tidA StatusCodeOk]) 0 \<and>
   \<not> checkLatency pdata_example (trace_example [span_example tidA StatusCodeOk]) 1"
  using checkLatency_exact [OF example_laws(2), of "trace_example [span_example tidA StatusCodeOk]" 0]
    checkLatency_exact [OF example_laws(2), of "trace_example [span_example tidA StatusCodeOk]" 1]
  by (simp add: span_example_def span_times_ok_def)

text \<open>
  With the default configuration, whose only policy is a latency policy with the threshold
  -1 ms, every trace signal with a span that does not end before it starts is sampled for the
  reason \<open>sample-all\<close>.
\<close>

theorem default_config_samples_all:
  assumes "traceid_ok P" and "timestamp_ok P"
    and "\<forall>s \<in> set (spans_of (ts_Traces trace)). span_times_ok s"
    and "s \<in> set (spans_of (ts_Traces trace))" and "\<not> pd_IsEmpty P (span_traceID s)"
    and "unat (span_start s) \<le> unat (span_end s)"
  shows "\<exists>d. EvaluateTrace P (decision_New (cfg_Decision DefaultConfig) (Some recorder) dbg) now trace ds
      = Inr (ds @ [d]) \<and> sd_Reason d = ''sample-all''"
proof -
  let ?e = "decision_New (cfg_Decision DefaultConfig) (Some recorder) dbg"
  let ?p = "hd (dec_Policies (cfg_Decision DefaultConfig))"
  have "int (unat (span_start s)) \<le> int (unat (span_end s))"
    using assms(6) by (simp only: of_nat_le_iff)
  then have "spanLatency P (-1 * 1000000) s"
    using assms(3,4) spanLatency_iff [OF assms(2), of s "-1"] by simp
  then have "policyMatched P trace ?p"
    using assms(4) by (auto simp: policyMatched_iff policySpan_def DefaultConfig_def)
  then have "find (policyMatched P trace) (dec_Policies (eng_cfg ?e)) = Some ?p"
    by (simp add: decision_New_def DefaultConfig_def)
  then have "EvaluateTrace P ?e now trace ds = triggerDecision P ?e now trace ''sample-all'' ds"
    by (simp add: EvaluateTrace_def evalPolicies_find) (simp add: DefaultConfig_def)
  then show ?thesis
    using triggerDecision_eq [OF assms(1-5), of ?e recorder now "''sample-all''" ds]
    by (simp add: decision_New_def recorder_def decisionFor_def)
qed

theorem default_config_samples_all_witness:
  "\<exists>d. EvaluateTrace pdata_example (decision_New (cfg_Decision DefaultConfig) (Some recorder) True) 5
         (trace_example [span_example tidA StatusCodeOk]) [] = Inr ([] @ [d]) \<and>
     sd_Reason d = ''sample-all''"
  by (rule default_config_samples_all [OF example_laws(1,2), where s = "span_example tidA StatusCodeOk"])
     (simp_all add: span_example_def span_times_ok_def)

end
