(* ===== verification/BufferProps.thy ===== *)
theory BufferProps
  imports BufferExample Rollup Decision
begin

text \<open>
  The properties of the buffer: the invariant of every reachable buffer, the contents of a trace
  after a batch, what a time range returns, and what happens to evicted entries.
\<close>

subsection \<open>Reachable buffers\<close>

text \<open>
  The steps of a buffer: the operations of its interface, a run of the cache's cleaning, and a
  receive from the channel of evicted signals.
\<close>

inductive buf_step :: "('c, 't) bufenv \<Rightarrow> ('c, 't) InMemoryBuffer \<Rightarrow> ('c, 't) InMemoryBuffer \<Rightarrow> bool"
  for E where
  step_Store: "fresh nd b \<Longrightarrow> buf_step E b (fst (Store E nd sig b))"
| step_RemoveTrace: "buf_step E b (RemoveTrace E nd b tid)"
| step_RemoveMetrics: "buf_step E b (RemoveMetricsInRange E nd b s e)"
| step_RemoveLogs: "buf_step E b (RemoveLogsInRange E nd b s e)"
| step_ClearMetrics: "buf_step E b (ClearMetrics E nd ord b)"
| step_ClearLogs: "buf_step E b (ClearLogs E nd ord b)"
| step_Clean: "buf_step E b (cacheClean E nd b)"
| step_recv: "recv (b_evictedChan b) = Some (sig, ch) \<Longrightarrow> buf_step E b (b\<lparr>b_evictedChan := ch\<rparr>)"

inductive_cases buf_stepE: "buf_step E b b'"

inductive buf_reachable :: "('c, 't) bufenv \<Rightarrow> 'c \<Rightarrow> 't \<Rightarrow> ('c, 't) InMemoryBuffer \<Rightarrow> bool"
  for E c t where
  reach_New: "buf_reachable E c t (buffer_New c t)"
| reach_step: "buf_reachable E c t b \<Longrightarrow> buf_step E b b' \<Longrightarrow> buf_reachable E c t b'"

lemma recv_inv:
  assumes "buf_inv E b" and "recv (b_evictedChan b) = Some (sig, ch)"
  shows "buf_inv E (b\<lparr>b_evictedChan := ch\<rparr>)"
proof -
  have "chan_ok (b_evictedChan b)" "chanCap (b_evictedChan b) = 1000"
    using assms(1) by (simp_all add: inv_except_def)
  then have "chan_ok ch \<and> chanCap ch = 1000"
    using assms(2) by (auto simp: recv_def chan_ok_def split: list.splits)
  then show ?thesis using assms(1) by (simp add: inv_except_def)
qed

lemma buf_step_inv:
  assumes "cache_ok E" and "btree_ok E" and "buf_step E b b'" and "buf_inv E b"
  shows "buf_inv E b'"
  using assms(3,4)
  by (cases rule: buf_step.cases)
     (simp_all add: Store_inv RemoveTrace_inv RemoveInRange_inv cacheClean_inv recv_inv assms(1,2))

lemma buf_reachable_inv:
  assumes "cache_ok E" and "btree_ok E"
    and "bt_valid E t" and "bt_items E t = []" and "\<forall>k. cache_Get E c k = None"
  shows "buf_reachable E c t b \<Longrightarrow> buf_inv E b"
proof (induction rule: buf_reachable.induct)
  case reach_New
  show ?case by (rule buffer_New_inv [OF assms(3-5)])
next
  case (reach_step b b')
  show ?case by (rule buf_step_inv [OF assms(1,2) reach_step(2,3)])
qed

lemma inv_cached_indexed:
  assumes "buf_inv E b" and "cache_Get E (b_cache b) k = Some data"
  shows "isMetricKey k \<Longrightarrow> \<exists>ts. TimeKey ts k \<in> set (bt_items E (b_metricTimeIndex b))"
    and "isLogKey k \<Longrightarrow> \<exists>ts. TimeKey ts k \<in> set (bt_items E (b_logTimeIndex b))"
proof -
  have "cache_Get E (b_cache b) k \<noteq> None" using assms(2) by simp
  then have k: "isMetricKey k \<Longrightarrow> k \<in> fst ` set (b_metricKeyMap b)"
    "isLogKey k \<Longrightarrow> k \<in> fst ` set (b_logKeyMap b)"
    using assms(1) unfolding inv_except_def by blast+
  note items = inv_idx [OF assms(1), unfolded idx_ok_def]
  show "isMetricKey k \<Longrightarrow> \<exists>ts. TimeKey ts k \<in> set (bt_items E (b_metricTimeIndex b))"
    using k(1) items(1) by force
  show "isLogKey k \<Longrightarrow> \<exists>ts. TimeKey ts k \<in> set (bt_items E (b_logTimeIndex b))"
    using k(2) items(2) by force
qed


definition metric_env :: exampleEnv where
  "metric_env = buf_example 2 [] [] [[metrics_example [] [metric_example ''cpu'' MetricEmpty]]]"

definition metric_signal :: Signal where
  "metric_signal = SigMetric (msignal_example [metrics_example [] [metric_example ''cpu'' MetricEmpty]])"

definition metric_buffer :: exampleBuffer where
  "metric_buffer = fst (Store metric_env (nd_example 5 ''u'') metric_signal empty_buffer)"

lemma metric_buffer_reachable: "buf_reachable metric_env [] [] metric_buffer"
  unfolding metric_buffer_def
  by (rule reach_step [OF reach_New step_Store]) (simp add: fresh_def buffer_New_def nd_example_range_ok)

lemma metric_env_laws:
  "cache_ok metric_env" "btree_ok metric_env" "codec_ok metric_env"
  by (simp_all add: metric_env_def buf_example_laws)


subsection \<open>The contents of a trace\<close>

text \<open>
  Storing a batch of spans appends to every trace, after the spans it already holds, exactly
  the spans of the batch that carry its ID, in batch order, however the batch spreads them over
  resources and scopes and in whatever order the traces are written; the logs of all traces are
  untouched.  This is for a batch during which the cache evicts nothing and marshalling succeeds.
\<close>

theorem storeTraces_appends_spans:
  assumes "store_ok E b" and "range_ok nd" and "quietTraces E nd sig b" and "\<not> pd_IsEmpty (be_pd E) tid"
  shows "spans_of (traceOf E (fst (storeTraces E nd sig b)) tid) =
      spans_of (traceOf E b tid) @ filter (\<lambda>s. span_traceID s = tid) (spans_of (ts_Traces sig)) \<and>
    logsOf E (fst (storeTraces E nd sig b)) = logsOf E b"
  using storeTraces_views(1) [OF assms] storeTraces_views(2) [OF assms(1-3)]
  by (simp add: spans_itemsFor)

definition wrapped :: "TraceID \<Rightarrow> StatusCode \<Rightarrow> ResourceSpans" where
  "wrapped tid st = hd (traces_example [span_example tid st])"

definition batch_signal :: TraceSignal where
  "batch_signal = trace_example [span_example tidB StatusCodeOk, span_example tidA StatusCodeError]"

definition trace_env :: exampleEnv where
  "trace_env = buf_example 8 [[wrapped tidA StatusCodeOk],
     [wrapped tidA StatusCodeOk, wrapped tidA StatusCodeError],
     [wrapped tidB StatusCodeOk], [wrapped tidB StatusCodeOk, wrapped tidB StatusCodeOk]] [] []"

lemma trace_env_collide: "cache_collide trace_env = (=)"
  by (simp add: trace_env_def buf_example_collide)

lemmas trace_env_quiet = quiet_silent [OF trace_env_collide]

text \<open>A buffer that holds one span of \<open>tidA\<close>.\<close>

definition trace_buffer :: exampleBuffer where
  "trace_buffer = empty_buffer\<lparr>b_cache := [(EncodeToString tidA,
     gobEncode_example \<lparr>st_ReceivedAt = 5, st_TracesData = [1], st_LogsData = []\<rparr>)]\<rparr>"

lemma trace_buffer_store_ok: "store_ok trace_env trace_buffer"
proof -
  have "entries_ok trace_env trace_buffer"
    by (simp add: entries_ok_def trace_env_def buf_example_def trace_buffer_def gob_roundtrip)
  then show ?thesis by (simp add: store_ok_def trace_env_def buf_example_laws)
qed

lemma trace_buffer_holds:
  "spans_of (traceOf trace_env trace_buffer tidA) = [span_example tidA StatusCodeOk]"
proof -
  have "cache_Get trace_env (b_cache trace_buffer) (EncodeToString tidA) =
      Some (gob_Encode trace_env \<lparr>st_ReceivedAt = 5, st_TracesData = [1], st_LogsData = []\<rparr>)"
    by (simp add: trace_env_def buf_example_def trace_buffer_def)
  from views_of_entry(1) [OF _ this] show ?thesis
    by (simp add: trace_env_def buf_example_laws)
       (simp add: buf_example_def tableUnmarshal_def wrapped_def traces_example_def spans_of_def)
qed

theorem storeTraces_appends_spans_witness:
  "spans_of (traceOf trace_env (fst (storeTraces trace_env (nd_example 6 ''v'') batch_signal trace_buffer)) tidA) =
     [span_example tidA StatusCodeOk, span_example tidA StatusCodeError]"
proof -
  have "quietTraces trace_env (nd_example 6 ''v'') batch_signal trace_buffer"
  proof -
    have "groupSpans (be_pd trace_env) (ts_Traces batch_signal) =
        [(tidB, [wrapped tidB StatusCodeOk]), (tidA, [wrapped tidA StatusCodeError])]" by code_simp
    moreover have "tidA \<noteq> tidB" by (simp add: tidA_def tidB_def)
    moreover have "quietTrace trace_env (nd_example 6 ''v'') tidB [wrapped tidB StatusCodeOk] trace_buffer"
      unfolding trace_env_quiet by code_simp
    moreover have "quietTrace trace_env (nd_example 6 ''v'') tidA [wrapped tidA StatusCodeError]
        (fst (storeTrace trace_env (nd_example 6 ''v'') tidB [wrapped tidB StatusCodeOk] trace_buffer))"
      unfolding trace_env_quiet by code_simp
    ultimately show ?thesis by (simp add: quietTraces_def, simp add: nd_example_def)
  qed
  moreover have "\<not> pd_IsEmpty (be_pd trace_env) tidA" by (simp add: trace_env_def buf_example_def)
  moreover have "filter (\<lambda>s. span_traceID s = tidA) (spans_of (ts_Traces batch_signal)) =
      [span_example tidA StatusCodeError]"
    by (simp add: batch_signal_def span_example_def tidA_def tidB_def)
  ultimately show ?thesis
    using storeTraces_appends_spans [OF trace_buffer_store_ok nd_example_range_ok] trace_buffer_holds
    by simp
qed

text \<open>
  C32: Two batches for the same trace that are stored concurrently can lose spans: reading the
  stored entry and writing the merged one back are two separate cache operations, so when both
  read before either writes, the entry written last holds what was there before and its own
  spans only.
\<close>

theorem storeTrace_lost_update:
  assumes "store_ok E b" and "newB \<noteq> []"
    and "quietTrace E nd tid newA b"
    and "b1 = fst (cacheSet E nd (EncodeToString tid)
      (traceEntry E (loadStored E nd (EncodeToString tid) b) newA) b)"
    and "snd (be_MarshalTraces E (traceOf E b tid @ newB)) = None"
    and "quietSet E b1 (EncodeToString tid) (traceEntry E (loadStored E nd (EncodeToString tid) b) newB)"
    and "b2 = fst (cacheSet E nd (EncodeToString tid)
      (traceEntry E (loadStored E nd (EncodeToString tid) b) newB) b1)"
  shows "b1 = fst (storeTrace E nd tid newA b) \<and> traceOf E b2 tid = traceOf E b tid @ newB"
proof
  show "b1 = fst (storeTrace E nd tid newA b)" by (simp add: assms(4) storeTrace_def Let_def)
  let ?st = "loadStored E nd (EncodeToString tid) b"
  have ok: "cache_ok E" "codec_ok E" "entries_ok E b" using assms(1) by (simp_all add: store_ok_def)
  note merged = loadStored_merge(1) [OF ok(3), of nd tid newB]
  obtain d where d: "be_MarshalTraces E (traceOf E b tid @ newB) = (d, None)"
    using assms(5) by (metis prod.collapse)
  have e: "traceEntry E ?st newB = gob_Encode E (?st\<lparr>st_TracesData := d\<rparr>)"
    by (simp add: traceEntry_def merged d)
  have "cache_Get E (b_cache b2) (EncodeToString tid) = Some (gob_Encode E (?st\<lparr>st_TracesData := d\<rparr>))"
    using quietSet_cache(1) [OF ok(1) assms(6)] by (simp add: assms(7) e)
  from views_of_entry(1) [OF ok(2) this] codec_okD(1,2) [OF ok(2) d] assms(2)
  show "traceOf E b2 tid = traceOf E b tid @ newB" by simp
qed

theorem storeTrace_lost_update_witness:
  "let E = trace_env; nd = nd_example 6 ''v''; key = EncodeToString tidB; new = [wrapped tidB StatusCodeOk];
     st = loadStored E nd key empty_buffer;
     b1 = fst (cacheSet E nd key (traceEntry E st new) empty_buffer);
     b2 = fst (cacheSet E nd key (traceEntry E st new) b1)
   in traceOf E b2 tidB = new \<and>
      traceOf E (fst (storeTrace E nd tidB new b1)) tidB = new @ new"
proof -
  let ?new = "[wrapped tidB StatusCodeOk]" and ?nd = "nd_example 6 ''v''"
  let ?st = "loadStored trace_env ?nd (EncodeToString tidB) empty_buffer"
  let ?b1 = "fst (cacheSet trace_env ?nd (EncodeToString tidB) (traceEntry trace_env ?st ?new) empty_buffer)"
  have ok: "store_ok trace_env empty_buffer"
    using empty_buffer_store_ok by (simp add: trace_env_def)
  have "quietTrace trace_env ?nd tidB ?new empty_buffer" unfolding trace_env_quiet by code_simp
  moreover have "snd (be_MarshalTraces trace_env (traceOf trace_env empty_buffer tidB @ ?new)) = None"
    by code_simp
  moreover have "quietSet trace_env ?b1 (EncodeToString tidB) (traceEntry trace_env ?st ?new)"
    unfolding trace_env_quiet by code_simp
  ultimately have "traceOf trace_env (fst (cacheSet trace_env ?nd (EncodeToString tidB)
      (traceEntry trace_env ?st ?new) ?b1)) tidB = traceOf trace_env empty_buffer tidB @ ?new"
    using storeTrace_lost_update [OF ok, of ?new ?nd tidB ?new] by blast
  moreover have "traceOf trace_env empty_buffer tidB = []" by code_simp
  moreover have "traceOf trace_env (fst (storeTrace trace_env ?nd tidB ?new ?b1)) tidB = ?new @ ?new"
    by code_simp
  ultimately show ?thesis by (simp add: Let_def)
qed

subsection \<open>Logs and metrics by time\<close>

text \<open>A window of instants that \<open>UnixNano\<close> can express, around the instant \<open>now\<close>.\<close>

definition window_around :: "time \<Rightarrow> time \<Rightarrow> time \<Rightarrow> bool" where
  "window_around s now e \<longleftrightarrow> - (2 ^ 63) \<le> s \<and> s \<le> now \<and> now \<le> e \<and> e < 2 ^ 63 - 1"

lemma window_around_facts:
  assumes "window_around s now e"
  shows "UnixNano e \<noteq> 2 ^ 63 - 1" and "in_window s e (TimeKey (UnixNano now) k)"
    and "UnixNsec (UnixNano now) = now"
proof -
  have r: "nano_range s" "nano_range now" "nano_range e" "e \<noteq> 2 ^ 63 - 1"
    using assms by (auto simp: window_around_def nano_range_def)
  have "sint (UnixNano e) \<noteq> sint (2 ^ 63 - 1 :: int64)"
    using r(4) by (simp add: sint_UnixNano [OF r(3)])
  then show "UnixNano e \<noteq> 2 ^ 63 - 1" by metis
  show "in_window s e (TimeKey (UnixNano now) k)"
    using assms by (simp add: in_window_def sint_UnixNano r(1-3) window_around_def)
  show "UnixNsec (UnixNano now) = now" by (simp add: r(2))
qed

text \<open>The batch of logs is stored without evictions and marshalling succeeds.\<close>

definition quietSplitLogs :: "('c, 't) bufenv \<Rightarrow> nondet \<Rightarrow> LogSignal \<Rightarrow> ('c, 't) InMemoryBuffer \<Rightarrow> bool" where
  "quietSplitLogs E nd sig b \<longleftrightarrow> quietTraceLogs E nd sig b \<and>
     (case splitRecords (be_pd E) (ls_Logs sig) of
        (traceLogs, None) \<Rightarrow> True
      | (traceLogs, Some l) \<Rightarrow> snd (be_MarshalLogs E l) = None \<and>
          quietSet E (fold (\<lambda>tid b. fst (storeTraceLogs E nd tid (the (map_of traceLogs tid)) b))
              (nd_range nd (map fst traceLogs)) b) (timeLogKey nd) (fst (be_MarshalLogs E l)))"

lemma quietSet_err: "quietSet E b k v \<Longrightarrow> snd (cacheSet E nd k v b) = None"
  by (auto simp: quietSet_def silentSet_def cacheSet_def split: prod.splits)

lemma storeTimeLogs_views:
  assumes "cache_ok E" and "be_MarshalLogs E l = (data, None)"
    and "quietSet E b (timeLogKey nd) data"
  shows "logsOf E (storeTimeLogs E nd l b) tid = logsOf E b tid"
    and "traceOf E (storeTimeLogs E nd l b) tid = traceOf E b tid"
proof -
  have ne: "EncodeToString tid \<noteq> timeLogKey nd"
    using hex_not_indexed(2) [of tid] own_keys(2) [of nd] by metis
  obtain b1 where b1: "cacheSet E nd (timeLogKey nd) data b = (b1, None)"
    using quietSet_err [OF assms(3)] by (metis prod.collapse)
  have "cache_Get E (b_cache b1) (EncodeToString tid) = cache_Get E (b_cache b) (EncodeToString tid)"
    using quietSet_cache(2) [OF assms(1,3) ne, of nd] by (simp add: b1)
  then have "cache_Get E (b_cache (storeTimeLogs E nd l b)) (EncodeToString tid) =
      cache_Get E (b_cache b) (EncodeToString tid)"
    by (simp add: storeTimeLogs_def assms(2) b1 Let_def)
  then show "logsOf E (storeTimeLogs E nd l b) tid = logsOf E b tid"
    "traceOf E (storeTimeLogs E nd l b) tid = traceOf E b tid"
    by (rule views_other(2), rule views_other(1))
qed

lemma storeTraceLogs_fold_inv:
  assumes "cache_ok E" and "btree_ok E" and "buf_inv E b"
  shows "buf_inv E (fold (\<lambda>tid b. fst (storeTraceLogs E nd tid (m tid) b)) tids b)"
  by (rule fold_inv [where Q = "buf_inv E"]) (use assms storeTraceLogs_inv in blast)+

text \<open>
  Storing a batch of logs splits it: a record with a trace ID is appended to the logs of its
  trace, after those already there; the records without one are stored together under the current
  time, and a range query around that time returns them.  No record is in both places, and the
  spans of all traces are untouched.  As before, for a batch during which the cache evicts nothing
  and marshalling succeeds.
\<close>

theorem storeSplitLogs_routes:
  assumes "store_ok E b" and "btree_ok E" and "buf_inv E b" and "range_ok nd" and "quietSplitLogs E nd sig b"
    and "window_around s (nd_now nd) e"
  defines "b' \<equiv> fst (storeSplitLogs E nd sig b)"
    and "rest \<equiv> untraced (be_pd E) (flatRecords (ls_Logs sig))"
  shows "(\<not> pd_IsEmpty (be_pd E) tid \<longrightarrow>
      records_of (logsOf E b' tid) =
        records_of (logsOf E b tid) @ filter (\<lambda>r. lr_traceID r = tid) (records_of (ls_Logs sig))) \<and>
    traceOf E b' tid = traceOf E b tid \<and>
    (rest \<noteq> [] \<longrightarrow> \<lparr>ls_Logs = rest, ls_Ctx = ctxAt (nd_now nd)\<rparr> \<in> set (GetLogsInRange E b' s e))"
proof -
  let ?m = "groupItems (be_pd E) (flatRecords (ls_Logs sig)) []"
  let ?b1 = "fold (\<lambda>tid b. fst (storeTraceLogs E nd tid (the (map_of ?m tid)) b)) (nd_range nd (map fst ?m)) b"
  have ok: "cache_ok E" "codec_ok E" using assms(1) by (simp_all add: store_ok_def)
  have q: "quietTraceLogs E nd sig b" using assms(5) by (simp add: quietSplitLogs_def)
  note v1 = storeTraceLogs_fold_views [OF assms(1,4) q, unfolded splitRecords_flat fst_conv]
  note w = window_around_facts [OF assms(6)]
  have b': "b' = (if rest = [] then ?b1 else storeTimeLogs E nd rest ?b1)"
    by (simp add: b'_def storeSplitLogs_def splitRecords_flat rest_def)
  have data: "be_MarshalLogs E rest = (fst (be_MarshalLogs E rest), None) \<and>
      quietSet E ?b1 (timeLogKey nd) (fst (be_MarshalLogs E rest))" if "rest \<noteq> []"
    using assms(5) that
    by (cases "be_MarshalLogs E rest") (simp add: quietSplitLogs_def splitRecords_flat rest_def [symmetric])
  have v2: "logsOf E b' tid = logsOf E ?b1 tid" "traceOf E b' tid = traceOf E ?b1 tid"
    using storeTimeLogs_views(1) [OF ok(1) conjunct1 [OF data] conjunct2 [OF data], of tid]
      storeTimeLogs_views(2) [OF ok(1) conjunct1 [OF data] conjunct2 [OF data], of tid]
    by (simp_all add: b')
  have "\<lparr>ls_Logs = rest, ls_Ctx = ctxAt (nd_now nd)\<rparr> \<in> set (GetLogsInRange E b' s e)" if "rest \<noteq> []"
    using storeTimeLogs_found [OF ok(1) assms(2) ok(2)
        storeTraceLogs_fold_inv [OF ok(1) assms(2,3)] conjunct1 [OF data [OF that]]
        quietSet_err [OF conjunct2 [OF data [OF that]]] w(1,2)] that
    by (simp add: b' w(3))
  with v1 v2 show ?thesis by (simp add: records_itemsFor)
qed

definition log_record :: "TraceID \<Rightarrow> LogRecord" where
  "log_record tid = (record_example ''a'')\<lparr>lr_traceID := tid\<rparr>"

definition resource_logs :: "LogRecord list \<Rightarrow> ResourceLogs" where
  "resource_logs rs = \<lparr>rl_resource = NewResource, rl_schema = [],
     rl_scopes = [\<lparr>sl_scope = scope_example, sl_schema = [], sl_records = rs\<rparr>]\<rparr>"

definition mixed_logs :: LogSignal where
  "mixed_logs = \<lparr>ls_Logs = [resource_logs [log_record tidA, log_record []]], ls_Ctx = ctxAt 0\<rparr>"

definition log_env :: exampleEnv where
  "log_env = buf_example 8 [] [[resource_logs [log_record tidA]], [resource_logs [log_record []]]] []"

lemma log_env_collide: "cache_collide log_env = (=)"
  by (simp add: log_env_def buf_example_collide)

lemmas log_env_quiet = quiet_silent [OF log_env_collide]

theorem storeSplitLogs_routes_witness:
  "let b' = fst (storeSplitLogs log_env (nd_example 5 ''u'') mixed_logs empty_buffer) in
     records_of (logsOf log_env b' tidA) = [log_record tidA] \<and>
     \<lparr>ls_Logs = [resource_logs [log_record []]], ls_Ctx = ctxAt 5\<rparr> \<in> set (GetLogsInRange log_env b' 0 10)"
proof -
  let ?nd = "nd_example 5 ''u''" and ?a = "[resource_logs [log_record tidA]]"
  have split: "splitRecords (be_pd log_env) (ls_Logs mixed_logs) =
      ([(tidA, ?a)], Some [resource_logs [log_record []]])" by code_simp
  have "quietLogs log_env ?nd tidA ?a empty_buffer" unfolding log_env_quiet by code_simp
  moreover have "snd (be_MarshalLogs log_env [resource_logs [log_record []]]) = None" by code_simp
  moreover have "quietSet log_env (fst (storeTraceLogs log_env ?nd tidA ?a empty_buffer)) (timeLogKey ?nd)
      (fst (be_MarshalLogs log_env [resource_logs [log_record []]]))"
    unfolding log_env_quiet by code_simp
  ultimately have quiet: "quietSplitLogs log_env ?nd mixed_logs empty_buffer"
    by (simp add: quietSplitLogs_def quietTraceLogs_def split, simp add: nd_example_def)
  have rest: "untraced (be_pd log_env) (flatRecords (ls_Logs mixed_logs)) = [resource_logs [log_record []]]"
    by code_simp
  have "filter (\<lambda>r. lr_traceID r = tidA) (records_of (ls_Logs mixed_logs)) = [log_record tidA]" by code_simp
  moreover have "records_of (logsOf log_env empty_buffer tidA) = []" by code_simp
  moreover have "\<not> pd_IsEmpty (be_pd log_env) tidA" by (simp add: log_env_def buf_example_def)
  moreover have "store_ok log_env empty_buffer" "btree_ok log_env" "buf_inv log_env empty_buffer"
    by (simp_all add: log_env_def buf_example_laws empty_buffer_store_ok empty_buffer_inv)
  moreover have "window_around 0 (nd_now ?nd) 10" "nd_now ?nd = 5"
    by (simp_all add: window_around_def nd_example_def)
  ultimately show ?thesis
    using storeSplitLogs_routes [OF _ _ _ nd_example_range_ok quiet, of 0 10 tidA] by (simp add: rest Let_def)
qed

text \<open>
  A metric whose marshalling and whose cache write succeed is returned by every later range
  query around its time of arrival, with its data and that time, whatever was evicted to make
  room for it.
\<close>

theorem storeMetric_then_found:
  assumes "cache_ok E" and "btree_ok E" and "codec_ok E" and "buf_inv E b"
    and "be_MarshalMetrics E (ms_Metrics sig) = (data, None)"
    and "snd (cacheSet E nd (metricKey nd) data b) = None"
    and "window_around s (nd_now nd) e"
  shows "\<lparr>ms_Metrics = ms_Metrics sig, ms_Ctx = ctxAt (nd_now nd)\<rparr>
    \<in> set (GetMetricsInRange E (fst (Store E nd (SigMetric sig) b)) s e)"
  using storeMetric_found [OF assms(1-6) window_around_facts(1,2) [OF assms(7)]]
  by (simp add: window_around_facts(3) [OF assms(7)])

theorem storeMetric_then_found_witness:
  "\<lparr>ms_Metrics = [metrics_example [] [metric_example ''cpu'' MetricEmpty]], ms_Ctx = ctxAt 5\<rparr>
    \<in> set (GetMetricsInRange metric_env metric_buffer 0 10)"
proof -
  let ?sig = "msignal_example [metrics_example [] [metric_example ''cpu'' MetricEmpty]]"
  have "be_MarshalMetrics metric_env (ms_Metrics ?sig) = ([1], None)" by code_simp
  moreover have "snd (cacheSet metric_env (nd_example 5 ''u'') (metricKey (nd_example 5 ''u'')) [1] empty_buffer) = None"
    by code_simp
  moreover have "buf_inv metric_env empty_buffer" by (simp add: metric_env_def empty_buffer_inv)
  moreover have "window_around 0 (nd_now (nd_example 5 ''u'')) 10"
    by (simp add: window_around_def nd_example_def)
  ultimately show ?thesis
    using storeMetric_then_found [OF metric_env_laws(1-3), of empty_buffer ?sig "[1]" "nd_example 5 ''u''" 0 10]
    by (simp add: metric_buffer_def metric_signal_def msignal_example_def, simp add: nd_example_def)
qed

text \<open>
  C23: A range query returns exactly the indexed metrics whose timestamp lies between the two
  bounds, both included, that are still in the cache and can be decoded, in the order of their
  timestamps.
\<close>

theorem GetMetricsInRange_exact:
  assumes "btree_ok E" and "buf_inv E b" and "UnixNano e \<noteq> 2 ^ 63 - 1"
  shows "set (GetMetricsInRange E b s e) =
      {m. \<exists>k ts. (k, ts) \<in> set (b_metricKeyMap b) \<and> sint (UnixNano s) \<le> sint ts \<and>
        sint ts \<le> sint (UnixNano e) \<and> metricAt E b (TimeKey ts k) = Some m} \<and>
    sorted (map (\<lambda>m. ReceivedAt (ms_Ctx m)) (GetMetricsInRange E b s e))"
proof -
  note idx = inv_idx(1) [OF assms(2), unfolded idx_ok_def]
  have valid: "bt_valid E (b_metricTimeIndex b)" using idx by blast
  have "set (GetMetricsInRange E b s e) =
      {m. \<exists>k ts. (k, ts) \<in> set (b_metricKeyMap b) \<and> sint (UnixNano s) \<le> sint ts \<and>
        sint ts \<le> sint (UnixNano e) \<and> metricAt E b (TimeKey ts k) = Some m}"
    unfolding GetMetricsInRange_def set_map_filter indexRange_window [OF assms(1) valid assms(3)]
    using idx by (auto simp: in_window_def split: prod.splits) blast
  with sorted_metrics [OF assms(1) valid] show ?thesis by blast
qed

theorem GetMetricsInRange_exact_witness:
  "set (GetMetricsInRange metric_env metric_buffer 5 5) =
     {m. \<exists>k ts. (k, ts) \<in> set (b_metricKeyMap metric_buffer) \<and> 5 \<le> sint ts \<and>
       sint ts \<le> 5 \<and> metricAt metric_env metric_buffer (TimeKey ts k) = Some m} \<and>
   length (GetMetricsInRange metric_env metric_buffer 5 5) = 1 \<and>
   GetMetricsInRange metric_env metric_buffer 6 9 = []"
proof (intro conjI)
  have "buf_inv metric_env metric_buffer"
    by (rule buf_reachable_inv [OF metric_env_laws(1,2) _ _ _ metric_buffer_reachable])
       (simp_all add: metric_env_def buf_example_def)
  from GetMetricsInRange_exact [OF metric_env_laws(2) this, of 5 5]
  show "set (GetMetricsInRange metric_env metric_buffer 5 5) =
     {m. \<exists>k ts. (k, ts) \<in> set (b_metricKeyMap metric_buffer) \<and> 5 \<le> sint ts \<and>
       sint ts \<le> 5 \<and> metricAt metric_env metric_buffer (TimeKey ts k) = Some m}"
    by (simp add: UnixNano_def)
qed (code_simp, code_simp)

subsection \<open>Removing\<close>

lemma cacheDelete_other:
  assumes "cache_ok E" and "uncollided E b k" and "k' \<noteq> k"
  shows "cache_Get E (b_cache (cacheDelete E nd k b)) k' = cache_Get E (b_cache b) k'"
    and "(k', ts) \<in> set (b_metricKeyMap b) \<Longrightarrow> (k', ts) \<in> set (b_metricKeyMap (cacheDelete E nd k b))"
proof -
  obtain c evs err where del: "cache_Delete E (b_cache b) k = (c, evs, err)"
    by (metis prod_cases3)
  have keys: "ev \<in> set evs \<Longrightarrow> fst ev = k" for ev
    using cache_delete_okD(2) [OF assms(1) del] assms(2)
    unfolding uncollided_def by (metis option.distinct(1) prod.collapse)
  then have "k' \<notin> fst ` set evs" using assms(3) by auto
  then show "cache_Get E (b_cache (cacheDelete E nd k b)) k' = cache_Get E (b_cache b) k'"
    using cache_delete_okD(1) [OF assms(1) del] by (simp add: cacheDelete_def del)
  have step: "fst ev = k \<Longrightarrow> (k', ts) \<in> set (b_metricKeyMap b') \<Longrightarrow>
      (k', ts) \<in> set (b_metricKeyMap (onCacheEvictionWithReason E nd ev b'))" for ev b'
    using assms(3)
    by (cases ev) (auto simp: onCacheEvictionWithReason.simps cleanupIndex_def Let_def
        AList.delete_eq split: option.splits)
  show "(k', ts) \<in> set (b_metricKeyMap b) \<Longrightarrow> (k', ts) \<in> set (b_metricKeyMap (cacheDelete E nd k b))"
    unfolding cacheDelete_def del prod.case withCallbacks_def
    by (rule fold_inv [where Q = "\<lambda>b'. (k', ts) \<in> set (b_metricKeyMap b')"]) (simp_all add: step keys)
qed

lemma cacheDelete_uncollided:
  assumes "cache_ok E" and "uncollided E b k'"
  shows "uncollided E (cacheDelete E nd k b) k'"
proof -
  obtain c evs err where del: "cache_Delete E (b_cache b) k = (c, evs, err)"
    by (metis prod_cases3)
  have "cache_Get E (b_cache (cacheDelete E nd k b)) k'' \<noteq> None \<Longrightarrow> cache_Get E (b_cache b) k'' \<noteq> None" for k''
    using cache_delete_okD(1) [OF assms(1) del, of k''] cache_delete_okD(2) [OF assms(1) del, of k'']
    by (cases "k'' \<in> fst ` set evs") (auto simp: cacheDelete_def del)
  then show ?thesis using assms(2) by (simp add: uncollided_def)
qed

lemma cacheDeletes_other:
  assumes "cache_ok E" and "\<forall>k \<in> set ks. uncollided E b k" and "k' \<notin> set ks"
  shows "cache_Get E (b_cache (fold (cacheDelete E nd) ks b)) k' = cache_Get E (b_cache b) k'"
    and "(k', ts) \<in> set (b_metricKeyMap b) \<Longrightarrow>
      (k', ts) \<in> set (b_metricKeyMap (fold (cacheDelete E nd) ks b))"
proof -
  have "cache_Get E (b_cache (fold (cacheDelete E nd) ks b)) k' = cache_Get E (b_cache b) k' \<and>
      ((k', ts) \<in> set (b_metricKeyMap b) \<longrightarrow> (k', ts) \<in> set (b_metricKeyMap (fold (cacheDelete E nd) ks b)))"
    using assms(2,3)
  proof (induction ks arbitrary: b)
    case (Cons k ks)
    then show ?case
      using Cons.IH [of "cacheDelete E nd k b"] cacheDelete_other [OF assms(1), where b = b and k = k and k' = k' and nd = nd]
        cacheDelete_uncollided [OF assms(1)] by simp
  qed simp
  then show "cache_Get E (b_cache (fold (cacheDelete E nd) ks b)) k' = cache_Get E (b_cache b) k'"
    and "(k', ts) \<in> set (b_metricKeyMap b) \<Longrightarrow>
      (k', ts) \<in> set (b_metricKeyMap (fold (cacheDelete E nd) ks b))"
    by blast+
qed

lemma inv_hex_cache:
  assumes "buf_inv E b" and "\<And>k e. cache_Get E c k = Some e \<Longrightarrow> \<exists>tid. k = EncodeToString tid"
  shows "buf_inv E (b\<lparr>b_cache := c\<rparr>)"
proof -
  have "cache_Get E c k \<noteq> None \<Longrightarrow> \<not> isMetricKey k \<and> \<not> isLogKey k" for k
    using assms(2) [of k] hex_not_indexed by auto
  then show ?thesis using assms(1) by (simp add: inv_except_def)
qed

lemma trace_buffer_inv: "buf_inv trace_env trace_buffer"
  unfolding trace_env_def trace_buffer_def
  by (rule inv_hex_cache [OF empty_buffer_inv]) (auto simp: buf_example_def split: if_splits)

text \<open>
  Removing a trace removes its spans and its logs, which share one cache entry, and nothing of
  any other trace; no cached key may have the same hash.
\<close>

theorem RemoveTrace_removes_both:
  assumes "cache_ok E" and "btree_ok E" and "buf_inv E b" and "uncollided E b (EncodeToString tid)"
  shows "GetTrace E (RemoveTrace E nd b tid) tid = None \<and>
    GetTraceLogs E (RemoveTrace E nd b tid) tid = None \<and>
    (\<forall>tid'. tid' \<noteq> tid \<longrightarrow>
      GetTrace E (RemoveTrace E nd b tid) tid' = GetTrace E b tid' \<and>
      GetTraceLogs E (RemoveTrace E nd b tid) tid' = GetTraceLogs E b tid')"
proof -
  have "cache_ok E \<and> btree_ok E \<and> buf_inv E b" using assms by blast
  note gone = mem.RemoveTrace_trace [OF this, of nd tid] mem.RemoveTrace_logs [OF this, of nd tid]
  have "cache_Get E (b_cache (RemoveTrace E nd b tid)) (EncodeToString tid') =
      cache_Get E (b_cache b) (EncodeToString tid')" if "tid' \<noteq> tid" for tid'
    unfolding RemoveTrace_def using that by (intro cacheDelete_other(1) [OF assms(1,4)]) simp
  with gone show ?thesis by (simp add: inMemoryManager_def GetTrace_def GetTraceLogs_def)
qed

theorem RemoveTrace_removes_both_witness:
  "traceOf trace_env trace_buffer tidA \<noteq> [] \<and>
   GetTrace trace_env (RemoveTrace trace_env (nd_example 6 ''v'') trace_buffer tidA) tidA = None"
proof
  show "traceOf trace_env trace_buffer tidA \<noteq> []" using trace_buffer_holds by auto
  show "GetTrace trace_env (RemoveTrace trace_env (nd_example 6 ''v'') trace_buffer tidA) tidA = None"
    using RemoveTrace_removes_both [of trace_env trace_buffer tidA "nd_example 6 ''v''"] trace_buffer_inv
    by (simp add: trace_env_def buf_example_laws uncollided_def buf_example_collide)
qed

text \<open>
  Removing the metrics of a window leaves none in it, and keeps every metric outside of it,
  indexed and readable as before; no cached key may have the hash of a removed one.
\<close>

theorem RemoveMetricsInRange_exact:
  assumes "cache_ok E" and "btree_ok E" and "buf_inv E b"
    and "\<forall>tk \<in> set (indexRange E (b_metricTimeIndex b) s e). uncollided E b (tk_Key tk)"
    and "UnixNano e \<noteq> 2 ^ 63 - 1"
  shows "GetMetricsInRange E (RemoveMetricsInRange E nd b s e) s e = [] \<and>
    (\<forall>k ts. (k, ts) \<in> set (b_metricKeyMap b) \<longrightarrow> \<not> in_window s e (TimeKey ts k) \<longrightarrow>
      (k, ts) \<in> set (b_metricKeyMap (RemoveMetricsInRange E nd b s e)) \<and>
      metricAt E (RemoveMetricsInRange E nd b s e) (TimeKey ts k) = metricAt E b (TimeKey ts k))"
proof -
  have "cache_ok E \<and> btree_ok E \<and> buf_inv E b" using assms by blast
  note gone = mem.RemoveMetrics_gone [OF this, of nd s e]
  note idx = inv_idx(1) [OF assms(3), unfolded idx_ok_def]
  let ?ks = "map tk_Key (indexRange E (b_metricTimeIndex b) s e)"
  have "k \<notin> set ?ks" if "(k, ts) \<in> set (b_metricKeyMap b)" "\<not> in_window s e (TimeKey ts k)" for k ts
  proof
    assume "k \<in> set ?ks"
    then obtain ts' where "in_window s e (TimeKey ts' k)" "(k, ts') \<in> set (b_metricKeyMap b)"
      using idx indexRange_window [OF assms(2) _ assms(5), of "b_metricTimeIndex b" s] by force
    moreover from this(2) have "ts' = ts" using that(1) idx eq_key_imp_eq_value by metis
    ultimately show False using that(2) by simp
  qed
  moreover have "\<forall>k \<in> set ?ks. uncollided E b k" using assms(4) by simp
  ultimately have other: "(k, ts) \<in> set (b_metricKeyMap (fold (cacheDelete E nd) ?ks b)) \<and>
      cache_Get E (b_cache (fold (cacheDelete E nd) ?ks b)) k = cache_Get E (b_cache b) k"
    if "(k, ts) \<in> set (b_metricKeyMap b)" "\<not> in_window s e (TimeKey ts k)" for k ts
    using cacheDeletes_other [OF assms(1)] that by blast
  have "(k, ts) \<in> set (b_metricKeyMap (RemoveMetricsInRange E nd b s e)) \<and>
      metricAt E (RemoveMetricsInRange E nd b s e) (TimeKey ts k) = metricAt E b (TimeKey ts k)"
    if "(k, ts) \<in> set (b_metricKeyMap b)" "\<not> in_window s e (TimeKey ts k)" for k ts
    using other [OF that]
    by (simp add: RemoveMetricsInRange_def metricAt_def)
  with gone show ?thesis by (simp add: inMemoryManager_def)
qed

theorem RemoveMetricsInRange_exact_witness:
  "length (GetMetricsInRange metric_env metric_buffer 0 10) = 1 \<and>
   GetMetricsInRange metric_env (RemoveMetricsInRange metric_env (nd_example 6 ''v'') metric_buffer 0 10) 0 10 = []"
proof
  have "buf_inv metric_env metric_buffer"
    by (rule buf_reachable_inv [OF metric_env_laws(1,2) _ _ _ metric_buffer_reachable])
       (simp_all add: metric_env_def buf_example_def)
  from RemoveMetricsInRange_exact [OF metric_env_laws(1,2) this, of 0 10 "nd_example 6 ''v''"]
  show "GetMetricsInRange metric_env (RemoveMetricsInRange metric_env (nd_example 6 ''v'') metric_buffer 0 10) 0 10 = []"
    by (simp add: UnixNano_def uncollided_def, simp add: metric_env_def buf_example_collide)
qed code_simp

subsection \<open>Evictions\<close>

definition evictedSignals :: "('c, 't) bufenv \<Rightarrow> nondet \<Rightarrow> callback list \<Rightarrow> Signal list" where
  "evictedSignals E nd evs =
     List.map_filter (\<lambda>(k, e, r). evictedSignal E (nd_nowAt nd k) k e) evs"

lemma withCallbacks_chan:
  assumes "\<And>k e r. (k, e, r) \<in> set evs \<Longrightarrow> r \<noteq> Deleted"
  shows "b_evictedChan (withCallbacks E nd c evs b) = fold trySend (evictedSignals E nd evs) (b_evictedChan b)"
proof -
  have clean: "b_evictedChan (cleanupIndex E k b') = b_evictedChan b'" for k b'
    by (simp add: cleanupIndex_def split: option.split)
  have step: "r \<noteq> Deleted \<Longrightarrow> b_evictedChan (onCacheEvictionWithReason E nd (k, e, r) b') =
      fold trySend (evictedSignals E nd [(k, e, r)]) (b_evictedChan b')" for k e r b'
    by (cases r; cases "evictedSignal E (nd_nowAt nd k) k e")
       (simp_all add: onCacheEvictionWithReason.simps Let_def clean evictedSignals_def map_filter_simps)
  have app: "evictedSignals E nd (ev # evs') = evictedSignals E nd [ev] @ evictedSignals E nd evs'" for ev evs'
    by (simp add: evictedSignals_def map_filter_simps split: option.split)
  have "b_evictedChan (fold (onCacheEvictionWithReason E nd) evs b') =
      fold trySend (evictedSignals E nd evs) (b_evictedChan b')" for b'
    using assms
  proof (induction evs arbitrary: b')
    case (Cons ev evs)
    obtain k e r where ev: "ev = (k, e, r)" by (cases ev)
    have "r \<noteq> Deleted" by (rule Cons.prems [of k e]) (simp add: ev)
    then have "b_evictedChan (onCacheEvictionWithReason E nd ev b') =
        fold trySend (evictedSignals E nd [ev]) (b_evictedChan b')"
      unfolding ev by (rule step)
    moreover have "b_evictedChan (fold (onCacheEvictionWithReason E nd) evs (onCacheEvictionWithReason E nd ev b')) =
        fold trySend (evictedSignals E nd evs) (b_evictedChan (onCacheEvictionWithReason E nd ev b'))"
      by (rule Cons.IH, rule Cons.prems [OF list.set_intros(2)])
    ultimately show ?case by (simp add: app [of ev evs])
  qed (simp add: evictedSignals_def map_filter_simps)
  then show ?thesis by (simp add: withCallbacks_def)
qed

text \<open>
  C24: When entries expire, every metric and every time-bound log among them is decoded and offered
  to the channel of evicted signals, in the order of the evictions; as many fit as the channel has
  free places, and the rest is dropped.
\<close>

theorem expired_signals_reach_channel:
  assumes "cache_ok E" and "btree_ok E" and "buf_inv E b" and "cache_Clean E (b_cache b) = (c, evs)"
  shows "chanQueue (b_evictedChan (cacheClean E nd b)) = chanQueue (b_evictedChan b) @
    take (1000 - length (chanQueue (b_evictedChan b))) (evictedSignals E nd evs)"
proof -
  have ch: "chan_ok (b_evictedChan b)" "chanCap (b_evictedChan b) = 1000"
    using assms(3) by (simp_all add: inv_except_def)
  have "(k, e, r) \<in> set evs \<Longrightarrow> r \<noteq> Deleted" for k e r
    using cache_clean_okD(2) [OF assms(1,4), of k e r] by auto
  then have "b_evictedChan (cacheClean E nd b) = fold trySend (evictedSignals E nd evs) (b_evictedChan b)"
    unfolding cacheClean_def assms(4) prod.case by (rule withCallbacks_chan)
  then show ?thesis using chan.sends_items [OF ch(1)] ch(2) by simp
qed

theorem expired_signals_reach_channel_witness:
  "chanQueue (b_evictedChan (cacheClean metric_env (nd_example 40 ''v'') metric_buffer)) =
     [SigMetric \<lparr>ms_Metrics = [metrics_example [] [metric_example ''cpu'' MetricEmpty]], ms_Ctx = ctxAt 40\<rparr>]"
proof -
  have inv: "buf_inv metric_env metric_buffer"
    by (rule buf_reachable_inv [OF metric_env_laws(1,2) _ _ _ metric_buffer_reachable])
       (simp_all add: metric_env_def buf_example_def)
  have "cache_Clean metric_env (b_cache metric_buffer) = ([], [(''m_5_u'', [1], Expired)])" by code_simp
  from expired_signals_reach_channel [OF metric_env_laws(1,2) inv this, of "nd_example 40 ''v''"]
  have "chanQueue (b_evictedChan (cacheClean metric_env (nd_example 40 ''v'') metric_buffer)) =
      chanQueue (b_evictedChan metric_buffer) @ take (1000 - length (chanQueue (b_evictedChan metric_buffer)))
        (evictedSignals metric_env (nd_example 40 ''v'') [(''m_5_u'', [1], Expired)])" .
  moreover have "chanQueue (b_evictedChan metric_buffer) = []" by code_simp
  moreover have "evictedSignals metric_env (nd_example 40 ''v'') [(''m_5_u'', [1], Expired)] =
      [SigMetric \<lparr>ms_Metrics = [metrics_example [] [metric_example ''cpu'' MetricEmpty]], ms_Ctx = ctxAt 40\<rparr>]"
    by code_simp
  ultimately show ?thesis by simp
qed

text \<open>
  C35: A trace that the cache evicts is lost: when the entries evicted by a write are traces, the
  channel of evicted signals is as before, so nothing of their spans and logs is rolled up, and
  the buffer no longer finds them.
\<close>

theorem evicted_traces_are_lost:
  assumes "cache_ok E" and "cache_Set E (b_cache b) key data = (c, evs, err)"
    and "\<forall>ev \<in> set evs. \<exists>tid. fst ev = EncodeToString tid"
  shows "b_evictedChan (fst (cacheSet E nd key data b)) = b_evictedChan b \<and>
    (\<forall>tid. EncodeToString tid \<in> fst ` set evs \<longrightarrow>
      GetTrace E (fst (cacheSet E nd key data b)) tid = None \<and>
      GetTraceLogs E (fst (cacheSet E nd key data b)) tid = None)"
proof -
  note laws = cache_set_okD(5) [OF assms(1,2)]
  have "evictedSignals E nd evs = []"
    unfolding evictedSignals_def map_filter_Nil_iff
  proof
    fix ev assume "ev \<in> set evs"
    with assms(3) obtain tid e r where "ev = (EncodeToString tid, e, r)" by (metis prod.collapse)
    then show "(case ev of (k, e, r) \<Rightarrow> evictedSignal E (nd_nowAt nd k) k e) = None"
      using hex_not_indexed [of tid] by (simp add: evictedSignal_def)
  qed
  moreover have "b_evictedChan (withCallbacks E nd c evs b) = fold trySend (evictedSignals E nd evs) (b_evictedChan b)"
    by (rule withCallbacks_chan) (use laws in blast)
  moreover have "cache_Get E c (EncodeToString tid) = None" if "EncodeToString tid \<in> fst ` set evs" for tid
    using that laws by force
  ultimately show ?thesis
    by (simp add: cacheSet_def assms(2) GetTrace_def GetTraceLogs_def)
qed

definition full_env :: exampleEnv where
  "full_env = trace_env\<lparr>cache_Set := cacheSet_example 1\<rparr>"

theorem evicted_traces_are_lost_witness:
  "GetTrace full_env trace_buffer tidA \<noteq> None \<and>
   (let b' = fst (cacheSet full_env (nd_example 6 ''v'') (EncodeToString tidB) [7] trace_buffer) in
    GetTrace full_env b' tidA = None \<and> chanQueue (b_evictedChan b') = [])"
proof -
  have env: "full_env = buf_example 1 [[wrapped tidA StatusCodeOk],
     [wrapped tidA StatusCodeOk, wrapped tidA StatusCodeError],
     [wrapped tidB StatusCodeOk], [wrapped tidB StatusCodeOk, wrapped tidB StatusCodeOk]] [] []"
    by (simp add: full_env_def trace_env_def buf_example_def)
  have ok: "cache_ok full_env" by (simp add: env buf_example_laws)
  obtain e where e: "b_cache trace_buffer = [(EncodeToString tidA, e)]" by (simp add: trace_buffer_def)
  have "EncodeToString tidA \<noteq> EncodeToString tidB" by (simp add: tidA_def tidB_def)
  then have "cache_Set full_env (b_cache trace_buffer) (EncodeToString tidB) [7] =
      ([(EncodeToString tidB, [7])], [(EncodeToString tidA, e, NoSpace)], None)"
    by (simp add: full_env_def e cacheSet_example_def)
  from evicted_traces_are_lost [OF ok this, of "nd_example 6 ''v''"]
  have "b_evictedChan (fst (cacheSet full_env (nd_example 6 ''v'') (EncodeToString tidB) [7] trace_buffer)) =
      b_evictedChan trace_buffer \<and>
    GetTrace full_env (fst (cacheSet full_env (nd_example 6 ''v'') (EncodeToString tidB) [7] trace_buffer)) tidA = None"
    by auto
  moreover have "GetTrace full_env trace_buffer tidA \<noteq> None" by code_simp
  ultimately show ?thesis by (simp add: Let_def, simp add: trace_buffer_def buffer_New_def makeChan_def)
qed

end
