(* ===== verification/Sampling.thy ===== *)
theory Sampling
  imports Processor BufferProps
begin

text \<open>
  The processor on the buffer and the exporter of the repository: the locale
  \<open>processor_env\<close> is interpreted on \<open>inMemoryManager\<close> and \<open>otlpExporter\<close>, and the
  properties of sampling and of the periodic rollup follow.
\<close>

interpretation proc: processor_env "inMemoryManager E nd" "\<lambda>b. cache_ok E \<and> btree_ok E \<and> buf_inv E b"
    "otlpExporter R" "rpc_sent R" "\<lambda>x. rpc_ok R \<and> rpc_up R x" P
  for E :: "('c, 't) bufenv" and nd and R :: "'x rpc" and P
  by unfold_locales

type_synonym ('c, 't, 'x) Sampler = "(('c, 't) InMemoryBuffer, 'x) Processor"

abbreviation decide :: "('c, 't) bufenv \<Rightarrow> nondet \<Rightarrow> 'x rpc \<Rightarrow> SamplingDecision \<Rightarrow>
    ('c, 't, 'x) Sampler \<Rightarrow> ('c, 't, 'x) Sampler" where
  "decide E nd R d p \<equiv> processDecision (be_pd E) (inMemoryManager E nd) (otlpExporter R) d p"

abbreviation rollup :: "('c, 't) bufenv \<Rightarrow> nondet \<Rightarrow> 'x rpc \<Rightarrow> time \<Rightarrow>
    ('c, 't, 'x) Sampler \<Rightarrow> ('c, 't, 'x) Sampler res" where
  "rollup E nd R now p \<equiv> performRollup (be_pd E) (inMemoryManager E nd) (otlpExporter R) now p"

lemmas mgr_sel = inMemoryManager_def BufferManager.simps

lemma spans_of_label [simp]: "spans_of (addProcessingLabelToTraces P t) = spans_of t"
  by (induction t) (simp_all add: addProcessingLabelToTraces_def spans_of_def)

lemma metricsTotal_label [simp]: "metricsTotal P (addProcessingLabelToMetrics P m) = metricsTotal P m"
  by (simp add: metricsTotal_def addProcessingLabelToMetrics_def resourceTotal_def [abs_def] comp_def)

subsection \<open>Sampling decisions\<close>

text \<open>
  C19: Acting on a decision takes its data out of the buffer: afterwards the buffer holds neither
  the trace the decision names nor any metric or time-bound log of the window of five seconds
  around its event, and the buffer's invariant still holds.  This is so whether or not the
  exports succeed: nothing is kept for a retry.
\<close>

theorem decision_consumes_trace_and_window:
  assumes "cache_ok E" and "btree_ok E" and "buf_inv E (pr_buffer p)"
    and "decisionTraceID d = Some tid"
  shows "GetTrace E (pr_buffer (decide E nd R d p)) tid = None \<and>
    GetMetricsInRange E (pr_buffer (decide E nd R d p)) (windowStart d) (windowEnd d) = [] \<and>
    GetLogsInRange E (pr_buffer (decide E nd R d p)) (windowStart d) (windowEnd d) = [] \<and>
    buf_inv E (pr_buffer (decide E nd R d p))"
proof -
  have inv: "cache_ok E \<and> btree_ok E \<and> buf_inv E (pr_buffer p)" using assms by blast
  note clears = proc.processDecision_clears [OF inv assms(4), where P = "be_pd E" and nd = nd and X = "otlpExporter R"]
  have "buf_inv E (pr_buffer (decide E nd R d p))"
    using proc.processDecision_binv [OF inv] by blast
  with clears show ?thesis by (simp add: mgr_sel)
qed

text \<open>
  C18: When the trace of a decision is in the buffer and the backend is up, what is exported is,
  in this order: the spans of the trace, all of them, in resource groups that carry the processing
  label; the metrics of the window, if there are any, in one request; the time-bound logs of the
  window, if there are any, in one request.  The logs that are bound to the trace are not among
  them: they are removed from the buffer together with the trace before they are looked up.
\<close>

theorem sampled_trace_exported_without_its_logs:
  assumes "cache_ok E" and "btree_ok E" and "buf_inv E (pr_buffer p)"
    and "rpc_ok R" and "rpc_up R (pr_exporter p)"
    and "decisionTraceID d = Some tid" and "GetTrace E (pr_buffer p) tid = Some trace"
  shows "\<exists>traces b1 b2. spans_of traces = spans_of (ts_Traces trace) \<and>
    b1 = RemoveTrace E nd (pr_buffer p) tid \<and>
    (b2 = b1 \<or> b2 = RemoveMetricsInRange E nd b1 (windowStart d) (windowEnd d)) \<and>
    GetTraceLogs E b1 tid = None \<and>
    rpc_sent R (pr_exporter (decide E nd R d p)) = rpc_sent R (pr_exporter p) @ [OutTraces traces] @
      metricsOut (be_pd E) (inMemoryManager E nd) b1 (windowStart d) (windowEnd d) @
      logsOut (be_pd E) (inMemoryManager E nd) b2 (windowStart d) (windowEnd d)"
proof -
  have inv: "cache_ok E \<and> btree_ok E \<and> buf_inv E (pr_buffer p)" "rpc_ok R \<and> rpc_up R (pr_exporter p)"
    using assms by blast+
  have "bm_GetTrace (inMemoryManager E nd) (pr_buffer p) tid = Some trace" using assms(7) by (simp add: mgr_sel)
  note sent = proc.processDecision_sent [OF inv assms(6) this, where P = "be_pd E"]
  have "GetTraceLogs E (RemoveTrace E nd (pr_buffer p) tid) tid = None" by (rule RemoveTrace_gone(2) [OF assms(1)])
  with sent show ?thesis
    by (intro exI [of _ "addProcessingLabelToTraces (be_pd E) (ts_Traces trace)"]) (simp add: mgr_sel)
qed

text \<open>A processor whose buffer holds a span and a log record of \<open>tidA\<close>, and the decision for it.\<close>

definition sampled_env :: exampleEnv where
  "sampled_env = buf_example 8 [[wrapped tidA StatusCodeError]] [[resource_logs [log_record tidA]]] []"

definition sampled_buffer :: exampleBuffer where
  "sampled_buffer = empty_buffer\<lparr>b_cache := [(EncodeToString tidA,
     gobEncode_example \<lparr>st_ReceivedAt = 5, st_TracesData = [1], st_LogsData = [1]\<rparr>)]\<rparr>"

definition sampled_proc :: "(exampleBuffer, Export list) Processor" where
  "sampled_proc = processor_New sampled_buffer (rollup_example LevelFine) [] None"

definition decision_A :: SamplingDecision where
  "decision_A = \<lparr>sd_TraceID = EncodeToString tidA, sd_Reason = ''error'', sd_DecidedAt = 0, sd_DecidedBy = [],
     sd_EventStart = 1000, sd_EventEnd = 2000\<rparr>"

lemma sampled_laws:
  "cache_ok sampled_env" "btree_ok sampled_env" "codec_ok sampled_env" "buf_inv sampled_env sampled_buffer"
  "decisionTraceID decision_A = Some tidA"
proof -
  show "buf_inv sampled_env sampled_buffer"
    unfolding sampled_env_def sampled_buffer_def
    by (rule inv_hex_cache [OF empty_buffer_inv]) (auto simp: buf_example_def split: if_splits)
  show "decisionTraceID decision_A = Some tidA"
    by (simp add: decisionTraceID_def decision_A_def DecodeString_EncodeToString, simp add: tidA_def)
qed (simp_all add: sampled_env_def buf_example_laws)

lemma sampled_reads:
  "GetTrace sampled_env sampled_buffer tidA =
     Some \<lparr>ts_Traces = [wrapped tidA StatusCodeError], ts_Ctx = ctxAt 5\<rparr>"
  "GetTraceLogs sampled_env sampled_buffer tidA =
     Some \<lparr>ls_Logs = [resource_logs [log_record tidA]], ls_Ctx = ctxAt 5\<rparr>"
  by (simp_all add: GetTrace_def GetTraceLogs_def sampled_env_def sampled_buffer_def buf_example_def
      gob_roundtrip tableUnmarshal_def UnixNsec_def)

theorem decision_consumes_trace_and_window_witness:
  "GetTrace sampled_env (pr_buffer sampled_proc) tidA \<noteq> None \<and>
   GetTrace sampled_env (pr_buffer (decide sampled_env (nd_example 9 ''u'') rpc_example decision_A sampled_proc)) tidA = None"
  using decision_consumes_trace_and_window [OF sampled_laws(1,2) _ sampled_laws(5), of sampled_proc
      "nd_example 9 ''u''" rpc_example] sampled_laws(4) sampled_reads(1)
  by (simp add: sampled_proc_def processor_New_def)

theorem sampled_trace_exported_without_its_logs_witness:
  "GetTraceLogs sampled_env (pr_buffer sampled_proc) tidA \<noteq> None \<and>
   (\<exists>traces. pr_exporter (decide sampled_env (nd_example 9 ''u'') rpc_example decision_A sampled_proc) =
     [OutTraces traces] \<and> spans_of traces = [span_example tidA StatusCodeError])"
proof
  let ?nd = "nd_example 9 ''u''" and ?M = "inMemoryManager sampled_env (nd_example 9 ''u'')"
  let ?a = "windowStart decision_A" and ?b = "windowEnd decision_A"
  show "GetTraceLogs sampled_env (pr_buffer sampled_proc) tidA \<noteq> None"
    by (simp add: sampled_proc_def processor_New_def sampled_reads)
  have p: "pr_buffer sampled_proc = sampled_buffer" "pr_exporter sampled_proc = []"
    by (simp_all add: sampled_proc_def processor_New_def)
  have up: "rpc_up rpc_example (pr_exporter sampled_proc)" by (simp add: rpc_example_def)
  have idx: "b_metricTimeIndex (RemoveTrace sampled_env ?nd sampled_buffer tidA) = []"
    "b_logTimeIndex (RemoveTrace sampled_env ?nd sampled_buffer tidA) = []"
    by code_simp+
  have no: "GetMetricsInRange sampled_env (RemoveTrace sampled_env ?nd sampled_buffer tidA) ?a ?b = []"
    "GetLogsInRange sampled_env (RemoveTrace sampled_env ?nd sampled_buffer tidA) ?a ?b = []"
    "RemoveMetricsInRange sampled_env ?nd (RemoveTrace sampled_env ?nd sampled_buffer tidA) ?a ?b =
      RemoveTrace sampled_env ?nd sampled_buffer tidA"
    unfolding GetMetricsInRange_def GetLogsInRange_def RemoveMetricsInRange_def idx
    by (simp_all add: indexRange_def sampled_env_def buf_example_def map_filter_simps)
  from sampled_trace_exported_without_its_logs [OF sampled_laws(1,2) _ rpc_example_ok up sampled_laws(5),
      of "\<lparr>ts_Traces = [wrapped tidA StatusCodeError], ts_Ctx = ctxAt 5\<rparr>" ?nd]
  show "\<exists>traces. pr_exporter (decide sampled_env ?nd rpc_example decision_A sampled_proc) =
     [OutTraces traces] \<and> spans_of traces = [span_example tidA StatusCodeError]"
    using sampled_laws(4) sampled_reads(1) no
    by (auto simp: p metricsOut_def logsOut_def mgr_sel rpc_example_def wrapped_def traces_example_def spans_of_def)
qed

subsection \<open>The periodic rollup\<close>

text \<open>The sum of the integer data points in what was sent.\<close>

fun exportTotal :: "pdata \<Rightarrow> Export \<Rightarrow> int64" where
  "exportTotal P (OutMetrics m) = metricsTotal P m"
| "exportTotal P e = 0"

text \<open>The metrics a rollup at \<open>now\<close> works on.\<close>

definition rollupInput :: "('c, 't) bufenv \<Rightarrow> time \<Rightarrow> ('c, 't, 'x) Sampler \<Rightarrow> MetricSignal list" where
  "rollupInput E now p = GetMetricsInRange E (pr_buffer p) zeroTime (rollupEnd now) @ pr_evictedMetrics p"

text \<open>
  C20: The periodic rollup loses nothing of integer metrics: the data points that it exports add up
  to the data points that were in the buffer and older than ten seconds, and those that had been
  evicted since the last rollup.
\<close>

theorem rollup_conserves_metrics:
  assumes "cache_ok E" and "btree_ok E" and "buf_inv E (pr_buffer p)" and "rollup_laws (be_pd E)"
    and "rpc_ok R" and "rpc_up R (pr_exporter p)"
    and "\<forall>sig \<in> set (rollupInput E now p). \<forall>rm \<in> set (ms_Metrics sig). resource_src rm"
    and "rollup E nd R now p = Inr p'"
  shows "sum_list (map (exportTotal (be_pd E)) (rpc_sent R (pr_exporter p'))) =
    sum_list (map (exportTotal (be_pd E)) (rpc_sent R (pr_exporter p))) +
    sum_list (map (\<lambda>sig. metricsTotal (be_pd E) (ms_Metrics sig)) (rollupInput E now p))"
proof -
  have inv: "cache_ok E \<and> btree_ok E \<and> buf_inv E (pr_buffer p)" "rpc_ok R \<and> rpc_up R (pr_exporter p)"
    using assms by blast+
  note sent = proc.performRollup_sent [OF inv assms(8)]
  have "bm_GetMetricsInRange (inMemoryManager E nd) (pr_buffer p) zeroTime (rollupEnd now) @ pr_evictedMetrics p
      = rollupInput E now p"
    by (simp add: rollupInput_def mgr_sel)
  with sent obtain outM outL where out: "rpc_sent R (pr_exporter p') = rpc_sent R (pr_exporter p) @ outM @ outL"
    "rollupInput E now p = [] \<and> outM = [] \<or>
     (\<exists>rolled. RollupMetrics (be_pd E) (pr_rollup p) (rollupInput E now p) = Inr rolled \<and>
        outM = [OutMetrics (addProcessingLabelToMetrics (be_pd E) rolled)])"
    "outL = [] \<or> (\<exists>l. outL = [OutLogs l])"
    by auto
  have "sum_list (map (exportTotal (be_pd E)) outM) =
      sum_list (map (\<lambda>sig. metricsTotal (be_pd E) (ms_Metrics sig)) (rollupInput E now p))"
    using out(2) RollupMetrics_total [OF assms(4,7)] by auto
  moreover have "sum_list (map (exportTotal (be_pd E)) outL) = 0" using out(3) by auto
  ultimately show ?thesis by (simp add: out(1))
qed

definition rollup_proc :: "(exampleBuffer, Export list) Processor" where
  "rollup_proc = (processor_New metric_buffer (rollup_example LevelCoarse) [] None)
     \<lparr>pr_evictedMetrics := sums_example\<rparr>"

lemma metric_buffer_inv: "buf_inv metric_env metric_buffer"
  by (rule buf_reachable_inv [OF metric_env_laws(1,2) _ _ _ metric_buffer_reachable])
     (simp_all add: metric_env_def buf_example_def)

theorem rollup_conserves_metrics_witness:
  "\<exists>p'. rollup metric_env (nd_example 9 ''v'') rpc_example 10000000004 rollup_proc = Inr p' \<and>
     sum_list (map (exportTotal pdata_example) (pr_exporter p')) = 7"
proof -
  let ?r = "rollup metric_env (nd_example 9 ''v'') rpc_example 10000000004 rollup_proc"
  have "\<not> isl ?r" by code_simp
  then obtain p' where p': "?r = Inr p'" by (metis isl_def sum.exhaust)
  have input: "rollupInput metric_env 10000000004 rollup_proc = sums_example" by code_simp
  have pd: "be_pd metric_env = pdata_example" by (simp add: metric_env_def buf_example_def)
  have "\<forall>sig \<in> set sums_example. \<forall>rm \<in> set (ms_Metrics sig). resource_src rm"
    by (simp add: sums_example_def rollup_example_defs resource_src_def scope_src_def
          metric_src_def dp_int_def dp_distinct_def)
  moreover have "rpc_up rpc_example (pr_exporter rollup_proc)" "rpc_sent rpc_example x = x" for x
    by (simp_all add: rpc_example_def)
  moreover have "pr_buffer rollup_proc = metric_buffer" "pr_exporter rollup_proc = []"
    by (simp_all add: rollup_proc_def processor_New_def)
  ultimately have "sum_list (map (exportTotal pdata_example) (pr_exporter p')) =
      sum_list (map (\<lambda>sig. metricsTotal pdata_example (ms_Metrics sig)) sums_example)"
    using rollup_conserves_metrics [OF metric_env_laws(1,2) _ _ rpc_example_ok _ _ p'] metric_buffer_inv
    by (simp add: input pd)
  also have "\<dots> = 7"
    by (simp add: sums_example_def rollup_example_defs metricsTotal_def resourceTotal_def
          scopeTotal_def metricTotal_def dpInt_def pdata_example_def)
  finally show ?thesis using p' by blast
qed

text \<open>
  After a rollup no metric remains in the buffer that arrived more than ten seconds before it
  (and after 1754, the year that the zero time wraps around to), and nothing remains of what had
  been evicted before: every metric is exported by the first rollup that finds it ten seconds old,
  or was evicted before that.
\<close>

theorem rollup_leaves_only_recent_metrics:
  assumes "cache_ok E" and "btree_ok E" and "buf_inv E (pr_buffer p)"
    and "rollup E nd R now p = Inr p'" and "window_around 0 0 (now - 10000000000)"
    and "(k, ts) \<in> set (b_metricKeyMap (pr_buffer p'))"
    and "metricAt E (pr_buffer p') (TimeKey ts k) \<noteq> None"
  shows "(now - 10000000000 < sint ts \<or> sint ts < - 6795364578871345152) \<and> pr_evictedMetrics p' = []"
proof -
  have inv: "cache_ok E \<and> btree_ok E \<and> buf_inv E (pr_buffer p)" using assms by blast
  note cleared = proc.performRollup_clears [OF inv assms(4)]
  have "sint (- 10 * Second) = - 10000000000" by (simp add: Second_def)
  then have en: "rollupEnd now = now - 10000000000" by (simp add: rollupEnd_def Add_def)
  have range: "nano_range (now - 10000000000)"
    using assms(5) by (simp add: window_around_def nano_range_def)
  have inv': "buf_inv E (pr_buffer p')" "pr_evictedMetrics p' = []"
    and none: "GetMetricsInRange E (pr_buffer p') zeroTime (rollupEnd now) = []"
    using cleared by (simp_all add: mgr_sel)
  note idx = inv_idx(1) [OF inv'(1), unfolded idx_ok_def]
  have "TimeKey ts k \<in> set (bt_items E (b_metricTimeIndex (pr_buffer p')))"
    using idx assms(6) by force
  moreover have "indexRange E (b_metricTimeIndex (pr_buffer p')) zeroTime (rollupEnd now) =
      filter (in_window zeroTime (rollupEnd now)) (bt_items E (b_metricTimeIndex (pr_buffer p')))"
    using window_around_facts(1) [OF assms(5)] idx by (intro indexRange_window [OF assms(2)]) (simp_all add: en)
  ultimately have "\<not> in_window zeroTime (rollupEnd now) (TimeKey ts k)"
    using none assms(7) by (auto simp: GetMetricsInRange_def map_filter_Nil_iff)
  then show ?thesis
    using inv'(2) by (auto simp: in_window_def sint_UnixNano_zeroTime en sint_UnixNano [OF range])
qed

theorem rollup_leaves_only_recent_metrics_witness:
  "\<exists>p'. rollup metric_env (nd_example 9 ''v'') rpc_example 10000000004 rollup_proc = Inr p' \<and>
     (''m_5_u'', 5) \<in> set (b_metricKeyMap (pr_buffer p')) \<and> pr_evictedMetrics p' = []"
proof -
  let ?r = "rollup metric_env (nd_example 9 ''v'') rpc_example 10000000004 rollup_proc"
  have "\<not> isl ?r" by code_simp
  then obtain p' where p': "?r = Inr p'" by (metis isl_def sum.exhaust)
  have "(''m_5_u'', 5) \<in> set (b_metricKeyMap (pr_buffer (projr ?r)))"
    "metricAt metric_env (pr_buffer (projr ?r)) (TimeKey 5 ''m_5_u'') \<noteq> None" by code_simp+
  then have found: "(''m_5_u'', 5) \<in> set (b_metricKeyMap (pr_buffer p'))"
    "metricAt metric_env (pr_buffer p') (TimeKey 5 ''m_5_u'') \<noteq> None"
    unfolding p' by simp_all
  have "window_around 0 0 (10000000004 - 10000000000)" by (simp add: window_around_def)
  moreover have "buf_inv metric_env (pr_buffer rollup_proc)"
    using metric_buffer_inv by (simp add: rollup_proc_def processor_New_def)
  ultimately have "pr_evictedMetrics p' = []"
    using rollup_leaves_only_recent_metrics [OF metric_env_laws(1,2) _ p' _ found] by blast
  with p' found show ?thesis by blast
qed

text \<open>
  C21: The periodic rollup completes, and does not panic, when no metric name is used with two
  types by the metrics it works on.
\<close>

theorem rollup_completes:
  assumes "\<forall>sig \<in> set (rollupInput E now p). \<forall>rm \<in> set (ms_Metrics sig). resource_kind kind rm"
  shows "\<exists>p'. rollup E nd R now p = Inr p'"
proof -
  have in_eq: "bm_GetMetricsInRange (inMemoryManager E nd) (pr_buffer p) zeroTime (rollupEnd now) @ pr_evictedMetrics p
      = rollupInput E now p"
    by (simp add: rollupInput_def mgr_sel)
  obtain rolled where "RollupMetrics (be_pd E) (pr_rollup p) (rollupInput E now p) = Inr rolled"
    using RollupMetrics_returns [OF assms] by blast
  then have "\<exists>p1. rollupMetrics (be_pd E) (inMemoryManager E nd) (otlpExporter R) zeroTime (rollupEnd now)
      (rollupInput E now p) (p\<lparr>pr_evictedMetrics := [], pr_evictedLogs := []\<rparr>) = Inr p1"
    by (simp add: rollupMetrics_def Let_def)
  then obtain p1 where "rollupMetrics (be_pd E) (inMemoryManager E nd) (otlpExporter R) zeroTime (rollupEnd now)
      (rollupInput E now p) (p\<lparr>pr_evictedMetrics := [], pr_evictedLogs := []\<rparr>) = Inr p1" ..
  moreover have "\<exists>p2. rollupLogs (be_pd E) (inMemoryManager E nd) (otlpExporter R) zeroTime (rollupEnd now) ls p1 = Inr p2" for ls
  proof -
    obtain rolled where "RollupLogs (be_pd E) (pr_rollup p1) ls = Inr rolled" using RollupLogs_no_panic by blast
    then show ?thesis by (simp add: rollupLogs_def Let_def)
  qed
  ultimately show ?thesis by (simp add: performRollup_def Let_def in_eq)
qed

theorem rollup_completes_witness:
  "\<exists>p'. rollup metric_env (nd_example 9 ''v'') rpc_example 10000000005 rollup_proc = Inr p'"
proof (rule rollup_completes [where kind = "\<lambda>name. if name = ''req'' then 2 else 0"])
  have "rollupInput metric_env 10000000005 rollup_proc =
      msignal_example [metrics_example [] [metric_example ''cpu'' MetricEmpty]]\<lparr>ms_Ctx := ctxAt 5\<rparr> # sums_example"
    by code_simp
  then show "\<forall>sig \<in> set (rollupInput metric_env 10000000005 rollup_proc). \<forall>rm \<in> set (ms_Metrics sig).
      resource_kind (\<lambda>name. if name = ''req'' then 2 else 0) rm"
    by (simp add: sums_example_def rollup_example_defs resource_kind_def scope_kind_def kind_ok_def)
qed

end
