(* ===== verification/Wal.thy ===== *)
theory Wal
  imports Gossip
begin

text \<open>
  The write-ahead log of \<open>internal/wal/manager.go\<close>: signals are marshalled into a
  \<open>pb.WALRecord\<close> and appended to a \<open>tidwall/wal\<close> log; \<open>Replay\<close> hands them back in
  order, \<open>TruncateBefore\<close> drops the oldest ones.

  The log library, Protobuf and the OTLP marshalers are the fields of the parameter
  \<open>walenv\<close>; their documented behaviour is \<open>wal_ok\<close> and \<open>walcodec_ok\<close>.  Indices, which
  Go keeps in 64 bits, are natural numbers: a log gets one per entry.
\<close>

subsection \<open>Records and the environment\<close>

datatype WALRecord_Type = WALRecord_TRACE | WALRecord_METRIC | WALRecord_LOG | WALRecord_unknown int

record WALRecord =
  wr_Type :: WALRecord_Type
  wr_Data :: bytes
  wr_Timestamp :: "Timestamp option"

record 'w walenv =
  wl_FirstIndex :: "'w \<Rightarrow> error + nat"
  wl_LastIndex :: "'w \<Rightarrow> error + nat"
  wl_Read :: "'w \<Rightarrow> nat \<Rightarrow> error + bytes"
  wl_Write :: "'w \<Rightarrow> nat \<Rightarrow> bytes \<Rightarrow> 'w \<times> error option"
  wl_TruncateFront :: "'w \<Rightarrow> nat \<Rightarrow> 'w \<times> error option"
  wl_base :: "'w \<Rightarrow> nat"  \<comment> \<open>index of the first entry; not called by the code\<close>
  wl_entries :: "'w \<Rightarrow> bytes list"  \<comment> \<open>the entries, oldest first; not called by the code\<close>
  wl_valid :: "'w \<Rightarrow> bool"  \<comment> \<open>open and not corrupt; not called by the code\<close>
  wl_Marshal :: "WALRecord \<Rightarrow> error + bytes"
  wl_Unmarshal :: "bytes \<Rightarrow> error + WALRecord"
  wl_New :: "time \<Rightarrow> Timestamp"
  wl_AsTime :: "Timestamp option \<Rightarrow> time"
  wl_MarshalTraces :: "Traces \<Rightarrow> bytes \<times> error option"
  wl_UnmarshalTraces :: "bytes \<Rightarrow> Traces \<times> error option"
  wl_MarshalMetrics :: "Metrics \<Rightarrow> bytes \<times> error option"
  wl_UnmarshalMetrics :: "bytes \<Rightarrow> Metrics \<times> error option"
  wl_MarshalLogs :: "Logs \<Rightarrow> bytes \<times> error option"
  wl_UnmarshalLogs :: "bytes \<Rightarrow> Logs \<times> error option"

text \<open>
  The log: entries at consecutive indices from \<open>FirstIndex\<close> to \<open>LastIndex\<close>, both \<open>0\<close> for
  an empty log.  A write must be for the next index; truncating at an index makes it the first,
  and at least one entry must remain: any other index is out of range.  Operations that fail
  change nothing.
\<close>

definition wal_ok :: "'w walenv \<Rightarrow> bool" where
  "wal_ok E \<longleftrightarrow> (\<forall>w. wl_valid E w \<longrightarrow>
     wl_FirstIndex E w = Inr (if wl_entries E w = [] then 0 else wl_base E w) \<and>
     wl_LastIndex E w = Inr (if wl_entries E w = [] then 0 else wl_base E w + length (wl_entries E w) - 1) \<and>
     (wl_entries E w \<noteq> [] \<longrightarrow> 0 < wl_base E w) \<and>
     isl (wl_Read E w 0) \<and>
     (\<forall>i < length (wl_entries E w). wl_Read E w (wl_base E w + i) = Inr (wl_entries E w ! i)) \<and>
     (\<forall>n d w' err. wl_LastIndex E w = Inr n \<longrightarrow> wl_Write E w (n + 1) d = (w', err) \<longrightarrow>
        wl_valid E w' \<and> wl_entries E w' = (if err = None then wl_entries E w @ [d] else wl_entries E w)) \<and>
     (\<forall>i w' err. wl_TruncateFront E w i = (w', err) \<longrightarrow>
        wl_valid E w' \<and>
        (wl_base E w \<le> i \<and> i < wl_base E w + length (wl_entries E w) \<longrightarrow>
           (if err = None then wl_entries E w' = drop (i - wl_base E w) (wl_entries E w) else w' = w)) \<and>
        (\<not> (wl_base E w \<le> i \<and> i < wl_base E w + length (wl_entries E w)) \<longrightarrow> w' = w \<and> err \<noteq> None)))"

definition walcodec_ok :: "'w walenv \<Rightarrow> bool" where
  "walcodec_ok E \<longleftrightarrow>
     (\<forall>r b. wl_Marshal E r = Inr b \<longrightarrow> wl_Unmarshal E b = Inr r) \<and>
     (\<forall>t. ts_range t \<longrightarrow> wl_AsTime E (Some (wl_New E t)) = t) \<and>
     (\<forall>t d. wl_MarshalTraces E t = (d, None) \<longrightarrow> wl_UnmarshalTraces E d = (t, None)) \<and>
     (\<forall>m d. wl_MarshalMetrics E m = (d, None) \<longrightarrow> wl_UnmarshalMetrics E d = (m, None)) \<and>
     (\<forall>l d. wl_MarshalLogs E l = (d, None) \<longrightarrow> wl_UnmarshalLogs E d = (l, None))"

subsection \<open>The operations\<close>

definition wal_Open :: "error option \<Rightarrow> error + 'w \<Rightarrow> error + 'w" where
  "wal_Open mkdirAll open =
     (case mkdirAll of
        Some err \<Rightarrow> Inl (''failed to create wal dir: '' @ err)
      | None \<Rightarrow> (case open of Inl err \<Rightarrow> Inl (''failed to open wal: '' @ err) | Inr l \<Rightarrow> Inr l))"

text \<open>\<open>Close\<close> closes the log, by \<open>close\<close> of the library.\<close>

definition wal_Close :: "('w \<Rightarrow> 'w \<times> error option) \<Rightarrow> 'w \<Rightarrow> 'w \<times> error option" where
  "wal_Close close l = close l"

text \<open>The type switch of \<open>Write\<close>: the record type, the data and the marshalling error.\<close>

fun walPayload :: "'w walenv \<Rightarrow> Signal \<Rightarrow> (WALRecord_Type \<times> bytes \<times> error option) option" where
  "walPayload E (SigTrace s) = Some (WALRecord_TRACE, wl_MarshalTraces E (ts_Traces s))"
| "walPayload E (SigMetric s) = Some (WALRecord_METRIC, wl_MarshalMetrics E (ms_Metrics s))"
| "walPayload E (SigLog s) = Some (WALRecord_LOG, wl_MarshalLogs E (ls_Logs s))"
| "walPayload E (OtherSignal t c) = None"

definition wal_Write :: "'w walenv \<Rightarrow> Signal \<Rightarrow> 'w \<Rightarrow> 'w \<times> error option" where
  "wal_Write E sig w =
     (case walPayload E sig of
        None \<Rightarrow> (w, Some ''unknown signal type'')
      | Some (ty, data, Some err) \<Rightarrow> (w, Some (''failed to marshal pdata: '' @ err))
      | Some (ty, data, None) \<Rightarrow>
          (case wl_Marshal E \<lparr>wr_Type = ty, wr_Data = data,
                              wr_Timestamp = Some (wl_New E (ReceivedAt (signal_Context sig)))\<rparr> of
             Inl err \<Rightarrow> (w, Some (''failed to marshal wal record: '' @ err))
           | Inr recordBytes \<Rightarrow>
               (case wl_LastIndex E w of
                  Inl err \<Rightarrow> (w, Some err)
                | Inr lastIndex \<Rightarrow> wl_Write E w (lastIndex + 1) recordBytes)))"

text \<open>The signal of one record, \<open>None\<close> where the loop of \<open>Replay\<close> goes on without one.\<close>

definition recordSignal :: "'w walenv \<Rightarrow> WALRecord \<Rightarrow> Signal option" where
  "recordSignal E r =
     (let ctx = ctxAt (wl_AsTime E (wr_Timestamp r)) in
      case wr_Type r of
        WALRecord_TRACE \<Rightarrow> (case wl_UnmarshalTraces E (wr_Data r) of
          (t, None) \<Rightarrow> Some (SigTrace \<lparr>ts_Traces = t, ts_Ctx = ctx\<rparr>) | (t, Some err) \<Rightarrow> None)
      | WALRecord_METRIC \<Rightarrow> (case wl_UnmarshalMetrics E (wr_Data r) of
          (m, None) \<Rightarrow> Some (SigMetric \<lparr>ms_Metrics = m, ms_Ctx = ctx\<rparr>) | (m, Some err) \<Rightarrow> None)
      | WALRecord_LOG \<Rightarrow> (case wl_UnmarshalLogs E (wr_Data r) of
          (l, None) \<Rightarrow> Some (SigLog \<lparr>ls_Logs = l, ls_Ctx = ctx\<rparr>) | (l, Some err) \<Rightarrow> None)
      | WALRecord_unknown n \<Rightarrow> None)"

definition entrySignal :: "'w walenv \<Rightarrow> bytes \<Rightarrow> Signal option" where
  "entrySignal E data =
     (case wl_Unmarshal E data of Inl err \<Rightarrow> None | Inr r \<Rightarrow> recordSignal E r)"

definition replayEntry :: "'w walenv \<Rightarrow> (Signal \<Rightarrow> 's \<Rightarrow> 's) \<Rightarrow> 'w \<Rightarrow> nat \<Rightarrow> 's \<Rightarrow> 's" where
  "replayEntry E fn w i s =
     (case wl_Read E w i of
        Inl err \<Rightarrow> s
      | Inr data \<Rightarrow> (case entrySignal E data of None \<Rightarrow> s | Some sig \<Rightarrow> fn sig s))"

definition Replay :: "'w walenv \<Rightarrow> (Signal \<Rightarrow> 's \<Rightarrow> 's) \<Rightarrow> 'w \<Rightarrow> 's \<Rightarrow> 's \<times> error option" where
  "Replay E fn w s =
     (case wl_FirstIndex E w of
        Inl err \<Rightarrow> (s, Some err)
      | Inr first \<Rightarrow>
          (case wl_LastIndex E w of
             Inl err \<Rightarrow> (s, Some err)
           | Inr lastI \<Rightarrow> (fold (replayEntry E fn w) [first..<lastI + 1] s, None)))"

text \<open>The scan of \<open>TruncateBefore\<close> over the remaining indices, with the index found so far.\<close>

fun truncateScan :: "'w walenv \<Rightarrow> time \<Rightarrow> 'w \<Rightarrow> nat list \<Rightarrow> nat \<Rightarrow> nat" where
  "truncateScan E t w [] idx = idx"
| "truncateScan E t w (i # is) idx =
     (case wl_Read E w i of
        Inl err \<Rightarrow> truncateScan E t w is idx
      | Inr data \<Rightarrow>
          (case wl_Unmarshal E data of
             Inl err \<Rightarrow> truncateScan E t w is idx
           | Inr r \<Rightarrow> if Before (wl_AsTime E (wr_Timestamp r)) t
                       then truncateScan E t w is i else idx))"

definition TruncateBefore :: "'w walenv \<Rightarrow> time \<Rightarrow> 'w \<Rightarrow> 'w \<times> error option" where
  "TruncateBefore E t w =
     (case wl_FirstIndex E w of
        Inl err \<Rightarrow> (w, Some err)
      | Inr first \<Rightarrow>
          (case wl_LastIndex E w of
             Inl err \<Rightarrow> (w, Some err)
           | Inr lastI \<Rightarrow>
               (let truncateIndex = truncateScan E t w [first..<lastI + 1] 0 in
                if truncateIndex > 0 then wl_TruncateFront E w (truncateIndex + 1) else (w, None))))"

subsection \<open>What the log holds\<close>

lemma wal_okD:
  assumes "wal_ok E" and "wl_valid E w"
  shows "wl_FirstIndex E w = Inr (if wl_entries E w = [] then 0 else wl_base E w)"
    and "wl_LastIndex E w = Inr (if wl_entries E w = [] then 0 else wl_base E w + length (wl_entries E w) - 1)"
    and "wl_entries E w \<noteq> [] \<Longrightarrow> 0 < wl_base E w"
    and "isl (wl_Read E w 0)"
    and "i < length (wl_entries E w) \<Longrightarrow> wl_Read E w (wl_base E w + i) = Inr (wl_entries E w ! i)"
    and "wl_LastIndex E w = Inr n \<Longrightarrow> wl_Write E w (n + 1) d = (w', err) \<Longrightarrow>
      wl_valid E w' \<and> wl_entries E w' = (if err = None then wl_entries E w @ [d] else wl_entries E w)"
  using assms unfolding wal_ok_def by blast+

lemma wal_ok_truncate:
  assumes "wal_ok E" and "wl_valid E w" and "wl_TruncateFront E w i = (w', err)"
  shows "wl_valid E w'"
    and "wl_base E w \<le> i \<Longrightarrow> i < wl_base E w + length (wl_entries E w) \<Longrightarrow>
      (if err = None then wl_entries E w' = drop (i - wl_base E w) (wl_entries E w) else w' = w)"
    and "\<not> (wl_base E w \<le> i \<and> i < wl_base E w + length (wl_entries E w)) \<Longrightarrow> w' = w \<and> err \<noteq> None"
proof -
  from assms(1,2) have "\<forall>i w' err. wl_TruncateFront E w i = (w', err) \<longrightarrow>
        wl_valid E w' \<and>
        (wl_base E w \<le> i \<and> i < wl_base E w + length (wl_entries E w) \<longrightarrow>
           (if err = None then wl_entries E w' = drop (i - wl_base E w) (wl_entries E w) else w' = w)) \<and>
        (\<not> (wl_base E w \<le> i \<and> i < wl_base E w + length (wl_entries E w)) \<longrightarrow> w' = w \<and> err \<noteq> None)"
    unfolding wal_ok_def by blast
  note law = this [rule_format, OF assms(3)]
  show "wl_valid E w'" by (rule law [THEN conjunct1])
  show "wl_base E w \<le> i \<Longrightarrow> i < wl_base E w + length (wl_entries E w) \<Longrightarrow>
      (if err = None then wl_entries E w' = drop (i - wl_base E w) (wl_entries E w) else w' = w)"
    by (rule law [THEN conjunct2, THEN conjunct1, rule_format]) (rule conjI)
  show "\<not> (wl_base E w \<le> i \<and> i < wl_base E w + length (wl_entries E w)) \<Longrightarrow> w' = w \<and> err \<noteq> None"
    by (rule law [THEN conjunct2, THEN conjunct2, rule_format])
qed

text \<open>The signals a replay hands out, oldest first.\<close>

definition logged :: "'w walenv \<Rightarrow> 'w \<Rightarrow> Signal list" where
  "logged E w = List.map_filter (entrySignal E) (wl_entries E w)"

lemma upt_read:
  assumes "wal_ok E" and "wl_valid E w" and "wl_entries E w \<noteq> []"
  shows "map (wl_Read E w) [wl_base E w..<wl_base E w + length (wl_entries E w)] = map Inr (wl_entries E w)"
proof (rule nth_equalityI)
  fix i assume "i < length (map (wl_Read E w) [wl_base E w..<wl_base E w + length (wl_entries E w)])"
  then have "i < length (wl_entries E w)" by simp
  then show "map (wl_Read E w) [wl_base E w..<wl_base E w + length (wl_entries E w)] ! i =
      map Inr (wl_entries E w) ! i"
    using wal_okD(5) [OF assms(1,2)] by simp
qed simp

lemma Replay_logged:
  assumes "wal_ok E" and "wl_valid E w"
  shows "Replay E fn w s = (fold fn (logged E w) s, None)"
proof (cases "wl_entries E w = []")
  case True
  then have "Replay E fn w s = (replayEntry E fn w 0 s, None)"
    using wal_okD(1,2) [OF assms] by (simp add: Replay_def)
  also have "replayEntry E fn w 0 s = s"
    using wal_okD(4) [OF assms] by (auto simp: replayEntry_def isl_def)
  finally show ?thesis using True by (simp add: logged_def map_filter_simps)
next
  case False
  let ?step = "\<lambda>r s. case r of Inl err \<Rightarrow> s
      | Inr data \<Rightarrow> (case entrySignal E data of None \<Rightarrow> s | Some sig \<Rightarrow> fn sig s)"
  have step: "replayEntry E fn w = (\<lambda>i. ?step (wl_Read E w i))"
    by (simp add: fun_eq_iff replayEntry_def)
  have "fold (replayEntry E fn w) is s = fold ?step (map (wl_Read E w) is) s" for "is"
    unfolding step by (simp add: fold_map comp_def)
  moreover have "fold ?step (map Inr es) s = fold fn (List.map_filter (entrySignal E) es) s" for es s
    by (induction es arbitrary: s) (auto simp: map_filter_simps split: option.split)
  moreover have "wl_base E w + length (wl_entries E w) - 1 + 1 = wl_base E w + length (wl_entries E w)"
    using False by (cases "wl_entries E w") simp_all
  ultimately show ?thesis
    using wal_okD(1,2) [OF assms] False upt_read [OF assms False]
    by (simp add: Replay_def logged_def)
qed

text \<open>A signal as it comes back from the log: the source address is not recorded.\<close>

fun strip :: "Signal \<Rightarrow> Signal" where
  "strip (SigTrace s) = SigTrace (s\<lparr>ts_Ctx := ctxAt (ReceivedAt (ts_Ctx s))\<rparr>)"
| "strip (SigMetric s) = SigMetric (s\<lparr>ms_Ctx := ctxAt (ReceivedAt (ms_Ctx s))\<rparr>)"
| "strip (SigLog s) = SigLog (s\<lparr>ls_Ctx := ctxAt (ReceivedAt (ls_Ctx s))\<rparr>)"
| "strip (OtherSignal t c) = OtherSignal t c"

lemma walcodec_okD:
  assumes "walcodec_ok E"
  shows "wl_Marshal E r = Inr b \<Longrightarrow> wl_Unmarshal E b = Inr r"
    and "ts_range t \<Longrightarrow> wl_AsTime E (Some (wl_New E t)) = t"
    and "wl_MarshalTraces E tr = (d, None) \<Longrightarrow> wl_UnmarshalTraces E d = (tr, None)"
    and "wl_MarshalMetrics E m = (d, None) \<Longrightarrow> wl_UnmarshalMetrics E d = (m, None)"
    and "wl_MarshalLogs E l = (d, None) \<Longrightarrow> wl_UnmarshalLogs E d = (l, None)"
  using assms unfolding walcodec_ok_def by blast+

lemma payload_roundtrip:
  assumes "walcodec_ok E" and "walPayload E sig = Some (ty, data, None)"
    and "ts_range (ReceivedAt (signal_Context sig))"
    and "wl_Marshal E \<lparr>wr_Type = ty, wr_Data = data,
      wr_Timestamp = Some (wl_New E (ReceivedAt (signal_Context sig)))\<rparr> = Inr b"
  shows "entrySignal E b = Some (strip sig)"
  using assms(2,3) walcodec_okD(1) [OF assms(1,4)] walcodec_okD(2-5) [OF assms(1)]
  by (cases sig) (auto simp: entrySignal_def recordSignal_def Let_def)

definition log_inv :: "'w walenv \<Rightarrow> 'w \<Rightarrow> bool" where
  "log_inv E w \<longleftrightarrow> wal_ok E \<and> walcodec_ok E \<and> wl_valid E w"

lemma wal_Write_ok:
  assumes "log_inv E w" and "wal_Write E sig w = (w', None)" and "ts_range (ReceivedAt (signal_Context sig))"
  shows "log_inv E w' \<and> logged E w' = logged E w @ [strip sig]"
proof -
  have ok: "wal_ok E" "walcodec_ok E" "wl_valid E w" using assms(1) by (simp_all add: log_inv_def)
  obtain ty data b n where p: "walPayload E sig = Some (ty, data, None)"
    "wl_Marshal E \<lparr>wr_Type = ty, wr_Data = data,
      wr_Timestamp = Some (wl_New E (ReceivedAt (signal_Context sig)))\<rparr> = Inr b"
    "wl_LastIndex E w = Inr n" "wl_Write E w (n + 1) b = (w', None)"
    using assms(2) by (auto simp: wal_Write_def split: option.splits sum.splits)
  from wal_okD(6) [OF ok(1,3) p(3,4)] payload_roundtrip [OF ok(2) p(1) assms(3) p(2)]
  show ?thesis using ok by (simp add: log_inv_def logged_def map_filter_def)
qed

lemma wal_Write_fail:
  assumes "log_inv E w" and "wal_Write E sig w = (w', Some err)"
  shows "log_inv E w' \<and> logged E w' = logged E w"
proof -
  have ok: "wal_ok E" "walcodec_ok E" "wl_valid E w" using assms(1) by (simp_all add: log_inv_def)
  have "w' = w \<or> (\<exists>n b. wl_LastIndex E w = Inr n \<and> wl_Write E w (n + 1) b = (w', Some err))"
    using assms(2) by (auto simp: wal_Write_def split: option.splits sum.splits)
  then show ?thesis
    using assms(1) wal_okD(6) [OF ok(1,3)] ok by (fastforce simp: log_inv_def logged_def)
qed

text \<open>
  The contract of a signal log: a successful write adds the signal to what a replay hands out, a
  failed one changes nothing.  A sequence of writes, some of which may fail, is then replayed as
  the ones that succeeded, in order.
\<close>

primrec writeAll :: "(Signal \<Rightarrow> 'w \<Rightarrow> 'w \<times> error option) \<Rightarrow> Signal list \<Rightarrow> 'w \<Rightarrow> 'w \<times> Signal list" where
  "writeAll put [] w = (w, [])"
| "writeAll put (sig # sigs) w =
     (let (w', err) = put sig w; (w'', acc) = writeAll put sigs w'
      in (w'', if err = None then sig # acc else acc))"

locale signal_log =
  fixes put :: "Signal \<Rightarrow> 'w \<Rightarrow> 'w \<times> error option"
    and replayed :: "'w \<Rightarrow> Signal list"
    and ok :: "Signal \<Rightarrow> bool"
    and inv :: "'w \<Rightarrow> bool"
  assumes write_ok: "inv w \<Longrightarrow> ok sig \<Longrightarrow> put sig w = (w', None) \<Longrightarrow>
      inv w' \<and> replayed w' = replayed w @ [strip sig]"
    and write_fail: "inv w \<Longrightarrow> put sig w = (w', Some err) \<Longrightarrow> inv w' \<and> replayed w' = replayed w"
begin

lemma writeAll_replayed:
  assumes "inv w" and "\<forall>sig \<in> set sigs. ok sig"
  shows "inv (fst (writeAll put sigs w)) \<and>
    replayed (fst (writeAll put sigs w)) = replayed w @ map strip (snd (writeAll put sigs w))"
  using assms
proof (induction sigs arbitrary: w)
  case (Cons sig sigs)
  obtain w' err where w': "put sig w = (w', err)" by fastforce
  have "inv w' \<and> replayed w' = replayed w @ (if err = None then [strip sig] else [])"
    using Cons.prems w' write_ok [of w sig w'] write_fail [of w sig w'] by (cases err) auto
  moreover from this have "inv (fst (writeAll put sigs w')) \<and>
      replayed (fst (writeAll put sigs w')) = replayed w' @ map strip (snd (writeAll put sigs w'))"
    using Cons.prems by (intro Cons.IH) simp_all
  ultimately show ?case by (cases "writeAll put sigs w'"; cases err) (simp_all add: w')
qed simp

end

interpretation wal: signal_log "wal_Write E" "logged E"
    "\<lambda>sig. ts_range (ReceivedAt (signal_Context sig))" "log_inv E" for E :: "'w walenv"
  by unfold_locales (rule wal_Write_ok, assumption+, rule wal_Write_fail, assumption+)

subsection \<open>Truncation\<close>

definition entryOlder :: "'w walenv \<Rightarrow> time \<Rightarrow> bytes \<Rightarrow> bool" where
  "entryOlder E t data =
     (case wl_Unmarshal E data of Inl err \<Rightarrow> False | Inr r \<Rightarrow> Before (wl_AsTime E (wr_Timestamp r)) t)"

definition readable :: "'w walenv \<Rightarrow> 'w \<Rightarrow> bool" where
  "readable E w \<longleftrightarrow> (\<forall>data \<in> set (wl_entries E w). \<not> isl (wl_Unmarshal E data))"

lemma truncateScan_reads:
  assumes "\<forall>i < length es. wl_Read E w (j + i) = Inr (es ! i)"
    and "\<forall>data \<in> set es. \<not> isl (wl_Unmarshal E data)"
  shows "truncateScan E t w [j..<j + length es] idx =
    (if takeWhile (entryOlder E t) es = [] then idx else j + length (takeWhile (entryOlder E t) es) - 1)"
  using assms
proof (induction es arbitrary: j idx)
  case (Cons e es)
  have upt: "[j..<j + length (e # es)] = j # [Suc j..<Suc j + length es]"
    by (simp add: upt_conv_Cons del: upt_Suc)
  obtain r where r: "wl_Unmarshal E e = Inr r" using Cons.prems(2) by (auto simp: isl_def split: sum.splits)
     (metis sum.exhaust)
  have read: "wl_Read E w j = Inr e" using Cons.prems(1) by (metis add_0_right length_greater_0_conv list.distinct(1) nth_Cons_0)
  have "\<forall>i < length es. wl_Read E w (Suc j + i) = Inr (es ! i)"
    using Cons.prems(1) by (metis Suc_mono add_Suc_right add_Suc length_Cons nth_Cons_Suc)
  then have IH: "truncateScan E t w [Suc j..<Suc j + length es] idx' =
      (if takeWhile (entryOlder E t) es = [] then idx' else Suc j + length (takeWhile (entryOlder E t) es) - 1)" for idx'
    using Cons.prems(2) by (intro Cons.IH) simp_all
  have "entryOlder E t e = Before (wl_AsTime E (wr_Timestamp r)) t" by (simp add: entryOlder_def r)
  then show ?case unfolding upt by (simp only: truncateScan.simps read r sum.case IH) simp
qed simp

lemma TruncateBefore_eq:
  assumes "wal_ok E" and "wl_valid E w" and "wl_entries E w \<noteq> []" and "readable E w"
  shows "TruncateBefore E t w =
    (let n = length (takeWhile (entryOlder E t) (wl_entries E w)) in
     if n = 0 then (w, None) else wl_TruncateFront E w (wl_base E w + n))"
proof -
  have last: "wl_base E w + length (wl_entries E w) - 1 + 1 = wl_base E w + length (wl_entries E w)"
    using assms(3) by (cases "wl_entries E w") simp_all
  have pos: "0 < wl_base E w" by (rule wal_okD(3) [OF assms(1-3)])
  have "truncateScan E t w [wl_base E w..<wl_base E w + length (wl_entries E w)] 0 =
      (if takeWhile (entryOlder E t) (wl_entries E w) = [] then 0
       else wl_base E w + length (takeWhile (entryOlder E t) (wl_entries E w)) - 1)"
    using wal_okD(5) [OF assms(1,2)] assms(4) by (intro truncateScan_reads) (simp_all add: readable_def)
  then show ?thesis
    using wal_okD(1,2) [OF assms(1,2)] assms(3) pos
    by (cases "takeWhile (entryOlder E t) (wl_entries E w)")
       (simp_all add: TruncateBefore_def last Let_def del: upt_Suc)
qed

end
