(* ===== verification/WalProps.thy ===== *)
theory WalProps
  imports Wal BufferExample Decision
begin

text \<open>
  The properties of the write-ahead log, and a concrete log for evaluations: the index of the
  first entry and the entries, with table encodings.
\<close>

type_synonym listLog = "nat \<times> bytes list"

definition tableResult :: "bytes \<times> error option \<Rightarrow> error + bytes" where
  "tableResult r = (case snd r of None \<Rightarrow> Inr (fst r) | Some e \<Rightarrow> Inl e)"

definition wal_example :: "WALRecord list \<Rightarrow> Traces list \<Rightarrow> listLog walenv" where
  "wal_example rt tt = \<lparr>
     wl_FirstIndex = (\<lambda>(b, es). Inr (if es = [] then 0 else b)),
     wl_LastIndex = (\<lambda>(b, es). Inr (if es = [] then 0 else b + length es - 1)),
     wl_Read = (\<lambda>(b, es) i. if b \<le> i \<and> i < b + length es \<and> 0 < i then Inr (es ! (i - b)) else Inl ''not found''),
     wl_Write = (\<lambda>(b, es) i d. if es = [] then ((1, [d]), None) else ((b, es @ [d]), None)),
     wl_TruncateFront = (\<lambda>(b, es) i. if b \<le> i \<and> i < b + length es
        then ((i, drop (i - b) es), None) else ((b, es), Some ''out of range'')),
     wl_base = fst, wl_entries = snd, wl_valid = (\<lambda>(b, es). es \<noteq> [] \<longrightarrow> 0 < b),
     wl_Marshal = (\<lambda>r. tableResult (tableMarshal rt r)),
     wl_Unmarshal = (\<lambda>d. case tableUnmarshal rt (hd rt) d of (r, None) \<Rightarrow> Inr r | (r, Some e) \<Rightarrow> Inl e),
     wl_New = tspbNew, wl_AsTime = tspbAsTime,
     wl_MarshalTraces = tableMarshal tt, wl_UnmarshalTraces = tableUnmarshal tt [],
     wl_MarshalMetrics = tableMarshal [], wl_UnmarshalMetrics = tableUnmarshal [] [],
     wl_MarshalLogs = tableMarshal [], wl_UnmarshalLogs = tableUnmarshal [] []\<rparr>"

lemma wal_example_ok: "wal_ok (wal_example rt tt)"
  unfolding wal_ok_def wal_example_def
  by (auto simp: isl_def split: if_splits)

lemma wal_example_codec: "walcodec_ok (wal_example rt tt)"
proof -
  have "tableResult (tableMarshal rt r) = Inr b \<Longrightarrow> tableMarshal rt r = (b, None)" for r b
    by (cases "tableMarshal rt r") (auto simp: tableResult_def split: option.splits)
  then show ?thesis
    unfolding walcodec_ok_def
    by (auto simp: wal_example_def table_roundtrip tspb_roundtrip)
qed

subsection \<open>Replay\<close>

text \<open>
  C17: The log is a faithful record: after any sequence of writes, some of which may fail, a replay
  runs the given function on the signals that were in the log before and then on exactly those
  whose write succeeded, in order, with their data and their time of arrival; only the source
  address, which the record has no field for, comes back empty.
\<close>

theorem wal_replays_writes:
  assumes "log_inv E w" and "\<forall>sig \<in> set sigs. ts_range (ReceivedAt (signal_Context sig))"
  shows "Replay E fn (fst (writeAll (wal_Write E) sigs w)) s =
    (fold fn (logged E w @ map strip (snd (writeAll (wal_Write E) sigs w))) s, None)"
proof -
  note w = wal.writeAll_replayed [OF assms]
  then show ?thesis
    using Replay_logged [of E "fst (writeAll (wal_Write E) sigs w)" fn s] by (simp add: log_inv_def)
qed

definition wal_signal :: "time \<Rightarrow> Signal" where
  "wal_signal t = SigTrace \<lparr>ts_Traces = traces_example [span_example tidA StatusCodeOk],
     ts_Ctx = \<lparr>ReceivedAt = t, SourceAddr = ''10.0.0.1''\<rparr>\<rparr>"

definition wal_record :: "time \<Rightarrow> WALRecord" where
  "wal_record t = \<lparr>wr_Type = WALRecord_TRACE, wr_Data = [1], wr_Timestamp = Some (tspbNew t)\<rparr>"

definition wal_env :: "listLog walenv" where
  "wal_env = wal_example [wal_record 5, wal_record 20] [traces_example [span_example tidA StatusCodeOk]]"

lemma wal_env_inv: "(es \<noteq> [] \<Longrightarrow> 0 < b) \<Longrightarrow> log_inv wal_env (b, es)"
  by (simp add: log_inv_def wal_env_def wal_example_ok wal_example_codec, simp add: wal_example_def)

theorem wal_replays_writes_witness:
  "Replay wal_env (\<lambda>sig acc. acc @ [sig])
     (fst (writeAll (wal_Write wal_env) [wal_signal 5, OtherSignal TypeLog (ctxAt 7), wal_signal 20] (1, []))) [] =
   ([strip (wal_signal 5), strip (wal_signal 20)], None)"
proof -
  let ?sigs = "[wal_signal 5, OtherSignal TypeLog (ctxAt 7), wal_signal 20]"
  have "snd (writeAll (wal_Write wal_env) ?sigs (1, [])) = [wal_signal 5, wal_signal 20]" by code_simp
  moreover have "\<forall>sig \<in> set ?sigs. ts_range (ReceivedAt (signal_Context sig))"
    by (simp add: wal_signal_def ts_range_def)
  moreover have "logged wal_env (1, []) = []"
    by (simp add: logged_def wal_env_def wal_example_def map_filter_simps)
  ultimately show ?thesis
    using wal_replays_writes [OF wal_env_inv, of "[]" 1 ?sigs "\<lambda>sig acc. acc @ [sig]" "[]"] by simp
qed

subsection \<open>Truncation\<close>

text \<open>
  Truncation drops exactly the longest prefix of entries that are older than the given time,
  provided an entry remains; when the library reports an error nothing is dropped.
\<close>

theorem TruncateBefore_drops_old:
  assumes "wal_ok E" and "wl_valid E w" and "readable E w"
    and "\<exists>data \<in> set (wl_entries E w). \<not> entryOlder E t data"
    and "TruncateBefore E t w = (w', err)"
  shows "wl_entries E w' = (if err = None then dropWhile (entryOlder E t) (wl_entries E w) else wl_entries E w)"
proof -
  let ?n = "length (takeWhile (entryOlder E t) (wl_entries E w))"
  have ne: "wl_entries E w \<noteq> []" using assms(4) by auto
  have "?n < length (wl_entries E w)"
    using assms(4) by (metis length_takeWhile_le nat_less_le set_takeWhileD takeWhile_eq_take take_all_iff order_refl)
  then show ?thesis
    using TruncateBefore_eq [OF assms(1,2) ne assms(3), of t] assms(5)
      wal_ok_truncate(2) [OF assms(1,2), of "wl_base E w + ?n" w' err]
    by (auto simp: Let_def dropWhile_eq_drop split: if_splits)
qed

theorem TruncateBefore_drops_old_witness:
  "let w = fst (writeAll (wal_Write wal_env) [wal_signal 5, wal_signal 20] (1, [])) in
     wl_entries wal_env w = [[1], [2]] \<and> wl_entries wal_env (fst (TruncateBefore wal_env 10 w)) = [[2]]"
proof -
  have w: "fst (writeAll (wal_Write wal_env) [wal_signal 5, wal_signal 20] (1, [])) = (1, [[1], [2]])"
    by code_simp
  have t: "TruncateBefore wal_env 10 (1, [[1], [2]]) = ((2, [[2]]), None)" by code_simp
  have "readable wal_env (1, [[1], [2]])" by code_simp
  moreover have "\<not> entryOlder wal_env 10 [2]" "entryOlder wal_env 10 [1]" by code_simp+
  moreover have es: "wl_entries wal_env (1, [[1], [2]]) = [[1], [2]]"
    by (simp add: wal_env_def wal_example_def)
  moreover have "log_inv wal_env (1, [[1], [2]])" by (rule wal_env_inv) simp
  ultimately have "wl_entries wal_env (2, [[2]]) = [[2]]"
    using TruncateBefore_drops_old [OF _ _ _ _ t] by (simp add: log_inv_def)
  then show ?thesis unfolding w Let_def t es fst_conv by simp
qed

text \<open>
  C37: When every entry is older than the given time, truncation fails and the log keeps all of
  them: the index after the last one is out of the library's range.
\<close>

theorem TruncateBefore_all_old_fails:
  assumes "wal_ok E" and "wl_valid E w" and "readable E w" and "wl_entries E w \<noteq> []"
    and "\<forall>data \<in> set (wl_entries E w). entryOlder E t data"
  shows "\<exists>err. TruncateBefore E t w = (w, Some err)"
proof -
  have all: "takeWhile (entryOlder E t) (wl_entries E w) = wl_entries E w"
    using assms(5) by (simp only: takeWhile_eq_all_conv)
  have t: "TruncateBefore E t w = wl_TruncateFront E w (wl_base E w + length (wl_entries E w))"
    unfolding TruncateBefore_eq [OF assms(1,2,4,3), of t] all using assms(4) by (simp add: Let_def)
  obtain w' err where "wl_TruncateFront E w (wl_base E w + length (wl_entries E w)) = (w', err)" by fastforce
  then show ?thesis using wal_ok_truncate(3) [OF assms(1,2)] t by fastforce
qed

theorem TruncateBefore_all_old_fails_witness:
  "\<exists>err. TruncateBefore wal_env 30 (1, [[1], [2]]) = ((1, [[1], [2]]), Some err)"
proof (rule TruncateBefore_all_old_fails)
  show "wal_ok wal_env" by (simp add: wal_env_def wal_example_ok)
  show "wl_valid wal_env (1, [[1], [2]])" by (simp add: wal_env_def wal_example_def)
  show "readable wal_env (1, [[1], [2]])" by code_simp
  show "wl_entries wal_env (1, [[1], [2]]) \<noteq> []" by (simp add: wal_env_def wal_example_def)
  have "entryOlder wal_env 30 [1]" "entryOlder wal_env 30 [2]" by code_simp+
  then show "\<forall>data \<in> set (wl_entries wal_env (1, [[1], [2]])). entryOlder wal_env 30 data"
    by (simp add: wal_env_def wal_example_def)
qed

end
