(* ===== verification/Discovery.thy ===== *)
theory Discovery
  imports Gossip
begin

text \<open>
  Peer discovery, \<open>internal/discovery/discovery.go\<close>: a fixed list from the configuration, or
  DNS: SRV records when there are any, host records otherwise.  The resolver is a parameter, as it
  is an interface in the code.
\<close>

record Resolver =
  LookupSRV :: "string \<Rightarrow> (string \<times> nat) list \<times> error option"  \<comment> \<open>targets and ports\<close>
  LookupHost :: "string \<Rightarrow> string list \<times> error option"

datatype Discoverer = StaticDiscovery "string list" | DNSDiscovery string

definition NewDNSDiscovery :: "string \<Rightarrow> Discoverer" where
  "NewDNSDiscovery serviceName = DNSDiscovery serviceName"

definition discovery_New :: "DiscoveryConfig \<Rightarrow> error + Discoverer" where
  "discovery_New cfg =
     (if disc_Type cfg = ''static'' then Inr (StaticDiscovery (disc_Peers cfg))
      else if disc_Type cfg = ''dns'' then Inr (NewDNSDiscovery (disc_ServiceName cfg))
      else Inl (''unknown discovery type: '' @ disc_Type cfg))"

definition trimDot :: "string \<Rightarrow> string" where
  "trimDot target =
     (if length target > 0 \<and> target ! (length target - 1) = CHR ''.''
      then take (length target - 1) target else target)"

definition srvPeer :: "string \<times> nat \<Rightarrow> string" where
  "srvPeer srv = trimDot (fst srv) @ '':'' @ showInt (int (snd srv))"

fun GetPeers :: "Resolver \<Rightarrow> Discoverer \<Rightarrow> error + string list" where
  "GetPeers R (StaticDiscovery peers) = Inr peers"
| "GetPeers R (DNSDiscovery serviceName) =
     (case LookupSRV R serviceName of (srvs, err) \<Rightarrow>
        if err = None \<and> length srvs > 0 then Inr (sort (map srvPeer srvs))
        else (case LookupHost R serviceName of
                (addrs, Some err) \<Rightarrow> Inl (''failed to lookup '' @ serviceName @ '': '' @ err)
              | (addrs, None) \<Rightarrow> Inr (sort addrs)))"

lemma trimDot_dot: "trimDot (host @ ''.'') = host"
  by (simp add: trimDot_def nth_append)

lemma trimDot_idle: "target = [] \<or> last target \<noteq> CHR ''.'' \<Longrightarrow> trimDot target = target"
  by (auto simp: trimDot_def last_conv_nth)


end
