(* ===== verification/Receiver.thy ===== *)
theory Receiver
  imports Telemetry
begin

text \<open>
  The OTLP receiver, \<open>internal/receiver/receiver.go\<close>: three gRPC services that wrap what they
  receive into a signal with the time of arrival and hand it to the consumer.  The network listener
  is a parameter of \<open>receiver_Start\<close>.
\<close>

text \<open>A consumer of signals, such as the main consumer of the server, on some state; it can panic.\<close>

type_synonym 's Consumer = "Signal \<Rightarrow> 's \<Rightarrow> ('s \<times> error option) res"

record Receiver =
  rc_cfg :: ReceiverConfig
  rc_serving :: bool
  rc_telemetry :: "Telemetry option"

definition receiver_New :: "ReceiverConfig \<Rightarrow> Telemetry option \<Rightarrow> Receiver" where
  "receiver_New cfg tel = \<lparr>rc_cfg = cfg, rc_serving = False, rc_telemetry = tel\<rparr>"

definition listenAddr :: "ReceiverConfig \<Rightarrow> string" where
  "listenAddr cfg = rcv_Host cfg @ '':'' @ showInt (rcv_GRPCPort cfg)"

definition receiver_Start :: "(string \<Rightarrow> error option) \<Rightarrow> Receiver \<Rightarrow> Receiver \<times> error option" where
  "receiver_Start listen r =
     (case listen (listenAddr (rc_cfg r)) of
        Some err \<Rightarrow> (r, Some (''failed to listen: '' @ err))
      | None \<Rightarrow> (r\<lparr>rc_serving := True\<rparr>, None))"

definition receiver_Stop :: "Receiver \<Rightarrow> Receiver" where
  "receiver_Stop r = r\<lparr>rc_serving := False\<rparr>"

definition countReceived :: "Receiver \<Rightarrow> Receiver" where
  "countReceived r = r\<lparr>rc_telemetry := addReceived (rc_telemetry r)\<rparr>"

definition traceReceiver_Export :: "'s Consumer \<Rightarrow> time \<Rightarrow> Traces \<Rightarrow> Receiver \<times> 's \<Rightarrow>
    ((Receiver \<times> 's) \<times> error option) res" where
  "traceReceiver_Export consume now traces rs =
     (let r = countReceived (fst rs); sig = SigTrace \<lparr>ts_Traces = traces, ts_Ctx = ctxAt now\<rparr> in
      res_bind (consume sig (snd rs)) (\<lambda>(s, err). Inr ((r, s), err)))"

definition metricReceiver_Export :: "'s Consumer \<Rightarrow> time \<Rightarrow> Metrics \<Rightarrow> Receiver \<times> 's \<Rightarrow>
    ((Receiver \<times> 's) \<times> error option) res" where
  "metricReceiver_Export consume now metrics rs =
     (let r = countReceived (fst rs); sig = SigMetric \<lparr>ms_Metrics = metrics, ms_Ctx = ctxAt now\<rparr> in
      res_bind (consume sig (snd rs)) (\<lambda>(s, err). Inr ((r, s), err)))"

definition logReceiver_Export :: "'s Consumer \<Rightarrow> time \<Rightarrow> Logs \<Rightarrow> Receiver \<times> 's \<Rightarrow>
    ((Receiver \<times> 's) \<times> error option) res" where
  "logReceiver_Export consume now logs rs =
     (let r = countReceived (fst rs); sig = SigLog \<lparr>ls_Logs = logs, ls_Ctx = ctxAt now\<rparr> in
      res_bind (consume sig (snd rs)) (\<lambda>(s, err). Inr ((r, s), err)))"

end
