(* ===== verification/Server.thy ===== *)
theory Server
  imports Sampling WalProps Discovery Receiver
begin

text \<open>
  The server process, \<open>cmd/server/main.go\<close>: how it is put together at its start, how a
  received signal goes through the write-ahead log, the buffer and the decision engine, and the
  background loops for load monitoring and log truncation.
  The state of one node is the record \<open>Node\<close>; its background goroutines are the
  steps of \<open>node_loop\<close>, and all that happens to it the steps of \<open>node_step\<close>.
\<close>

subsection \<open>The configuration\<close>

text \<open>
  The configuration file, if it can be read, is decoded over the defaults by the YAML library, a
  parameter; a decoding error is logged and what was decoded so far stays.  Two environment
  variables override the result.
\<close>

definition overrideConfig :: "(string \<Rightarrow> string) \<Rightarrow> Config \<Rightarrow> Config" where
  "overrideConfig getenv cfg =
     (let cfg1 = (if getenv ''EXPORTER_ENDPOINT'' \<noteq> []
                  then cfg\<lparr>cfg_Exporter := (cfg_Exporter cfg)\<lparr>exp_Endpoint := getenv ''EXPORTER_ENDPOINT''\<rparr>\<rparr>
                  else cfg)
      in if getenv ''RECEIVER_HOST'' \<noteq> []
         then cfg1\<lparr>cfg_Receiver := (cfg_Receiver cfg1)\<lparr>rcv_Host := getenv ''RECEIVER_HOST''\<rparr>\<rparr> else cfg1)"

definition loadConfig :: "(bytes \<Rightarrow> Config \<Rightarrow> Config \<times> error option) \<Rightarrow> bytes option \<Rightarrow>
    (string \<Rightarrow> string) \<Rightarrow> Config" where
  "loadConfig yaml file getenv =
     (let cfg = DefaultConfig;
          cfg1 = (case file of None \<Rightarrow> cfg | Some data \<Rightarrow> fst (yaml data cfg))
      in overrideConfig getenv cfg1)"

subsection \<open>The node\<close>

text \<open>The libraries a node uses, and its state: the buffer is the one of its processor.\<close>

record ('c, 't, 'w, 'q, 'x) libs =
  lib_buf :: "('c, 't) bufenv"
  lib_wal :: "'w walenv"
  lib_gossip :: "'q gossip_env"
  lib_rpc :: "'x rpc"

record ('c, 't, 'w, 'q, 'x) Node =
  n_proc :: "('c, 't, 'x) Sampler"
  n_wal :: "'w option"
  n_gossip :: "'q Manager"
  n_highLoadActive :: bool

abbreviation n_buffer :: "('c, 't, 'w, 'q, 'x) Node \<Rightarrow> ('c, 't) InMemoryBuffer" where
  "n_buffer n \<equiv> pr_buffer (n_proc n)"

definition setBuffer :: "('c, 't) InMemoryBuffer \<Rightarrow> ('c, 't, 'w, 'q, 'x) Node \<Rightarrow> ('c, 't, 'w, 'q, 'x) Node" where
  "setBuffer b n = n\<lparr>n_proc := (n_proc n)\<lparr>pr_buffer := b\<rparr>\<rparr>"

lemma setBuffer_sel [simp]:
  "n_buffer (setBuffer b n) = b" "n_wal (setBuffer b n) = n_wal n" "n_gossip (setBuffer b n) = n_gossip n"
  "pr_exporter (n_proc (setBuffer b n)) = pr_exporter (n_proc n)"
  by (simp_all add: setBuffer_def)

definition consumeWal :: "'w walenv \<Rightarrow> Signal \<Rightarrow> 'w option \<Rightarrow> 'w option \<times> error option" where
  "consumeWal W sig w =
     (case w of None \<Rightarrow> (None, None)
      | Some l \<Rightarrow> (case wal_Write W sig l of (l', err) \<Rightarrow> (Some l', err)))"

definition consumeDecision :: "('c, 't, 'w, 'q, 'x) libs \<Rightarrow> DecisionConfig \<Rightarrow> time \<Rightarrow> Signal \<Rightarrow>
    'q Manager \<Rightarrow> 'q Manager res" where
  "consumeDecision L cfg now sig m =
     (case sig of
        SigTrace ts \<Rightarrow> EvaluateTrace (be_pd (lib_buf L))
          (decision_New cfg (Some (BroadcastDecision (lib_gossip L))) False) now ts m
      | _ \<Rightarrow> Inr m)"

definition Consume :: "('c, 't, 'w, 'q, 'x) libs \<Rightarrow> DecisionConfig \<Rightarrow> nondet \<Rightarrow> time \<Rightarrow>
    ('c, 't, 'w, 'q, 'x) Node Consumer" where
  "Consume L cfg nd now sig n =
     (case consumeWal (lib_wal L) sig (n_wal n) of
        (w, Some err) \<Rightarrow> Inr (n\<lparr>n_wal := w\<rparr>, Some err)
      | (w, None) \<Rightarrow>
          (let n1 = n\<lparr>n_wal := w\<rparr> in
           case Store (lib_buf L) nd sig (n_buffer n1) of
             (b, Some err) \<Rightarrow> Inr (setBuffer b n1, Some err)
           | (b, None) \<Rightarrow>
               (let n2 = setBuffer b n1 in
                res_bind (consumeDecision L cfg now sig (n_gossip n2))
                  (\<lambda>m. Inr (n2\<lparr>n_gossip := m\<rparr>, None)))))"

subsection \<open>The background loops\<close>

text \<open>The constant \<open>0.8\<close> as the nearest \<open>float64\<close>.\<close>

definition loadThreshold :: "BufferConfig \<Rightarrow> float64" where
  "loadThreshold cfg = fmul (floatOfInt (buf_MaxTraces cfg)) (Fin False 7205759403792794 (- 53))"

definition loadTick :: "('c, 't, 'w, 'q, 'x) libs \<Rightarrow> BufferConfig \<Rightarrow> time \<Rightarrow>
    ('c, 't, 'w, 'q, 'x) Node \<Rightarrow> ('c, 't, 'w, 'q, 'x) Node res" where
  "loadTick L cfg now n =
     (let count = floatOfInt (GetTraceCount (lib_buf L) (n_buffer n)); threshold = loadThreshold cfg;
          event = \<lparr>te_Name = ''high_load'', te_Value = count, te_Threshold = threshold, te_StartedAt = now\<rparr>
      in if fgt count threshold \<and> \<not> n_highLoadActive n then
           res_bind (BroadcastTrigger (lib_gossip L) event (n_gossip n))
             (\<lambda>(m, err). Inr (n\<lparr>n_gossip := m, n_highLoadActive := True\<rparr>))
         else if fle count threshold \<and> n_highLoadActive n then
           res_bind (BroadcastTrigger (lib_gossip L) event (n_gossip n))
             (\<lambda>(m, err). Inr (n\<lparr>n_gossip := m, n_highLoadActive := False\<rparr>))
         else Inr n)"

definition truncationTick :: "('c, 't, 'w, 'q, 'x) libs \<Rightarrow> time \<Rightarrow>
    ('c, 't, 'w, 'q, 'x) Node \<Rightarrow> ('c, 't, 'w, 'q, 'x) Node" where
  "truncationTick L now n =
     (case n_wal n of None \<Rightarrow> n
      | Some w \<Rightarrow> n\<lparr>n_wal := Some (fst (TruncateBefore (lib_wal L) (Add now (- 600 * Second)) w))\<rparr>)"

subsection \<open>The start\<close>

text \<open>
  The log is replayed into the buffer before anything else runs; \<open>nds i\<close> are the clock, UUID and
  map order of the \<open>i\<close>-th signal that is stored.  A replay error is logged only.
\<close>

definition storeNext :: "('c, 't) bufenv \<Rightarrow> (nat \<Rightarrow> nondet) \<Rightarrow> Signal \<Rightarrow>
    nat \<times> ('c, 't) InMemoryBuffer \<Rightarrow> nat \<times> ('c, 't) InMemoryBuffer" where
  "storeNext B nds sig ib = (Suc (fst ib), fst (Store B (nds (fst ib)) sig (snd ib)))"

definition replayInto :: "('c, 't) bufenv \<Rightarrow> 'w walenv \<Rightarrow> (nat \<Rightarrow> nondet) \<Rightarrow> 'w \<Rightarrow>
    ('c, 't) InMemoryBuffer \<Rightarrow> ('c, 't) InMemoryBuffer" where
  "replayInto B W nds w b = snd (fst (Replay W (storeNext B nds) w (0, b)))"

text \<open>
  What the outside answers when the components are initialised, in the order of the calls: the
  telemetry exporter and resource, the log directory and the log, the gRPC client, the cache, the
  member list with its transmit queue, and the two gauges.
\<close>

record ('c, 't, 'w, 'q, 'x) outside =
  out_telemetry :: "error option \<times> error option"
  out_mkdir :: "error option"
  out_wal :: "error + 'w"
  out_client :: "string \<Rightarrow> error + 'x"
  out_cache :: "error + 'c"
  out_tree :: 't
  out_memberlist :: "error option"
  out_queue :: 'q
  out_gauges :: "error option \<times> error option"

text \<open>The errors of the two registrations are ignored.\<close>

definition registerGauges :: "error option \<times> error option \<Rightarrow> Telemetry option \<Rightarrow> Telemetry option" where
  "registerGauges create tel =
     map_option (\<lambda>t. fst (RegisterGossipGauge (snd create) (fst (RegisterBufferGauge (fst create) t)))) tel"

text \<open>
  What the callbacks of the gauges observe: the number of cache entries, of whatever kind, and the
  number of members of the cluster.
\<close>

definition bufferGauge :: "('c, 't, 'w, 'q, 'x) libs \<Rightarrow> ('c, 't, 'w, 'q, 'x) Node \<Rightarrow> int64" where
  "bufferGauge L n = word_of_int (GetTraceCount (lib_buf L) (n_buffer n))"

definition gossipGauge :: "'m list option \<Rightarrow> int64" where
  "gossipGauge members = word_of_nat (length (Members members))"

text \<open>
  \<open>main\<close> up to the point where its goroutines run; \<open>Inl\<close> is a \<open>log.Fatalf\<close> or, for the
  cache, a panic.
\<close>

definition startNode :: "('c, 't, 'w, 'q, 'x) libs \<Rightarrow> ('c, 't, 'w, 'q, 'x) outside \<Rightarrow> Config \<Rightarrow>
    (nat \<Rightarrow> nondet) \<Rightarrow> error + ('c, 't, 'w, 'q, 'x) Node" where
  "startNode L out cfg nds =
     (let tel = (case telemetry_Init (fst (out_telemetry out)) (snd (out_telemetry out)) of
                   Inl err \<Rightarrow> None | Inr t \<Rightarrow> Some t) in
      case wal_Open (out_mkdir out) (out_wal out) of
        Inl err \<Rightarrow> Inl (''Failed to open WAL: '' @ err)
      | Inr w \<Rightarrow>
      (case exporter_New (out_client out) (cfg_Exporter cfg) of
        Inl err \<Rightarrow> Inl (''Failed to initialize exporter: '' @ err)
      | Inr x \<Rightarrow>
      (case out_cache out of
        Inl err \<Rightarrow> Inl (''failed to init bigcache: '' @ err)
      | Inr c \<Rightarrow>
          (let buf = replayInto (lib_buf L) (lib_wal L) nds w (buffer_New c (out_tree out)) in
           case discovery_New (cfg_Discovery cfg) of
             Inl err \<Rightarrow> Inl (''Failed to initialize discovery: '' @ err)
           | Inr disc \<Rightarrow>
           (case gossip_Start (out_memberlist out) (out_queue out) (gossip_New (cfg_Gossip cfg)) of
             (gsp, Some err) \<Rightarrow> Inl (''Failed to start gossip: '' @ err)
           | (gsp, None) \<Rightarrow>
               Inr \<lparr>n_proc = processor_New buf (rollup_New (cfg_Rollup cfg)) x (registerGauges (out_gauges out) tel),
                    n_wal = Some w, n_gossip = gsp, n_highLoadActive = False\<rparr>)))))"

subsection \<open>The goroutines\<close>

text \<open>
  The background goroutines of a node: the loops of its processor, the load monitor, the log
  truncation and the cleaning of its cache.
\<close>

inductive node_loop :: "('c, 't, 'w, 'q, 'x) libs \<Rightarrow> Config \<Rightarrow>
    ('c, 't, 'w, 'q, 'x) Node \<Rightarrow> ('c, 't, 'w, 'q, 'x) Node \<Rightarrow> bool" for L cfg where
  decision: "recv (gm_decisionChan (n_gossip n)) = Some (d, ch) \<Longrightarrow>
    node_loop L cfg n (n\<lparr>n_gossip := (n_gossip n)\<lparr>gm_decisionChan := ch\<rparr>,
      n_proc := decide (lib_buf L) nd (lib_rpc L) d (n_proc n)\<rparr>)"
| trigger: "recv (gm_triggerChan (n_gossip n)) = Some (t, ch) \<Longrightarrow>
    node_loop L cfg n (n\<lparr>n_gossip := (n_gossip n)\<lparr>gm_triggerChan := ch\<rparr>,
      n_proc := processTrigger t (n_proc n)\<rparr>)"
| evicted: "recv (b_evictedChan (n_buffer n)) = Some (sig, ch) \<Longrightarrow>
    node_loop L cfg n (n\<lparr>n_proc := handleEvictedSignal sig
      ((n_proc n)\<lparr>pr_buffer := (n_buffer n)\<lparr>b_evictedChan := ch\<rparr>\<rparr>)\<rparr>)"
| rollup: "rollup (lib_buf L) nd (lib_rpc L) now (n_proc n) = Inr p \<Longrightarrow>
    node_loop L cfg n (n\<lparr>n_proc := p\<rparr>)"
| load: "loadTick L (cfg_Buffer cfg) now n = Inr n' \<Longrightarrow> node_loop L cfg n n'"
| truncate: "node_loop L cfg n (truncationTick L now n)"
| clean: "node_loop L cfg n (setBuffer (cacheClean (lib_buf L) nd (n_buffer n)) n)"

text \<open>
  Every step of a node: a request of a client, a step of a background goroutine, a message from
  a peer, and the member list asking for messages to send.
\<close>

inductive node_step :: "('c, 't, 'w, 'q, 'x) libs \<Rightarrow> Config \<Rightarrow>
    ('c, 't, 'w, 'q, 'x) Node \<Rightarrow> ('c, 't, 'w, 'q, 'x) Node \<Rightarrow> bool" for L cfg where
  receive: "fresh nd (n_buffer n) \<Longrightarrow> Consume L (cfg_Decision cfg) nd now sig n = Inr (n', err) \<Longrightarrow>
    node_step L cfg n n'"
| background: "node_loop L cfg n n' \<Longrightarrow> node_step L cfg n n'"
| peer: "node_step L cfg n (n\<lparr>n_gossip := NotifyMsg (lib_gossip L) msg (n_gossip n)\<rparr>)"
| gather: "GetBroadcasts (lib_gossip L) ov lim (n_gossip n) = Inr (msgs, m) \<Longrightarrow>
    node_step L cfg n (n\<lparr>n_gossip := m\<rparr>)"

inductive_cases node_stepE: "node_step L cfg n n'"

text \<open>Every signal that is stored during the replay has a fresh UUID.\<close>

primrec freshRun :: "('c, 't) bufenv \<Rightarrow> (nat \<Rightarrow> nondet) \<Rightarrow> Signal list \<Rightarrow> nat \<times> ('c, 't) InMemoryBuffer \<Rightarrow> bool" where
  "freshRun B nds [] ib \<longleftrightarrow> True"
| "freshRun B nds (sig # sigs) ib \<longleftrightarrow> fresh (nds (fst ib)) (snd ib) \<and> freshRun B nds sigs (storeNext B nds sig ib)"

definition freshStart :: "('c, 't, 'w, 'q, 'x) libs \<Rightarrow> ('c, 't, 'w, 'q, 'x) outside \<Rightarrow> (nat \<Rightarrow> nondet) \<Rightarrow> bool" where
  "freshStart L out nds \<longleftrightarrow> (\<forall>c w. out_cache out = Inr c \<longrightarrow> out_wal out = Inr w \<longrightarrow>
     freshRun (lib_buf L) nds (logged (lib_wal L) w) (0, buffer_New c (out_tree out)))"

inductive node_reachable :: "('c, 't, 'w, 'q, 'x) libs \<Rightarrow> Config \<Rightarrow> ('c, 't, 'w, 'q, 'x) outside \<Rightarrow>
    ('c, 't, 'w, 'q, 'x) Node \<Rightarrow> bool" for L cfg out where
  start: "startNode L out cfg nds = Inr n \<Longrightarrow> freshStart L out nds \<Longrightarrow> node_reachable L cfg out n"
| step: "node_reachable L cfg out n \<Longrightarrow> node_step L cfg n n' \<Longrightarrow> node_reachable L cfg out n'"

subsection \<open>The invariant of a node\<close>

text \<open>The libraries keep their promises, and the node starts with an empty cache, empty trees and an open log.\<close>

definition libs_ok :: "('c, 't, 'w, 'q, 'x) libs \<Rightarrow> bool" where
  "libs_ok L \<longleftrightarrow> cache_ok (lib_buf L) \<and> btree_ok (lib_buf L) \<and> wal_ok (lib_wal L) \<and> walcodec_ok (lib_wal L)"

definition outside_ok :: "('c, 't, 'w, 'q, 'x) libs \<Rightarrow> ('c, 't, 'w, 'q, 'x) outside \<Rightarrow> bool" where
  "outside_ok L out \<longleftrightarrow>
     (\<forall>c. out_cache out = Inr c \<longrightarrow> (\<forall>k. cache_Get (lib_buf L) c k = None)) \<and>
     (\<forall>w. out_wal out = Inr w \<longrightarrow> wl_valid (lib_wal L) w) \<and>
     bt_valid (lib_buf L) (out_tree out) \<and> bt_items (lib_buf L) (out_tree out) = []"

definition node_inv :: "('c, 't, 'w, 'q, 'x) libs \<Rightarrow> ('c, 't, 'w, 'q, 'x) Node \<Rightarrow> bool" where
  "node_inv L n \<longleftrightarrow> buf_inv (lib_buf L) (n_buffer n) \<and> gossip_inv (n_gossip n) \<and>
     (\<exists>w. n_wal n = Some w \<and> log_inv (lib_wal L) w)"

lemma freshRun_inv:
  assumes "cache_ok B" and "btree_ok B" and "freshRun B nds sigs ib" and "buf_inv B (snd ib)"
  shows "buf_inv B (snd (fold (storeNext B nds) sigs ib))"
  using assms(3,4)
proof (induction sigs arbitrary: ib)
  case (Cons sig sigs)
  have "buf_inv B (snd (storeNext B nds sig ib))"
    using Cons.prems by (simp add: storeNext_def Store_inv [OF assms(1,2)])
  then show ?case using Cons by simp
qed simp

lemma replayInto_eq:
  assumes "wal_ok W" and "wl_valid W w"
  shows "replayInto B W nds w b = snd (fold (storeNext B nds) (logged W w) (0, b))"
  by (simp add: replayInto_def Replay_logged [OF assms])

lemma startNode_Inr:
  assumes "startNode L out cfg nds = Inr n"
  obtains w x c tel gsp where "out_wal out = Inr w" "out_cache out = Inr c"
    "gossip_Start (out_memberlist out) (out_queue out) (gossip_New (cfg_Gossip cfg)) = (gsp, None)"
    "n = \<lparr>n_proc = processor_New (replayInto (lib_buf L) (lib_wal L) nds w (buffer_New c (out_tree out)))
        (rollup_New (cfg_Rollup cfg)) x tel, n_wal = Some w, n_gossip = gsp, n_highLoadActive = False\<rparr>"
  using assms
  by (auto simp: startNode_def wal_Open_def Let_def split: sum.splits option.splits prod.splits)

lemma startNode_inv:
  assumes "libs_ok L" and "outside_ok L out" and "startNode L out cfg nds = Inr n" and "freshStart L out nds"
  shows "node_inv L n"
proof -
  have ok: "cache_ok (lib_buf L)" "btree_ok (lib_buf L)" "wal_ok (lib_wal L)" "walcodec_ok (lib_wal L)"
    using assms(1) by (simp_all add: libs_ok_def)
  obtain w x c tel gsp where n: "out_wal out = Inr w" "out_cache out = Inr c"
    "gossip_Start (out_memberlist out) (out_queue out) (gossip_New (cfg_Gossip cfg)) = (gsp, None)"
    "n = \<lparr>n_proc = processor_New (replayInto (lib_buf L) (lib_wal L) nds w (buffer_New c (out_tree out)))
        (rollup_New (cfg_Rollup cfg)) x tel, n_wal = Some w, n_gossip = gsp, n_highLoadActive = False\<rparr>"
    by (rule startNode_Inr [OF assms(3)])
  have valid: "wl_valid (lib_wal L) w" using assms(2) n(1) by (simp add: outside_ok_def)
  have "buf_inv (lib_buf L) (buffer_New c (out_tree out))"
    using assms(2) n(2) by (intro buffer_New_inv) (simp_all add: outside_ok_def)
  moreover have "freshRun (lib_buf L) nds (logged (lib_wal L) w) (0, buffer_New c (out_tree out))"
    using assms(4) n(1,2) by (simp add: freshStart_def)
  ultimately have "buf_inv (lib_buf L) (replayInto (lib_buf L) (lib_wal L) nds w (buffer_New c (out_tree out)))"
    unfolding replayInto_eq [OF ok(3) valid] by (intro freshRun_inv [OF ok(1,2)]) simp_all
  moreover have "gossip_inv gsp"
  proof -
    have "out_memberlist out = None" using n(3) by (simp add: gossip_Start_def split: option.splits)
    then show ?thesis using n(3) gossip_inv_start by simp
  qed
  ultimately show ?thesis using ok valid by (simp add: node_inv_def n(4) processor_New_def log_inv_def)
qed

lemma BroadcastTrigger_inv:
  "BroadcastTrigger E t m = Inr (m', r) \<Longrightarrow> gossip_inv m \<Longrightarrow> gossip_inv m'"
  by (rule gossip_inv_step [OF gossip_step.trigger])

lemma EvaluateTrace_gossip:
  assumes "EvaluateTrace P (decision_New cfg (Some (BroadcastDecision E)) dbg) now ts m = Inr m'" and "gossip_inv m"
  shows "gossip_inv m'"
proof -
  have "m' = m \<or> (\<exists>d r. BroadcastDecision E d m = Inr (m', r))"
    using assms(1)
    by (auto simp: EvaluateTrace_def evalPolicies_find triggerDecision_def decision_New_def Let_def
        split: option.splits if_splits sum.splits)
  then show ?thesis using assms(2) gossip_inv_step [OF gossip_step.decision] by blast
qed

lemma EvaluateTrace_returns:
  assumes "gm_broadcasts m \<noteq> None"
  shows "\<exists>m'. EvaluateTrace P (decision_New cfg (Some (BroadcastDecision E)) dbg) now ts m = Inr m'"
  using assms
  by (auto simp: EvaluateTrace_def evalPolicies_find triggerDecision_def decision_New_def Let_def
      BroadcastDecision_def split: option.split sum.split)

lemma consumeDecision_inv:
  "consumeDecision L cfg now sig m = Inr m' \<Longrightarrow> gossip_inv m \<Longrightarrow> gossip_inv m'"
  by (auto simp: consumeDecision_def intro: EvaluateTrace_gossip split: Signal.splits)

lemma wal_Write_inv: "log_inv W w \<Longrightarrow> log_inv W (fst (wal_Write W sig w))"
proof -
  assume inv: "log_inv W w"
  then have ok: "wal_ok W" "walcodec_ok W" "wl_valid W w" by (simp_all add: log_inv_def)
  have "fst (wal_Write W sig w) = w \<or>
      (\<exists>n b. wl_LastIndex W w = Inr n \<and> fst (wal_Write W sig w) = fst (wl_Write W w (n + 1) b))"
    by (auto simp: wal_Write_def split: option.splits sum.splits prod.splits)
  then show ?thesis
    using inv ok wal_okD(6) [OF ok(1,3)] by (metis log_inv_def prod.collapse)
qed

lemma consumeWal_inv:
  assumes "log_inv W w" and "consumeWal W sig (Some w) = (w', err)"
  shows "\<exists>l. w' = Some l \<and> log_inv W l"
  using assms wal_Write_inv [OF assms(1), of sig] by (auto simp: consumeWal_def split: prod.splits)

lemma Consume_inv:
  assumes "libs_ok L" and "node_inv L n" and "fresh nd (n_buffer n)"
    and "Consume L cfg nd now sig n = Inr (n', err)"
  shows "node_inv L n'"
proof -
  have ok: "cache_ok (lib_buf L)" "btree_ok (lib_buf L)" using assms(1) by (simp_all add: libs_ok_def)
  obtain l where n: "buf_inv (lib_buf L) (n_buffer n)" "gossip_inv (n_gossip n)" "n_wal n = Some l" "log_inv (lib_wal L) l"
    using assms(2) by (auto simp: node_inv_def)
  obtain w e where w: "consumeWal (lib_wal L) sig (n_wal n) = (w, e)" by fastforce
  obtain l' where l': "w = Some l'" "log_inv (lib_wal L) l'"
    using consumeWal_inv [OF n(4)] w n(3) by metis
  obtain b r where b: "Store (lib_buf L) nd sig (n_buffer n) = (b, r)" by fastforce
  have "buf_inv (lib_buf L) b" using Store_inv [OF ok n(1) assms(3), of sig] b by simp
  then show ?thesis
    using assms(4) n l' w b
    by (auto simp: Consume_def node_inv_def Let_def res_bind_Inr_iff
        dest: consumeDecision_inv split: option.splits)
qed

lemma loadTick_inv:
  assumes "node_inv L n" and "loadTick L cfg now n = Inr n'"
  shows "node_inv L n'"
  using assms
  by (auto simp: loadTick_def Let_def res_bind_Inr_iff node_inv_def dest: BroadcastTrigger_inv split: if_splits)

lemma TruncateBefore_valid:
  assumes "wal_ok W" and "wl_valid W w"
  shows "wl_valid W (fst (TruncateBefore W t w))"
proof -
  have "fst (TruncateBefore W t w) = w \<or> (\<exists>i. fst (TruncateBefore W t w) = fst (wl_TruncateFront W w i))"
    by (auto simp: TruncateBefore_def Let_def split: sum.splits)
  then show ?thesis using wal_ok_truncate(1) [OF assms] assms(2) by (metis prod.collapse)
qed

lemma handleEvictedSignal_buffer [simp]: "pr_buffer (handleEvictedSignal sig p) = pr_buffer p"
  by (cases sig) simp_all

lemma processTrigger_buffer [simp]: "pr_buffer (processTrigger t p) = pr_buffer p"
  by (simp add: processTrigger_def)

lemma node_loop_inv:
  assumes "libs_ok L" and "node_loop L cfg n n'" and "node_inv L n"
  shows "node_inv L n'"
  using assms(2,3)
proof (cases rule: node_loop.cases)
  case (decision d ch nd)
  have "cache_ok (lib_buf L) \<and> btree_ok (lib_buf L) \<and> buf_inv (lib_buf L) (n_buffer n)"
    using assms(1,3) by (simp add: libs_ok_def node_inv_def)
  then have "buf_inv (lib_buf L) (pr_buffer (decide (lib_buf L) nd (lib_rpc L) d (n_proc n)))"
    using proc.processDecision_binv by blast
  then show ?thesis
    using decision assms(3) gossip_inv_step [OF gossip_step.recv_decision] by (auto simp: node_inv_def)
next
  case (trigger t ch)
  then show ?thesis
    using assms(3) gossip_inv_step [OF gossip_step.recv_trigger] by (auto simp: node_inv_def)
next
  case (evicted sig ch)
  then show ?thesis using assms(3) recv_inv by (auto simp: node_inv_def)
next
  case (rollup nd now p)
  have "cache_ok (lib_buf L) \<and> btree_ok (lib_buf L) \<and> buf_inv (lib_buf L) (n_buffer n)"
    using assms(1,3) by (simp add: libs_ok_def node_inv_def)
  then show ?thesis using proc.performRollup_clears [OF _ rollup(2)] rollup(1) assms(3) by (simp add: node_inv_def)
next
  case (load now)
  then show ?thesis using loadTick_inv [OF assms(3)] by blast
next
  case (truncate now)
  then show ?thesis
    using assms(3) TruncateBefore_valid
    by (auto simp: node_inv_def truncationTick_def log_inv_def)
next
  case (clean nd)
  then show ?thesis
    using assms(1,3) cacheClean_inv by (auto simp: node_inv_def libs_ok_def)
qed

lemma node_step_inv:
  assumes "libs_ok L" and "node_step L cfg n n'" and "node_inv L n"
  shows "node_inv L n'"
  using assms(2,3)
proof (cases rule: node_step.cases)
  case (receive nd now sig err)
  then show ?thesis using Consume_inv [OF assms(1,3)] by blast
next
  case background
  then show ?thesis using node_loop_inv [OF assms(1) _ assms(3)] by blast
next
  case (peer msg)
  then show ?thesis using assms(3) gossip_inv_step [OF gossip_step.notify] by (auto simp: node_inv_def)
next
  case (gather ov lim msgs m)
  then show ?thesis using assms(3) gossip_inv_step [OF gossip_step.gather] by (auto simp: node_inv_def)
qed

lemma node_reachable_inv:
  assumes "libs_ok L" and "outside_ok L out"
  shows "node_reachable L cfg out n \<Longrightarrow> node_inv L n"
proof (induction rule: node_reachable.induct)
  case (start nds n)
  then show ?case using startNode_inv [OF assms] by blast
next
  case (step n n')
  then show ?case using node_step_inv [OF assms(1)] by blast
qed

end
