(* ===== verification/NodeExample.thy ===== *)
theory NodeExample
  imports Server
begin

text \<open>
  A concrete node for evaluations: the list cache, the list log and the table encodings of the
  components' examples, and a node that has just started on them.
\<close>

definition libs_example :: "(listCache, TimeKey list, listLog, broadcast list, Export list) libs" where
  "libs_example = \<lparr>lib_buf = sampled_env, lib_wal = wal_env, lib_gossip = env_always, lib_rpc = rpc_example\<rparr>"

definition outside_example :: "(listCache, TimeKey list, listLog, broadcast list, Export list) outside" where
  "outside_example = \<lparr>out_telemetry = (None, None), out_mkdir = None, out_wal = Inr (1, []),
     out_client = (\<lambda>_. Inr []), out_cache = Inr [], out_tree = [], out_memberlist = None, out_queue = [],
     out_gauges = (None, None)\<rparr>"

definition node_example :: "(listCache, TimeKey list, listLog, broadcast list, Export list) Node" where
  "node_example = \<lparr>n_proc = processor_New empty_buffer (rollup_New (cfg_Rollup DefaultConfig)) []
       (Some \<lparr>tel_SignalsReceived = 0, tel_TracesSampled = 0, tel_RollupsTotal = 0,
         tel_BufferItems = True, tel_GossipPeers = True\<rparr>),
     n_wal = Some (1, []), n_gossip = manager_example, n_highLoadActive = False\<rparr>"

lemma libs_example_ok: "libs_ok libs_example" "outside_ok libs_example outside_example"
  by (simp_all add: libs_ok_def libs_example_def sampled_laws wal_env_def wal_example_ok wal_example_codec,
      simp add: outside_ok_def libs_example_def outside_example_def sampled_env_def buf_example_def
        wal_env_def wal_example_def)

text \<open>The node starts with an empty log, whatever its other libraries are.\<close>

lemma node_starts:
  assumes "lib_wal L = wal_env"
  shows "startNode L outside_example DefaultConfig (\<lambda>i. nd_example 5 ''u'') = Inr node_example"
    and "freshStart L outside_example (\<lambda>i. nd_example 5 ''u'')"
proof -
  have nolog: "logged wal_env (Suc 0, []) = []"
    by (simp add: logged_def wal_env_def wal_example_def map_filter_simps)
  have "replayInto (lib_buf L) wal_env (\<lambda>i. nd_example 5 ''u'') (Suc 0, []) empty_buffer = empty_buffer"
    using replayInto_eq [of wal_env "(Suc 0, [])"] nolog
    by (simp add: wal_env_def wal_example_ok, simp add: wal_example_def)
  then show "startNode L outside_example DefaultConfig (\<lambda>i. nd_example 5 ''u'') = Inr node_example"
    by (simp add: startNode_def outside_example_def wal_Open_def exporter_New_def assms
        telemetry_Init_def registerGauges_def RegisterBufferGauge_def RegisterGossipGauge_def discovery_New_def
        DefaultConfig_def node_example_def manager_example_def gossip_Start_def)
  show "freshStart L outside_example (\<lambda>i. nd_example 5 ''u'')"
    by (simp add: freshStart_def outside_example_def assms nolog)
qed

lemma node_example_starts:
  "startNode (libs_example\<lparr>lib_gossip := G\<rparr>) outside_example DefaultConfig (\<lambda>i. nd_example 5 ''u'') = Inr node_example"
  "freshStart (libs_example\<lparr>lib_gossip := G\<rparr>) outside_example (\<lambda>i. nd_example 5 ''u'')"
  by (rule node_starts, simp add: libs_example_def)+

lemma node_example_reachable: "node_reachable libs_example DefaultConfig outside_example node_example"
  using node_reachable.start [OF node_example_starts, of "lib_gossip libs_example"] by simp

end
