(* ===== verification/Recovery.thy ===== *)
theory Recovery
  imports NodeExample
begin

text \<open>
  Recovery after a crash: the log that a node has written while it consumed signals, replayed into
  a new buffer at a later time, rebuilds the traces and the trace-bound logs the node held.
\<close>

subsection \<open>Storing any signal\<close>

text \<open>A signal that is stored without evictions and with successful marshalling.\<close>

fun quietSignal :: "('c, 't) bufenv \<Rightarrow> nondet \<Rightarrow> Signal \<Rightarrow> ('c, 't) InMemoryBuffer \<Rightarrow> bool" where
  "quietSignal E nd (SigTrace s) b = quietTraces E nd s b"
| "quietSignal E nd (SigMetric s) b = (case be_MarshalMetrics E (ms_Metrics s) of
     (data, Some err) \<Rightarrow> True | (data, None) \<Rightarrow> quietSet E b (metricKey nd) data)"
| "quietSignal E nd (SigLog s) b = quietSplitLogs E nd s b"
| "quietSignal E nd (OtherSignal t c) b = True"

text \<open>What a signal adds to a trace and to the logs of a trace.\<close>

fun spansFor :: "TraceID \<Rightarrow> Signal \<Rightarrow> Traces" where
  "spansFor tid (SigTrace s) = itemsFor tid (flatSpans (ts_Traces s))"
| "spansFor tid _ = []"

fun logsFor :: "TraceID \<Rightarrow> Signal \<Rightarrow> Logs" where
  "logsFor tid (SigLog s) = itemsFor tid (flatRecords (ls_Logs s))"
| "logsFor tid _ = []"

text \<open>An entry that is written under a time key leaves all traces alone.\<close>

definition sameTraces :: "('c, 't) bufenv \<Rightarrow> ('c, 't) InMemoryBuffer \<Rightarrow> ('c, 't) InMemoryBuffer \<Rightarrow> bool" where
  "sameTraces E b' b \<longleftrightarrow> (\<forall>tid. cache_Get E (b_cache b') (EncodeToString tid) = cache_Get E (b_cache b) (EncodeToString tid))"

lemma sameTraces_views:
  assumes "sameTraces E b' b"
  shows "traceOf E b' = traceOf E b" and "logsOf E b' = logsOf E b" and "store_ok E b' \<longleftrightarrow> store_ok E b"
  using assms views_other [of E b' _ b]
  by (auto simp: sameTraces_def fun_eq_iff store_ok_def entries_ok_def)

lemma quietSet_sameTraces:
  assumes "store_ok E b" and "quietSet E b k data" and "isMetricKey k \<or> isLogKey k"
  shows "sameTraces E (fst (cacheSet E nd k data b)) b"
proof -
  have "EncodeToString tid \<noteq> k" for tid using hex_not_indexed [of tid] assms(3) by metis
  then show ?thesis
    using assms(1) quietSet_cache(2) [OF _ assms(2)] by (auto simp: sameTraces_def store_ok_def)
qed

lemma storeMetric_sameTraces:
  assumes "store_ok E b" and "quietSignal E nd (SigMetric s) b"
  shows "sameTraces E (fst (storeMetric E nd s b)) b"
proof (cases "be_MarshalMetrics E (ms_Metrics s)")
  case (Pair data err)
  show ?thesis
  proof (cases err)
    case None
    then have q: "quietSet E b (metricKey nd) data" using assms(2) Pair by simp
    obtain b1 where "cacheSet E nd (metricKey nd) data b = (b1, None)"
      using quietSet_err [OF q] by (metis prod.collapse)
    then show ?thesis
      using quietSet_sameTraces [OF assms(1) q, of nd] own_keys(1) [of nd] None Pair
      by (simp add: storeMetric_def Let_def sameTraces_def)
  qed (simp add: storeMetric_def Pair sameTraces_def)
qed

lemma storeTimeLogs_sameTraces:
  assumes "store_ok E b" and "be_MarshalLogs E l = (data, None)" and "quietSet E b (timeLogKey nd) data"
  shows "sameTraces E (storeTimeLogs E nd l b) b"
proof -
  obtain b1 where "cacheSet E nd (timeLogKey nd) data b = (b1, None)"
    using quietSet_err [OF assms(3)] by (metis prod.collapse)
  then show ?thesis
    using quietSet_sameTraces [OF assms(1,3), of nd] own_keys(2) [of nd] assms(2)
    by (simp add: storeTimeLogs_def Let_def sameTraces_def)
qed

lemma storeSplitLogs_views:
  assumes "store_ok E b" and "range_ok nd" and "quietSplitLogs E nd s b"
  shows "\<not> pd_IsEmpty (be_pd E) tid \<Longrightarrow> logsOf E (fst (storeSplitLogs E nd s b)) tid =
      logsOf E b tid @ itemsFor tid (flatRecords (ls_Logs s))"
    and "traceOf E (fst (storeSplitLogs E nd s b)) = traceOf E b"
    and "store_ok E (fst (storeSplitLogs E nd s b))"
proof -
  obtain m l where split: "splitRecords (be_pd E) (ls_Logs s) = (m, l)" by fastforce
  let ?b1 = "fold (\<lambda>tid b. fst (storeTraceLogs E nd tid (the (map_of m tid)) b)) (nd_range nd (map fst m)) b"
  have q: "quietTraceLogs E nd s b" using assms(3) by (simp add: quietSplitLogs_def)
  note v = storeTraceLogs_fold_views [OF assms(1,2) q, unfolded split fst_conv]
  have "sameTraces E (fst (storeSplitLogs E nd s b)) ?b1"
  proof (cases l)
    case (Some l')
    then have "snd (be_MarshalLogs E l') = None \<and> quietSet E ?b1 (timeLogKey nd) (fst (be_MarshalLogs E l'))"
      using assms(3) by (simp add: quietSplitLogs_def split)
    then show ?thesis
      using storeTimeLogs_sameTraces [OF v(3), of l' "fst (be_MarshalLogs E l')" nd] Some
      by (cases "be_MarshalLogs E l'") (simp add: storeSplitLogs_def split)
  qed (simp add: storeSplitLogs_def split sameTraces_def)
  note same = sameTraces_views [OF this]
  show "\<not> pd_IsEmpty (be_pd E) tid \<Longrightarrow> logsOf E (fst (storeSplitLogs E nd s b)) tid =
      logsOf E b tid @ itemsFor tid (flatRecords (ls_Logs s))"
    using v(1) same(2) by simp
  show "traceOf E (fst (storeSplitLogs E nd s b)) = traceOf E b" using v(2) same(1) by simp
  show "store_ok E (fst (storeSplitLogs E nd s b))" using v(3) same(3) by simp
qed

lemma Store_views:
  assumes "store_ok E b" and "range_ok nd" and "quietSignal E nd sig b"
  shows "\<not> pd_IsEmpty (be_pd E) tid \<Longrightarrow> traceOf E (fst (Store E nd sig b)) tid = traceOf E b tid @ spansFor tid sig"
    and "\<not> pd_IsEmpty (be_pd E) tid \<Longrightarrow> logsOf E (fst (Store E nd sig b)) tid = logsOf E b tid @ logsFor tid sig"
    and "store_ok E (fst (Store E nd sig b))"
  using assms storeTraces_views [OF assms(1,2)] storeSplitLogs_views [OF assms(1,2)]
    sameTraces_views [OF storeMetric_sameTraces [OF assms(1)]]
  by (cases sig; simp)+

subsection \<open>A run of a node, and its log\<close>

text \<open>
  Signals arrive one after the other; \<open>nds i\<close> are the clock, UUID and map order of the
  \<open>i\<close>-th one that gets past the log.  The second component collects those.
\<close>

definition consumeNext :: "('c, 't, 'w, 'q, 'x) libs \<Rightarrow> DecisionConfig \<Rightarrow> (nat \<Rightarrow> nondet) \<Rightarrow> time \<times> Signal \<Rightarrow>
    ('c, 't, 'w, 'q, 'x) Node \<times> Signal list \<Rightarrow> (('c, 't, 'w, 'q, 'x) Node \<times> Signal list) res" where
  "consumeNext L cfg nds req st =
     (let n = fst st; acc = snd st; sig = snd req in
      res_bind (Consume L cfg (nds (length acc)) (fst req) sig n)
        (\<lambda>(n', err). Inr (n', if snd (consumeWal (lib_wal L) sig (n_wal n)) = None then acc @ [sig] else acc)))"

primrec consumeAll :: "('c, 't, 'w, 'q, 'x) libs \<Rightarrow> DecisionConfig \<Rightarrow> (nat \<Rightarrow> nondet) \<Rightarrow> (time \<times> Signal) list \<Rightarrow>
    ('c, 't, 'w, 'q, 'x) Node \<times> Signal list \<Rightarrow> (('c, 't, 'w, 'q, 'x) Node \<times> Signal list) res" where
  "consumeAll L cfg nds [] st = Inr st"
| "consumeAll L cfg nds (req # reqs) st = res_bind (consumeNext L cfg nds req st) (consumeAll L cfg nds reqs)"

text \<open>The state after some signals got past the log: it and the buffer have taken in the same ones.\<close>

definition took :: "('c, 't, 'w, 'q, 'x) libs \<Rightarrow> (nat \<Rightarrow> nondet) \<Rightarrow>
    ('c, 't, 'w, 'q, 'x) Node \<times> Signal list \<Rightarrow> ('c, 't, 'w, 'q, 'x) Node \<times> Signal list \<Rightarrow> bool" where
  "took L nds st st' \<longleftrightarrow> (\<exists>new w w'. snd st' = snd st @ new \<and>
     n_wal (fst st) = Some w \<and> n_wal (fst st') = Some w' \<and>
     log_inv (lib_wal L) w' \<and> logged (lib_wal L) w' = logged (lib_wal L) w @ map strip new \<and>
     (length (snd st'), n_buffer (fst st')) =
       fold (storeNext (lib_buf L) nds) new (length (snd st), n_buffer (fst st)))"

lemma took_trans:
  assumes "took L nds st st'" and "took L nds st' st''"
  shows "took L nds st st''"
proof -
  obtain new w w' where 1: "snd st' = snd st @ new" "n_wal (fst st) = Some w" "n_wal (fst st') = Some w'"
    "logged (lib_wal L) w' = logged (lib_wal L) w @ map strip new"
    "(length (snd st'), n_buffer (fst st')) =
       fold (storeNext (lib_buf L) nds) new (length (snd st), n_buffer (fst st))"
    using assms(1) by (auto simp: took_def)
  obtain new' w'' where 2: "snd st'' = snd st' @ new'" "n_wal (fst st'') = Some w''" "log_inv (lib_wal L) w''"
    "logged (lib_wal L) w'' = logged (lib_wal L) w' @ map strip new'"
    "(length (snd st''), n_buffer (fst st'')) =
       fold (storeNext (lib_buf L) nds) new' (length (snd st'), n_buffer (fst st'))"
    using assms(2) 1(3) by (auto simp: took_def)
  show ?thesis unfolding took_def
    by (rule exI [of _ "new @ new'"], rule exI [of _ w], rule exI [of _ w''])
       (simp add: 1(1,2,4) 2(1-4) 2(5) [unfolded 1(5)], simp add: 2(1) 1(1) flip: 2(5) [unfolded 1(5)])
qed

lemma consumeNext_took:
  assumes "consumeNext L cfg nds (now, sig) (n, acc) = Inr st'"
    and "n_wal n = Some w" and "log_inv (lib_wal L) w" and "ts_range (ReceivedAt (signal_Context sig))"
  shows "took L nds (n, acc) st'"
proof -
  obtain w' e where w': "wal_Write (lib_wal L) sig w = (w', e)" by fastforce
  obtain b r where b: "Store (lib_buf L) (nds (length acc)) sig (n_buffer n) = (b, r)" by fastforce
  show ?thesis
  proof (cases e)
    case None
    note log = wal_Write_ok [OF assms(3) w' [unfolded None] assms(4)]
    have "snd st' = acc @ [sig] \<and> n_wal (fst st') = Some w' \<and> n_buffer (fst st') = b"
      using assms(1,2) w' b None
      by (auto simp: consumeNext_def Consume_def consumeWal_def Let_def res_bind_Inr_iff split: option.splits)
    with log assms(2) b show ?thesis
      unfolding took_def by (intro exI [of _ "[sig]"] exI [of _ w] exI [of _ w']) (simp add: storeNext_def)
  next
    case (Some err)
    note log = wal_Write_fail [OF assms(3) w' [unfolded Some]]
    have "snd st' = acc \<and> n_wal (fst st') = Some w' \<and> n_buffer (fst st') = n_buffer n"
      using assms(1,2) w' Some
      by (auto simp: consumeNext_def Consume_def consumeWal_def Let_def res_bind_Inr_iff split: option.splits)
    with log assms(2) show ?thesis
      unfolding took_def by (intro exI [of _ "[]"] exI [of _ w] exI [of _ w']) simp
  qed
qed

lemma consumeAll_took:
  assumes "consumeAll L cfg nds reqs st = Inr st'" and "n_wal (fst st) = Some w" and "log_inv (lib_wal L) w"
    and "\<forall>req \<in> set reqs. ts_range (ReceivedAt (signal_Context (snd req)))"
  shows "took L nds st st'"
  using assms
proof (induction reqs arbitrary: st w)
  case Nil
  then show ?case unfolding took_def by (intro exI [of _ "[]"] exI [of _ w] exI [of _ w]) simp
next
  case (Cons req reqs)
  obtain st1 where st1: "consumeNext L cfg nds req st = Inr st1" "consumeAll L cfg nds reqs st1 = Inr st'"
    using Cons.prems(1) by (auto simp: res_bind_Inr_iff)
  have one: "took L nds st st1"
    using consumeNext_took [of L cfg nds "fst req" "snd req" "fst st" "snd st"] st1(1) Cons.prems by simp
  then obtain w1 where "n_wal (fst st1) = Some w1" "log_inv (lib_wal L) w1" by (auto simp: took_def)
  then have "took L nds st1 st'" using Cons.IH [OF st1(2)] Cons.prems(4) by simp
  with one show ?case by (rule took_trans)
qed

subsection \<open>What a run of stores leaves\<close>

primrec quietRun :: "('c, 't) bufenv \<Rightarrow> (nat \<Rightarrow> nondet) \<Rightarrow> Signal list \<Rightarrow> nat \<times> ('c, 't) InMemoryBuffer \<Rightarrow> bool" where
  "quietRun B nds [] ib \<longleftrightarrow> True"
| "quietRun B nds (sig # sigs) ib \<longleftrightarrow> range_ok (nds (fst ib)) \<and> quietSignal B (nds (fst ib)) sig (snd ib) \<and>
     quietRun B nds sigs (storeNext B nds sig ib)"

lemma quietRun_views:
  assumes "store_ok B (snd ib)" and "quietRun B nds sigs ib" and "\<not> pd_IsEmpty (be_pd B) tid"
  shows "traceOf B (snd (fold (storeNext B nds) sigs ib)) tid = traceOf B (snd ib) tid @ concat (map (spansFor tid) sigs) \<and>
    logsOf B (snd (fold (storeNext B nds) sigs ib)) tid = logsOf B (snd ib) tid @ concat (map (logsFor tid) sigs)"
  using assms(1,2)
proof (induction sigs arbitrary: ib)
  case (Cons sig sigs)
  then show ?case using Store_views [of B "snd ib" "nds (fst ib)" sig] assms(3) by (simp add: storeNext_def)
qed simp

lemma strip_For [simp]: "spansFor tid (strip sig) = spansFor tid sig" "logsFor tid (strip sig) = logsFor tid sig"
  by (cases sig; simp)+

subsection \<open>Recovery\<close>

lemma replay_views:
  assumes "log_inv (lib_wal L) w" and "logged (lib_wal L) w = []" and "n_wal n = Some w"
    and "store_ok (lib_buf L) (n_buffer n)" and "store_ok (lib_buf L) b"
    and "traceOf (lib_buf L) (n_buffer n) = traceOf (lib_buf L) b"
    and "logsOf (lib_buf L) (n_buffer n) = logsOf (lib_buf L) b"
    and "\<forall>req \<in> set reqs. ts_range (ReceivedAt (signal_Context (snd req)))"
    and "consumeAll L cfg nds reqs (n, []) = Inr (n', acc)" and "n_wal n' = Some w'"
    and "quietRun (lib_buf L) nds acc (0, n_buffer n)"
    and "quietRun (lib_buf L) nds' (logged (lib_wal L) w') (0, b)"
    and "\<not> pd_IsEmpty (be_pd (lib_buf L)) tid"
  shows "traceOf (lib_buf L) (replayInto (lib_buf L) (lib_wal L) nds' w' b) tid = traceOf (lib_buf L) (n_buffer n') tid \<and>
    logsOf (lib_buf L) (replayInto (lib_buf L) (lib_wal L) nds' w' b) tid = logsOf (lib_buf L) (n_buffer n') tid"
proof -
  have "took L nds (n, []) (n', acc)" using consumeAll_took [OF assms(9) _ assms(1) assms(8)] assms(3) by simp
  then have log: "log_inv (lib_wal L) w'" "logged (lib_wal L) w' = map strip acc"
    and buf: "n_buffer n' = snd (fold (storeNext (lib_buf L) nds) acc (0, n_buffer n))"
    using assms(2,3,10) by (auto simp: took_def dest: arg_cong [where f = snd])
  have "replayInto (lib_buf L) (lib_wal L) nds' w' b =
      snd (fold (storeNext (lib_buf L) nds') (logged (lib_wal L) w') (0, b))"
    using log(1) by (simp add: replayInto_eq log_inv_def)
  then show ?thesis
    using quietRun_views [where ib = "(0, b)", simplified, OF assms(5,12,13)]
      quietRun_views [where ib = "(0, n_buffer n)", simplified, OF assms(4,11,13)] assms(6,7)
    by (simp add: buf log(2) comp_def)
qed


text \<open>The concrete node receives a trace, which it logs, and a signal the log refuses.\<close>

definition libs_recovery :: "(listCache, TimeKey list, listLog, broadcast list, Export list) libs" where
  "libs_recovery = libs_example\<lparr>lib_buf := trace_env\<rparr>"

definition recovery_requests :: "(time \<times> Signal) list" where
  "recovery_requests = [(5, wal_signal 5), (6, OtherSignal TypeLog (ctxAt 6))]"

definition crashed :: "(listCache, TimeKey list, listLog, broadcast list, Export list) Node \<times> Signal list" where
  "crashed = projr (consumeAll libs_recovery (cfg_Decision DefaultConfig) (\<lambda>_. nd_example 5 ''u'')
     recovery_requests (node_example, []))"

lemma crashed_run:
  "consumeAll libs_recovery (cfg_Decision DefaultConfig) (\<lambda>_. nd_example 5 ''u'')
     recovery_requests (node_example, []) = Inr (fst crashed, [wal_signal 5])"
  "n_wal (fst crashed) = Some (1, [[1]])"
  "spans_of (traceOf trace_env (n_buffer (fst crashed)) tidA) = [span_example tidA StatusCodeOk]"
proof -
  have "\<not> isl (consumeAll libs_recovery (cfg_Decision DefaultConfig) (\<lambda>_. nd_example 5 ''u'')
     recovery_requests (node_example, []))" by code_simp
  moreover have "snd crashed = [wal_signal 5]" by code_simp
  ultimately show "consumeAll libs_recovery (cfg_Decision DefaultConfig) (\<lambda>_. nd_example 5 ''u'')
     recovery_requests (node_example, []) = Inr (fst crashed, [wal_signal 5])"
    by (metis crashed_def prod.collapse sum.collapse(2))
  show "n_wal (fst crashed) = Some (1, [[1]])" by code_simp
  show "spans_of (traceOf trace_env (n_buffer (fst crashed)) tidA) = [span_example tidA StatusCodeOk]" by code_simp
qed

lemma recovery_quiet: "quietSignal trace_env (nd_example t u) (SigTrace (s\<lparr>ts_Traces := traces_example [span_example tidA StatusCodeOk]\<rparr>)) empty_buffer"
proof -
  have "groupSpans (be_pd trace_env) (traces_example [span_example tidA StatusCodeOk]) =
      [(tidA, [wrapped tidA StatusCodeOk])]" by code_simp
  moreover have "quietTrace trace_env (nd_example t u) tidA [wrapped tidA StatusCodeOk] empty_buffer"
    unfolding trace_env_quiet silentTrace_def silentSet_def
    by (simp add: loadStored_def mergedTraces_def buffer_New_def, simp add: trace_env_def buf_example_def
        tableMarshal_def cacheSet_example_def)
  ultimately show ?thesis by (simp add: quietTraces_def, simp add: nd_example_def)
qed

lemma recovery_logs: "logged wal_env (1, []) = []" "logged wal_env (1, [[1]]) = [strip (wal_signal 5)]"
  by code_simp+

lemma recovery_store_ok: "store_ok trace_env empty_buffer"
  using empty_buffer_store_ok by (simp add: trace_env_def)

lemma recovery_quiet_runs:
  "quietRun trace_env (\<lambda>_. nd_example 5 ''u'') [wal_signal 5] (0, empty_buffer)"
  "quietRun trace_env (\<lambda>_. nd_example 9 ''v'') [strip (wal_signal 5)] (0, empty_buffer)"
proof -
  have "quietRun trace_env (\<lambda>_. nd_example t u) [SigTrace (s\<lparr>ts_Traces := traces_example [span_example tidA StatusCodeOk]\<rparr>)]
      (0, empty_buffer)" for t u s
    using recovery_quiet by (simp add: nd_example_range_ok)
  from this [of _ _ "\<lparr>ts_Traces = [], ts_Ctx = c\<rparr>" for c]
  show "quietRun trace_env (\<lambda>_. nd_example 5 ''u'') [wal_signal 5] (0, empty_buffer)"
    "quietRun trace_env (\<lambda>_. nd_example 9 ''v'') [strip (wal_signal 5)] (0, empty_buffer)"
    by (simp_all add: wal_signal_def)
qed


end
