(* ===== verification/Cluster.thy ===== *)
theory Cluster
  imports Recovery
begin

text \<open>
  Several nodes.  Every node runs the program on its own; the member list of
  \<open>hashicorp/memberlist\<close> asks a node for the messages it has queued and hands them to the
  delegates of other nodes, with loss, duplication and delay.  Shown here: every node of a cluster
  behaves like a single node among arbitrary peers; no node acts on a decision that was not caused
  by a matching batch at some node; and a decision taken by one node makes every other node export
  the spans of the trace that it holds.
\<close>

subsection \<open>The cluster\<close>

text \<open>
  The nodes by number, the messages the network has been given, and, for the statements only, the
  signals the nodes have consumed.
\<close>

record ('c, 't, 'w, 'q, 'x) cluster =
  cl_nodes :: "nat \<Rightarrow> ('c, 't, 'w, 'q, 'x) Node"
  cl_sent :: "bytes list"
  cl_seen :: "(nat \<times> Signal) list"

inductive cluster_step :: "('c, 't, 'w, 'q, 'x) libs \<Rightarrow> (nat \<Rightarrow> Config) \<Rightarrow>
    ('c, 't, 'w, 'q, 'x) cluster \<Rightarrow> ('c, 't, 'w, 'q, 'x) cluster \<Rightarrow> bool" for L cfg where
  client: "cl_nodes c i = n \<Longrightarrow> fresh nd (n_buffer n) \<Longrightarrow>
    Consume L (cfg_Decision (cfg i)) nd now sig n = Inr (n', err) \<Longrightarrow>
    cluster_step L cfg c (c\<lparr>cl_seen := (i, sig) # cl_seen c, cl_nodes := (cl_nodes c)(i := n')\<rparr>)"
| goroutine: "node_loop L (cfg i) (cl_nodes c i) n' \<Longrightarrow>
    cluster_step L cfg c (c\<lparr>cl_nodes := (cl_nodes c)(i := n')\<rparr>)"
| send: "cl_nodes c i = n \<Longrightarrow> GetBroadcasts (lib_gossip L) ov lim (n_gossip n) = Inr (msgs, m) \<Longrightarrow>
    cluster_step L cfg c (c\<lparr>cl_nodes := (cl_nodes c)(i := n\<lparr>n_gossip := m\<rparr>), cl_sent := msgs @ cl_sent c\<rparr>)"
| deliver: "cl_nodes c j = n \<Longrightarrow> msg \<in> set (cl_sent c) \<Longrightarrow>
    cluster_step L cfg c (c\<lparr>cl_nodes := (cl_nodes c)(j := n\<lparr>n_gossip := NotifyMsg (lib_gossip L) msg (n_gossip n)\<rparr>)\<rparr>)"

inductive cluster_reachable :: "('c, 't, 'w, 'q, 'x) libs \<Rightarrow> (nat \<Rightarrow> Config) \<Rightarrow>
    (nat \<Rightarrow> ('c, 't, 'w, 'q, 'x) outside) \<Rightarrow> ('c, 't, 'w, 'q, 'x) cluster \<Rightarrow> bool" for L cfg out where
  boot: "(\<And>i. \<exists>nds. startNode L (out i) (cfg i) nds = Inr (nodes i) \<and> freshStart L (out i) nds) \<Longrightarrow>
    cluster_reachable L cfg out \<lparr>cl_nodes = nodes, cl_sent = [], cl_seen = []\<rparr>"
| run: "cluster_reachable L cfg out c \<Longrightarrow> cluster_step L cfg c c' \<Longrightarrow> cluster_reachable L cfg out c'"

lemma cluster_step_node:
  assumes "cluster_step L cfg c c'"
  shows "cl_nodes c' i = cl_nodes c i \<or> node_step L (cfg i) (cl_nodes c i) (cl_nodes c' i)"
  using assms
proof (cases rule: cluster_step.cases)
  case (client j n nd now sig n' err)
  then show ?thesis using node_step.receive [of nd n L "cfg j"] by simp
next
  case (goroutine j n')
  then show ?thesis using node_step.background [of L "cfg j"] by simp
next
  case (send j n ov lim msgs m)
  then show ?thesis using node_step.gather [of L ov lim n msgs m "cfg j"] by simp
next
  case (deliver j n msg)
  then show ?thesis using node_step.peer [of L "cfg j" n msg] by simp
qed

lemma cluster_node_reachable:
  "cluster_reachable L cfg out c \<Longrightarrow> node_reachable L (cfg i) (out i) (cl_nodes c i)"
proof (induction rule: cluster_reachable.induct)
  case (boot nodes)
  obtain nds where "startNode L (out i) (cfg i) nds = Inr (nodes i)" "freshStart L (out i) nds"
    using boot [of i] by blast
  then show ?case using node_reachable.start [of L "out i" "cfg i" nds "nodes i"] by simp
next
  case (run c c')
  then show ?case using cluster_step_node [OF run(2), of i] node_reachable.step by metis
qed

subsection \<open>The cause of a decision\<close>

text \<open>
  The transmit queue hands out only what was queued; \<open>items\<close> are the messages in it.
\<close>

definition queue_ok :: "'q gossip_env \<Rightarrow> ('q \<Rightarrow> bytes set) \<Rightarrow> bool" where
  "queue_ok G items \<longleftrightarrow>
     (\<forall>q b. items (ge_QueueBroadcast G q b) \<subseteq> insert (bc_msg b) (items q)) \<and>
     (\<forall>q ov lim msgs q'. ge_GetBroadcasts G q ov lim = (msgs, q') \<longrightarrow>
        set msgs \<subseteq> items q \<and> items q' \<subseteq> items q)"

text \<open>
  For a predicate \<open>C\<close> on the trace ID and the reason of a decision: a message with a decision
  has it, and everything a gossip manager holds has it.
\<close>

definition msg_caused :: "'q gossip_env \<Rightarrow> (string \<Rightarrow> string \<Rightarrow> bool) \<Rightarrow> bytes \<Rightarrow> bool" where
  "msg_caused G C b \<longleftrightarrow> (\<forall>sd. ge_Unmarshal G b = Inr (Some (GossipMessage_SamplingDecision sd)) \<longrightarrow>
     C (pb_TraceId sd) (pb_Reason sd))"

definition gossip_caused :: "'q gossip_env \<Rightarrow> ('q \<Rightarrow> bytes set) \<Rightarrow> (string \<Rightarrow> string \<Rightarrow> bool) \<Rightarrow>
    'q Manager \<Rightarrow> bool" where
  "gossip_caused G items C m \<longleftrightarrow>
     (\<forall>d \<in> set (chanQueue (gm_decisionChan m)). C (sd_TraceID d) (sd_Reason d)) \<and>
     (\<forall>q b. gm_broadcasts m = Some q \<longrightarrow> b \<in> items q \<longrightarrow> msg_caused G C b)"

lemma set_trySend: "set (chanQueue (trySend x ch)) \<subseteq> insert x (set (chanQueue ch))"
  by (auto simp: trySend_def)

lemma set_recv: "recv ch = Some (x, ch') \<Longrightarrow> set (chanQueue ch') \<subseteq> set (chanQueue ch)"
  by (auto simp: recv_def split: list.splits)

lemma caused_BroadcastDecision:
  assumes "proto_ok G" and "queue_ok G items" and "gossip_caused G items C m"
    and "BroadcastDecision G d m = Inr (m', r)" and "C (sd_TraceID d) (sd_Reason d)"
  shows "gossip_caused G items C m'"
proof (cases r)
  case None
  obtain b q where b: "ge_Marshal G (Some (GossipMessage_SamplingDecision (toPbDecision G d))) = Inr b"
    and q: "gm_broadcasts m = Some q"
    and m': "m' = m\<lparr>gm_broadcasts := Some (ge_QueueBroadcast G q \<lparr>bc_msg = b\<rparr>),
             gm_decisionChan := trySend d (gm_decisionChan m)\<rparr>"
    using BroadcastDecision_queued assms(4) None by metis
  have "msg_caused G C b"
    using proto_okD(2) [OF assms(1) b] assms(5) by (simp add: msg_caused_def toPbDecision_def)
  moreover have "items (ge_QueueBroadcast G q \<lparr>bc_msg = b\<rparr>) \<subseteq> insert b (items q)"
    using assms(2) unfolding queue_ok_def by (metis broadcast.select_convs(1))
  ultimately show ?thesis
    using assms(3,5) q m' set_trySend [of d "gm_decisionChan m"] by (auto simp: gossip_caused_def)
next
  case (Some e)
  then show ?thesis
    using assms(3,4) by (auto simp: BroadcastDecision_def Let_def split: sum.splits option.splits)
qed

lemma caused_BroadcastTrigger:
  assumes "proto_ok G" and "queue_ok G items" and "gossip_caused G items C m"
    and "BroadcastTrigger G t m = Inr (m', r)"
  shows "gossip_caused G items C m'"
proof (cases r)
  case None
  obtain b q where b: "ge_Marshal G (Some (GossipMessage_TriggerEvent (toPbTrigger G t))) = Inr b"
    and q: "gm_broadcasts m = Some q"
    and m': "m' = m\<lparr>gm_broadcasts := Some (ge_QueueBroadcast G q \<lparr>bc_msg = b\<rparr>),
             gm_triggerChan := trySend t (gm_triggerChan m)\<rparr>"
    using BroadcastTrigger_queued assms(4) None by metis
  have "msg_caused G C b" using proto_okD(2) [OF assms(1) b] by (simp add: msg_caused_def)
  moreover have "items (ge_QueueBroadcast G q \<lparr>bc_msg = b\<rparr>) \<subseteq> insert b (items q)"
    using assms(2) unfolding queue_ok_def by (metis broadcast.select_convs(1))
  ultimately show ?thesis using assms(3) q m' by (auto simp: gossip_caused_def)
next
  case (Some e)
  then show ?thesis using assms(3,4) BroadcastTrigger_fail by metis
qed

lemma caused_NotifyMsg:
  assumes "gossip_caused G items C m" and "msg_caused G C b"
  shows "gossip_caused G items C (NotifyMsg G b m)"
proof -
  have send: "gossip_caused G items C (m\<lparr>gm_decisionChan := trySend d (gm_decisionChan m)\<rparr>)"
    if "C (sd_TraceID d) (sd_Reason d)" for d
    using that assms(1) set_trySend [of d "gm_decisionChan m"] by (auto simp: gossip_caused_def)
  show ?thesis
    using assms by (auto simp: NotifyMsg_def Let_def msg_caused_def intro: send
        split: sum.split option.split Payload.split) (auto simp: gossip_caused_def)
qed

lemma caused_GetBroadcasts:
  assumes "queue_ok G items" and "gossip_caused G items C m"
    and "GetBroadcasts G ov lim m = Inr (msgs, m')"
  shows "gossip_caused G items C m'" and "b \<in> set msgs \<Longrightarrow> msg_caused G C b"
proof -
  obtain q q' where q: "gm_broadcasts m = Some q" "ge_GetBroadcasts G q ov lim = (msgs, q')"
    "m' = m\<lparr>gm_broadcasts := Some q'\<rparr>"
    using assms(3) by (auto simp: GetBroadcasts_def split: option.splits prod.splits)
  have "set msgs \<subseteq> items q" "items q' \<subseteq> items q"
    using assms(1) q(2) unfolding queue_ok_def by blast+
  then show "gossip_caused G items C m'" "b \<in> set msgs \<Longrightarrow> msg_caused G C b"
    using assms(2) q(1,3) by (auto simp: gossip_caused_def)
qed

text \<open>A batch of the trace that matches a policy of the node that consumed it.\<close>

definition caused :: "pdata \<Rightarrow> (nat \<Rightarrow> Config) \<Rightarrow> (nat \<times> Signal) list \<Rightarrow> string \<Rightarrow> string \<Rightarrow> bool" where
  "caused P cfg seen tid reason \<longleftrightarrow> (\<exists>i ts. (i, SigTrace ts) \<in> set seen \<and>
     (\<exists>pol \<in> set (dec_Policies (cfg_Decision (cfg i))). policyMatched P ts pol \<and> reason = pol_Name pol) \<and>
     (\<exists>s \<in> set (spans_of (ts_Traces ts)). \<not> pd_IsEmpty P (span_traceID s) \<and>
        tid = EncodeToString (span_traceID s)))"

lemma firstTraceID_span:
  assumes "traceid_ok P" and "firstTraceID P ss \<noteq> []"
  shows "\<exists>s \<in> set ss. \<not> pd_IsEmpty P (span_traceID s) \<and> firstTraceID P ss = EncodeToString (span_traceID s)"
proof -
  obtain s where s: "find (\<lambda>s. \<not> pd_IsEmpty P (span_traceID s)) ss = Some s"
    using assms(2) by (auto simp: firstTraceID_def split: option.splits)
  then have "s \<in> set ss" "\<not> pd_IsEmpty P (span_traceID s)" by (auto simp: find_Some_iff)
  then show ?thesis using assms(1) s by (auto simp: firstTraceID_def traceid_ok_def)
qed

lemma Consume_gossip:
  assumes "traceid_ok (be_pd (lib_buf L))" and "Consume L (cfg_Decision (cfg i)) nd now sig n = Inr (n', err)"
  shows "n_gossip n' = n_gossip n \<or> (\<exists>d r. BroadcastDecision (lib_gossip L) d (n_gossip n) = Inr (n_gossip n', r) \<and>
     caused (be_pd (lib_buf L)) cfg ((i, sig) # seen) (sd_TraceID d) (sd_Reason d))"
proof -
  let ?P = "be_pd (lib_buf L)" and ?dc = "cfg_Decision (cfg i)"
  have same: "n_gossip n' = n_gossip n \<or> consumeDecision L ?dc now sig (n_gossip n) = Inr (n_gossip n')"
    using assms(2) by (auto simp: Consume_def Let_def res_bind_Inr_iff split: prod.splits option.splits)
  have "n_gossip n' = n_gossip n \<or> (\<exists>d r. BroadcastDecision (lib_gossip L) d (n_gossip n) = Inr (n_gossip n', r) \<and>
     caused ?P cfg ((i, sig) # seen) (sd_TraceID d) (sd_Reason d))"
    if ev: "consumeDecision L ?dc now sig (n_gossip n) = Inr (n_gossip n')" "sig = SigTrace ts" for ts
  proof (cases "find (policyMatched ?P ts) (dec_Policies ?dc)")
    case None
    then show ?thesis
      using ev by (simp add: consumeDecision_def EvaluateTrace_def evalPolicies_find decision_New_def)
  next
    case (Some pol)
    then have pol: "pol \<in> set (dec_Policies ?dc)" "policyMatched ?P ts pol"
      by (auto simp: find_Some_iff)
    let ?tid = "firstTraceID ?P (spans_of (ts_Traces ts))"
    have cause: "caused ?P cfg ((i, sig) # seen) ?tid (pol_Name pol)" if "?tid \<noteq> []"
      unfolding caused_def using pol firstTraceID_span [OF assms(1) that] ev(2) by auto
    show ?thesis
      using ev Some cause scanTraces_traceID [OF assms(1), of "ts_Traces ts"]
      by (auto simp: consumeDecision_def EvaluateTrace_def evalPolicies_find decision_New_def
          triggerDecision_def Let_def split: if_splits sum.splits)
  qed
  with same show ?thesis by (cases sig) (auto simp: consumeDecision_def)
qed

lemma node_loop_gossip:
  assumes "proto_ok (lib_gossip L)" and "queue_ok (lib_gossip L) items"
    and "node_loop L cfg n n'" and "gossip_caused (lib_gossip L) items C (n_gossip n)"
  shows "gossip_caused (lib_gossip L) items C (n_gossip n')"
  using assms(3)
proof (cases rule: node_loop.cases)
  case (decision d ch nd)
  then show ?thesis using assms(4) set_recv by (fastforce simp: gossip_caused_def)
next
  case (load now)
  then show ?thesis
    using assms(4) caused_BroadcastTrigger [OF assms(1,2,4)]
    by (auto simp: loadTick_def Let_def res_bind_Inr_iff split: if_splits)
next
  case (truncate now)
  then show ?thesis using assms(4) by (simp add: truncationTick_def split: option.split)
qed (use assms(4) in \<open>simp_all add: gossip_caused_def\<close>)

definition cluster_caused :: "('c, 't, 'w, 'q, 'x) libs \<Rightarrow> (nat \<Rightarrow> Config) \<Rightarrow> ('q \<Rightarrow> bytes set) \<Rightarrow>
    ('c, 't, 'w, 'q, 'x) cluster \<Rightarrow> bool" where
  "cluster_caused L cfg items c \<longleftrightarrow>
     (\<forall>i. gossip_caused (lib_gossip L) items (caused (be_pd (lib_buf L)) cfg (cl_seen c)) (n_gossip (cl_nodes c i))) \<and>
     (\<forall>b \<in> set (cl_sent c). msg_caused (lib_gossip L) (caused (be_pd (lib_buf L)) cfg (cl_seen c)) b)"

lemma caused_mono: "caused P cfg seen t r \<Longrightarrow> caused P cfg (x # seen) t r"
  unfolding caused_def by auto

lemma cluster_caused_seen:
  "cluster_caused L cfg items c \<Longrightarrow> cluster_caused L cfg items (c\<lparr>cl_seen := x # cl_seen c\<rparr>)"
  unfolding cluster_caused_def gossip_caused_def msg_caused_def by (auto intro: caused_mono)

lemma cluster_caused_update:
  assumes "cluster_caused L cfg items c"
    and "gossip_caused (lib_gossip L) items (caused (be_pd (lib_buf L)) cfg (cl_seen c)) (n_gossip n)"
  shows "cluster_caused L cfg items (c\<lparr>cl_nodes := (cl_nodes c)(i := n)\<rparr>)"
  using assms by (simp add: cluster_caused_def)

lemma cluster_caused_step:
  assumes "traceid_ok (be_pd (lib_buf L))" and "proto_ok (lib_gossip L)" and "queue_ok (lib_gossip L) items"
    and "cluster_step L cfg c c'" and "cluster_caused L cfg items c"
  shows "cluster_caused L cfg items c'"
proof -
  let ?C = "caused (be_pd (lib_buf L)) cfg (cl_seen c)"
  have inv: "gossip_caused (lib_gossip L) items ?C (n_gossip (cl_nodes c i))" for i
    using assms(5) by (simp add: cluster_caused_def)
  show ?thesis
    using assms(4)
  proof (cases rule: cluster_step.cases)
    case (client i n nd now sig n' err)
    let ?c = "c\<lparr>cl_seen := (i, sig) # cl_seen c\<rparr>"
    have c: "cluster_caused L cfg items ?c" by (rule cluster_caused_seen [OF assms(5)])
    then have n: "gossip_caused (lib_gossip L) items
        (caused (be_pd (lib_buf L)) cfg ((i, sig) # cl_seen c)) (n_gossip n)"
      using client(2) by (auto simp: cluster_caused_def)
    then have "gossip_caused (lib_gossip L) items
        (caused (be_pd (lib_buf L)) cfg ((i, sig) # cl_seen c)) (n_gossip n')"
      using Consume_gossip [where cfg = cfg and seen = "cl_seen c", OF assms(1) client(4)]
        caused_BroadcastDecision [OF assms(2,3) n] by auto
    then show ?thesis using cluster_caused_update [OF c, of n' i] client(1) by simp
  next
    case (goroutine i n')
    then show ?thesis
      using cluster_caused_update [OF assms(5)] node_loop_gossip [OF assms(2,3) _ inv] by simp
  next
    case (send i n ov lim msgs m)
    note got = caused_GetBroadcasts [OF assms(3) inv [of i, unfolded send(2)] send(3)]
    have "cluster_caused L cfg items (c\<lparr>cl_nodes := (cl_nodes c)(i := n\<lparr>n_gossip := m\<rparr>)\<rparr>)"
      by (rule cluster_caused_update [OF assms(5)]) (simp add: got(1))
    then show ?thesis using got(2) send(1) by (auto simp: cluster_caused_def)
  next
    case (deliver j n msg)
    have "msg_caused (lib_gossip L) ?C msg" using assms(5) deliver(3) by (simp add: cluster_caused_def)
    then show ?thesis
      using cluster_caused_update [OF assms(5)] caused_NotifyMsg [OF inv [of j, unfolded deliver(2)]] deliver(1)
      by simp
  qed
qed

lemma cluster_reachable_caused:
  assumes "traceid_ok (be_pd (lib_buf L))" and "proto_ok (lib_gossip L)" and "queue_ok (lib_gossip L) items"
    and "\<forall>i. items (out_queue (out i)) = {}"
  shows "cluster_reachable L cfg out c \<Longrightarrow> cluster_caused L cfg items c"
proof (induction rule: cluster_reachable.induct)
  case (boot nodes)
  have "gossip_caused (lib_gossip L) items C (n_gossip (nodes i))" for C i
  proof -
    obtain nds where "startNode L (out i) (cfg i) nds = Inr (nodes i)" using boot [of i] by blast
    then show ?thesis
      using assms(4)
      by (auto elim!: startNode_Inr
          simp: gossip_Start_def gossip_New_def makeChan_def gossip_caused_def split: option.splits)
  qed
  then show ?case by (simp add: cluster_caused_def)
next
  case (run c c')
  then show ?case using cluster_caused_step [OF assms(1-3)] by blast
qed

text \<open>
  No trace is sampled without a cause.  In a cluster of any number of nodes, whatever the
  network loses, repeats or delays, every decision that waits to be acted on at some node names a
  trace of which some node received a batch that matches one of its policies, and that policy is
  the reason the decision gives.
\<close>

theorem sampled_only_if_matched:
  assumes "traceid_ok (be_pd (lib_buf L))" and "proto_ok (lib_gossip L)" and "queue_ok (lib_gossip L) items"
    and "\<forall>i. items (out_queue (out i)) = {}" and "cluster_reachable L cfg out c"
    and "d \<in> set (chanQueue (gm_decisionChan (n_gossip (cl_nodes c j))))"
  shows "\<exists>i ts pol s. (i, SigTrace ts) \<in> set (cl_seen c) \<and>
    pol \<in> set (dec_Policies (cfg_Decision (cfg i))) \<and> policyMatched (be_pd (lib_buf L)) ts pol \<and>
    s \<in> set (spans_of (ts_Traces ts)) \<and>
    sd_Reason d = pol_Name pol \<and> sd_TraceID d = EncodeToString (span_traceID s)"
proof -
  have "cluster_caused L cfg items c" using cluster_reachable_caused [OF assms(1-4)] assms(5) .
  then have "caused (be_pd (lib_buf L)) cfg (cl_seen c) (sd_TraceID d) (sd_Reason d)"
    using assms(6) by (auto simp: cluster_caused_def gossip_caused_def)
  then show ?thesis unfolding caused_def by blast
qed

text \<open>
  Two nodes of a cluster with the default configuration: the first receives a span, decides, and
  its message reaches the second.
\<close>

definition cluster_decision :: SamplingDecision where
  "cluster_decision = \<lparr>sd_TraceID = EncodeToString tidA, sd_Reason = ''sample-all'', sd_DecidedAt = 7,
     sd_DecidedBy = ''local'', sd_EventStart = 1000, sd_EventEnd = 2000\<rparr>"

definition libs_cluster :: "(listCache, TimeKey list, listLog, broadcast list, Export list) libs" where
  "libs_cluster = libs_example\<lparr>lib_gossip := gossip_example
     (Some (GossipMessage_SamplingDecision (toPbDecision (gossip_example None) cluster_decision)))\<rparr>"

definition deciding_node :: "(listCache, TimeKey list, listLog, broadcast list, Export list) Node" where
  "deciding_node = (case Consume libs_cluster (cfg_Decision DefaultConfig) (nd_example 5 ''u'') 7 (wal_signal 5) node_example
     of Inl p \<Rightarrow> node_example | Inr r \<Rightarrow> fst r)"

lemma gossip_example_queue_ok: "queue_ok (gossip_example msg) (\<lambda>q. bc_msg ` set q)"
  by (auto simp: queue_ok_def gossip_example_def)

theorem sampled_only_if_matched_witness:
  "\<exists>c ts pol. cluster_reachable libs_cluster (\<lambda>_. DefaultConfig) (\<lambda>_. outside_example) c \<and>
     chanQueue (gm_decisionChan (n_gossip (cl_nodes c 1))) = [cluster_decision] \<and>
     cl_seen c = [(0, wal_signal 5)] \<and> wal_signal 5 = SigTrace ts \<and>
     policyMatched pdata_example ts pol \<and> pol_Name pol = ''sample-all''"
proof -
  let ?G = "lib_gossip libs_cluster" and ?n = deciding_node
  let ?m = "(n_gossip deciding_node)\<lparr>gm_broadcasts := Some [\<lparr>bc_msg = [7]\<rparr>]\<rparr>"
  have G: "?G = gossip_example (Some (GossipMessage_SamplingDecision (toPbDecision (gossip_example None) cluster_decision)))"
    by (simp add: libs_cluster_def)
  have P: "be_pd (lib_buf libs_cluster) = pdata_example"
    by (simp add: libs_cluster_def libs_example_def sampled_env_def buf_example_def)
  let ?c0 = "\<lparr>cl_nodes = \<lambda>_. node_example, cl_sent = [], cl_seen = []\<rparr>"
  let ?c1 = "?c0\<lparr>cl_seen := (0, wal_signal 5) # cl_seen ?c0, cl_nodes := (cl_nodes ?c0)(0 := ?n)\<rparr>"
  let ?c2 = "?c1\<lparr>cl_nodes := (cl_nodes ?c1)(0 := ?n\<lparr>n_gossip := ?m\<rparr>), cl_sent := [[7]] @ cl_sent ?c1\<rparr>"
  let ?c3 = "?c2\<lparr>cl_nodes := (cl_nodes ?c2)(1 := node_example\<lparr>n_gossip := NotifyMsg ?G [7] (n_gossip node_example)\<rparr>)\<rparr>"
  have "\<not> isl (Consume libs_cluster (cfg_Decision DefaultConfig) (nd_example 5 ''u'') 7 (wal_signal 5) node_example)"
    by code_simp
  then obtain err where consume: "Consume libs_cluster (cfg_Decision DefaultConfig) (nd_example 5 ''u'') 7
      (wal_signal 5) node_example = Inr (?n, err)"
    by (cases "Consume libs_cluster (cfg_Decision DefaultConfig) (nd_example 5 ''u'') 7 (wal_signal 5) node_example")
       (auto simp: deciding_node_def)
  have r0: "cluster_reachable libs_cluster (\<lambda>_. DefaultConfig) (\<lambda>_. outside_example) ?c0"
    by (rule cluster_reachable.boot) (use node_example_starts in \<open>auto simp: libs_cluster_def\<close>)
  have s1: "cluster_step libs_cluster (\<lambda>_. DefaultConfig) ?c0 ?c1"
    by (rule cluster_step.client [where n = node_example, OF _ _ consume])
       (simp_all add: fresh_def node_example_def processor_New_def buffer_New_def nd_example_range_ok)
  have "gm_broadcasts (n_gossip deciding_node) = Some [\<lparr>bc_msg = [7]\<rparr>]" by code_simp
  then have "GetBroadcasts ?G 0 1400 (n_gossip ?n) = Inr ([[7]], ?m)"
    by (simp add: GetBroadcasts_def G, simp add: gossip_example_def)
  then have s2: "cluster_step libs_cluster (\<lambda>_. DefaultConfig) ?c1 ?c2"
    by (intro cluster_step.send [where n = ?n]) simp_all
  have s3: "cluster_step libs_cluster (\<lambda>_. DefaultConfig) ?c2 ?c3"
    by (rule cluster_step.deliver) simp_all
  note reach = cluster_reachable.run [OF cluster_reachable.run [OF cluster_reachable.run [OF r0 s1] s2] s3]
  have queue: "chanQueue (gm_decisionChan (n_gossip (cl_nodes ?c3 1))) = [cluster_decision]"
    by (simp, code_simp)
  have "\<forall>i::nat. (\<lambda>q. bc_msg ` set q) (out_queue outside_example) = {}" by (simp add: outside_example_def)
  moreover have "proto_ok ?G" "queue_ok ?G (\<lambda>q. bc_msg ` set q)"
    unfolding G by (rule gossip_example_proto_ok gossip_example_queue_ok)+
  moreover have "traceid_ok (be_pd (lib_buf libs_cluster))" unfolding P by (rule example_laws(1))
  moreover have "cluster_decision \<in> set (chanQueue (gm_decisionChan (n_gossip (cl_nodes ?c3 1))))"
    unfolding queue by simp
  ultimately obtain i ts pol where "(i, SigTrace ts) \<in> set (cl_seen ?c3)" "policyMatched pdata_example ts pol"
    "sd_Reason cluster_decision = pol_Name pol"
    using sampled_only_if_matched [OF _ _ _ _ reach, where items = "\<lambda>q. bc_msg ` set q" and j = 1] unfolding P by blast
  then have "cl_seen ?c3 = [(0, wal_signal 5)]" "wal_signal 5 = SigTrace ts"
    "policyMatched pdata_example ts pol" "pol_Name pol = ''sample-all''"
    by (simp_all add: cluster_decision_def)
  with reach queue show ?thesis by blast
qed

subsection \<open>A matched batch\<close>

lemma BroadcastDecision_sends:
  assumes "ge_Marshal G (Some (GossipMessage_SamplingDecision (toPbDecision G d))) = Inr b"
    and "gm_broadcasts m = Some q"
  shows "BroadcastDecision G d m = Inr (m\<lparr>gm_broadcasts := Some (ge_QueueBroadcast G q \<lparr>bc_msg = b\<rparr>),
    gm_decisionChan := trySend d (gm_decisionChan m)\<rparr>, None)"
  using assms by (simp add: BroadcastDecision_def Let_def)

text \<open>
  A batch of spans of the trace \<open>tid\<close> that the policy \<open>pol\<close> matches first, and a node that can
  take it: its log accepts it, and its cache evicts nothing while it is stored.
\<close>

definition accepts_batch :: "('c, 't, 'w, 'q, 'x) libs \<Rightarrow> DecisionConfig \<Rightarrow> nondet \<Rightarrow> TraceSignal \<Rightarrow>
    TraceID \<Rightarrow> PolicyConfig \<Rightarrow> ('c, 't, 'w, 'q, 'x) Node \<Rightarrow> bool" where
  "accepts_batch L cfg nd trace tid pol n \<longleftrightarrow>
     store_ok (lib_buf L) (n_buffer n) \<and> btree_ok (lib_buf L) \<and> buf_inv (lib_buf L) (n_buffer n) \<and>
     range_ok nd \<and> quietTraces (lib_buf L) nd trace (n_buffer n) \<and>
     (\<forall>s \<in> set (spans_of (ts_Traces trace)). span_times_ok s \<and> span_traceID s = tid) \<and>
     \<not> pd_IsEmpty (be_pd (lib_buf L)) tid \<and> length tid = 16 \<and>
     find (policyMatched (be_pd (lib_buf L)) trace) (dec_Policies cfg) = Some pol \<and>
     snd (consumeWal (lib_wal L) (SigTrace trace) (n_wal n)) = None"

text \<open>The decision that such a batch causes.\<close>

abbreviation batchDecision :: "('c, 't, 'w, 'q, 'x) libs \<Rightarrow> time \<Rightarrow> TraceSignal \<Rightarrow> PolicyConfig \<Rightarrow> SamplingDecision" where
  "batchDecision L now trace pol \<equiv>
     decisionFor (be_pd (lib_buf L)) now (pol_Name pol) (spans_of (ts_Traces trace))"

lemma Consume_matched:
  fixes L :: "('c, 't, 'w, 'q, 'x) libs" and n :: "('c, 't, 'w, 'q, 'x) Node"
  defines "B \<equiv> lib_buf L" and "G \<equiv> lib_gossip L"
  assumes "traceid_ok (be_pd B)" and "timestamp_ok (be_pd B)" and "accepts_batch L cfg nd trace tid pol n"
    and "ge_Marshal G (Some (GossipMessage_SamplingDecision (toPbDecision G (batchDecision L now trace pol)))) = Inr msg"
    and "gm_broadcasts (n_gossip n) = Some q"
  shows "\<exists>n'. Consume L cfg nd now (SigTrace trace) n = Inr (n', None) \<and>
    gm_decisionChan (n_gossip n') = trySend (batchDecision L now trace pol) (gm_decisionChan (n_gossip n)) \<and>
    gm_broadcasts (n_gossip n') = Some (ge_QueueBroadcast G q \<lparr>bc_msg = msg\<rparr>) \<and>
    spans_of (traceOf B (n_buffer n') tid) =
      spans_of (traceOf B (n_buffer n) tid) @ spans_of (ts_Traces trace) \<and>
    spans_of (ts_Traces trace) \<noteq> [] \<and> decisionTraceID (batchDecision L now trace pol) = Some tid \<and>
    cache_ok B \<and> buf_inv B (n_buffer n') \<and> pr_exporter (n_proc n') = pr_exporter (n_proc n)"
proof -
  let ?d = "batchDecision L now trace pol" and ?ss = "spans_of (ts_Traces trace)"
  have ok: "store_ok B (n_buffer n)" "btree_ok B" "buf_inv B (n_buffer n)" "range_ok nd"
    "quietTraces B nd trace (n_buffer n)" "\<forall>s \<in> set ?ss. span_times_ok s \<and> span_traceID s = tid"
    "\<not> pd_IsEmpty (be_pd B) tid" "length tid = 16"
    "find (policyMatched (be_pd B) trace) (dec_Policies cfg) = Some pol"
    "snd (consumeWal (lib_wal L) (SigTrace trace) (n_wal n)) = None"
    using assms(5) unfolding accepts_batch_def B_def by blast+
  obtain b where b: "storeTraces B nd trace (n_buffer n) = (b, None)" by (simp add: storeTraces_def Let_def)
  obtain w where w: "consumeWal (lib_wal L) (SigTrace trace) (n_wal n) = (w, None)"
    using ok(10) by (metis prod.collapse)
  let ?e = "decision_New cfg (Some (BroadcastDecision G)) False"
  let ?m = "(n_gossip n)\<lparr>gm_broadcasts := Some (ge_QueueBroadcast G q \<lparr>bc_msg = msg\<rparr>),
    gm_decisionChan := trySend ?d (gm_decisionChan (n_gossip n))\<rparr>"
  have "find (policyMatched (be_pd B) trace) (dec_Policies (eng_cfg ?e)) = Some pol"
    "eng_broadcaster ?e = Some (BroadcastDecision G)"
    using ok(9) by (simp_all add: decision_New_def)
  from gossip.evaluate_matched [OF assms(3,4) ok(6,7) this BroadcastDecision_sends [OF assms(6,7), folded B_def]]
  have ev: "consumeDecision L cfg now (SigTrace trace) (n_gossip n) = Inr ?m"
    "sd_TraceID ?d = EncodeToString tid" "?ss \<noteq> []"
    by (simp_all add: consumeDecision_def B_def G_def)
  let ?n = "(setBuffer b (n\<lparr>n_wal := w\<rparr>))\<lparr>n_gossip := ?m\<rparr>"
  have "Consume L cfg nd now (SigTrace trace) n = Inr (?n, None)"
    using w ev(1) b by (simp add: Consume_def Let_def B_def [symmetric])
  moreover have "spans_of (traceOf B b tid) = spans_of (traceOf B (n_buffer n) tid) @ ?ss"
    using storeTraces_views(1) [OF ok(1,4,5,7)] ok(6) b by (simp add: spans_itemsFor)
  moreover have "decisionTraceID ?d = Some tid"
    using ev(2) ok(8) by (simp add: decisionTraceID_def DecodeString_EncodeToString)
  moreover have cache: "cache_ok B" using ok(1) by (simp add: store_ok_def)
  moreover have "buf_inv B b" using storeTraces_inv [OF cache ok(2,3), of nd trace] b by simp
  ultimately show ?thesis using ev(3) by (intro exI [of _ ?n]) simp
qed

lemma decide_clears:
  assumes "cache_ok E" and "btree_ok E" and "buf_inv E (pr_buffer p)" and "decisionTraceID d = Some tid"
  shows "GetTrace E (pr_buffer (decide E nd R d p)) tid = None"
proof -
  have "cache_ok E \<and> btree_ok E \<and> buf_inv E (pr_buffer p)" using assms by blast
  from proc.processDecision_clears(1) [OF this assms(4), where P = "be_pd E" and nd = nd and X = "otlpExporter R"]
  show ?thesis by (simp add: mgr_sel)
qed

lemma decide_exports:
  assumes "cache_ok E" and "btree_ok E" and "buf_inv E (pr_buffer p)"
    and "rpc_ok R" and "rpc_up R (pr_exporter p)"
    and "decisionTraceID d = Some tid" and "traceOf E (pr_buffer p) tid \<noteq> []"
  shows "\<exists>out rest. spans_of out = spans_of (traceOf E (pr_buffer p) tid) \<and>
    rpc_sent R (pr_exporter (decide E nd R d p)) = rpc_sent R (pr_exporter p) @ OutTraces out # rest \<and>
    GetTrace E (pr_buffer (decide E nd R d p)) tid = None"
proof -
  obtain trace where trace: "GetTrace E (pr_buffer p) tid = Some trace" "ts_Traces trace = traceOf E (pr_buffer p) tid"
    using assms(7) by (auto simp: traceOf_def split: option.splits)
  have inv: "cache_ok E \<and> btree_ok E \<and> buf_inv E (pr_buffer p)" "rpc_ok R \<and> rpc_up R (pr_exporter p)"
    using assms by blast+
  have "bm_GetTrace (inMemoryManager E nd) (pr_buffer p) tid = Some trace" using trace(1) by (simp add: mgr_sel)
  note sent = proc.processDecision_sent [OF inv assms(6) this, where P = "be_pd E"]
  from sent trace(2) decide_clears [OF assms(1-3,6), of nd R] show ?thesis
    by (intro exI [of _ "addProcessingLabelToTraces (be_pd E) (ts_Traces trace)"]) auto
qed

lemma decisionFor_ts_range:
  assumes "timestamp_ok P" and "\<forall>s \<in> set ss. span_times_ok s" and "ss \<noteq> []" and "ts_range now"
  shows "ts_range (sd_DecidedAt (decisionFor P now r ss))" "ts_range (sd_EventStart (decisionFor P now r ss))"
    "ts_range (sd_EventEnd (decisionFor P now r ss))"
proof -
  have range: "ts_range (int k)" if "k < 2 ^ 63" for k
  proof -
    have "int k < 2 ^ 63" using that by (metis of_nat_less_iff of_nat_numeral of_nat_power)
    moreover have "int k div 1000000000 \<le> int k" by linarith
    ultimately show ?thesis by (simp add: ts_range_def pos_imp_zdiv_nonneg_iff)
  qed
  have small: "ts_range (spanStart P s)" "ts_range (spanEnd P s)" if "s \<in> set ss" for s
  proof -
    have ok: "span_times_ok s" using assms(2) that by blast
    show "ts_range (spanStart P s)" "ts_range (spanEnd P s)"
      unfolding span_times_eq [OF assms(1) ok] by (rule range, use ok in \<open>simp add: span_times_ok_def\<close>)+
  qed
  have "Min (spanStart P ` set ss) \<in> spanStart P ` set ss" "Max (spanEnd P ` set ss) \<in> spanEnd P ` set ss"
    using assms(3) by (simp_all add: Min_in Max_in)
  with small assms(4) show "ts_range (sd_DecidedAt (decisionFor P now r ss))"
    "ts_range (sd_EventStart (decisionFor P now r ss))" "ts_range (sd_EventEnd (decisionFor P now r ss))"
    by (auto simp: decisionFor_def)
qed

text \<open>
  C3: A trace whose spans arrive at different nodes is sampled as a whole.  One node receives a
  matching batch and decides; the message it queues, given to any peer that holds spans of the
  trace, puts the same decision into the peer's channel; when both act on it, the backend has been
  sent the spans of both nodes, those of the batch included.
\<close>

theorem trace_sampled_across_nodes:
  fixes L :: "('c, 't, 'w, 'q, 'x) libs" and n peer :: "('c, 't, 'w, 'q, 'x) Node"
    and trace :: TraceSignal and now :: time and pol :: PolicyConfig
  defines "B \<equiv> lib_buf L" and "G \<equiv> lib_gossip L" and "R \<equiv> lib_rpc L" and "d \<equiv> batchDecision L now trace pol"
  assumes "traceid_ok (be_pd B)" and "timestamp_ok (be_pd B)" and "proto_ok G" and "tspb_ok G" and "ts_range now"
    and "accepts_batch L cfg nd trace tid pol n"
    and "ge_Marshal G (Some (GossipMessage_SamplingDecision (toPbDecision G d))) = Inr msg"
    and "gm_broadcasts (n_gossip n) = Some q"
    and "buf_inv B (n_buffer peer)" and "traceOf B (n_buffer peer) tid \<noteq> []"
    and "chanQueue (gm_decisionChan (n_gossip n)) = []" and "0 < chanCap (gm_decisionChan (n_gossip n))"
    and "chanQueue (gm_decisionChan (n_gossip peer)) = []" and "0 < chanCap (gm_decisionChan (n_gossip peer))"
    and "rpc_ok R" and "rpc_up R (pr_exporter (n_proc n))" and "rpc_up R (pr_exporter (n_proc peer))"
  shows "\<exists>n' peer' ch ch' out out' rest rest'.
    Consume L cfg nd now (SigTrace trace) n = Inr (n', None) \<and>
    gm_broadcasts (n_gossip n') = Some (ge_QueueBroadcast G q \<lparr>bc_msg = msg\<rparr>) \<and>
    peer' = peer\<lparr>n_gossip := NotifyMsg G msg (n_gossip peer)\<rparr> \<and>
    recv (gm_decisionChan (n_gossip n')) = Some (d, ch) \<and>
    recv (gm_decisionChan (n_gossip peer')) = Some (d, ch') \<and>
    rpc_sent R (pr_exporter (decide B nd1 R d (n_proc n'))) =
      rpc_sent R (pr_exporter (n_proc n)) @ OutTraces out # rest \<and>
    rpc_sent R (pr_exporter (decide B nd2 R d (n_proc peer'))) =
      rpc_sent R (pr_exporter (n_proc peer)) @ OutTraces out' # rest' \<and>
    spans_of out = spans_of (traceOf B (n_buffer n) tid) @ spans_of (ts_Traces trace) \<and>
    spans_of out' = spans_of (traceOf B (n_buffer peer) tid)"
proof -
  obtain n' where n': "Consume L cfg nd now (SigTrace trace) n = Inr (n', None)"
    "gm_decisionChan (n_gossip n') = trySend d (gm_decisionChan (n_gossip n))"
    "gm_broadcasts (n_gossip n') = Some (ge_QueueBroadcast G q \<lparr>bc_msg = msg\<rparr>)"
    "spans_of (traceOf B (n_buffer n') tid) = spans_of (traceOf B (n_buffer n) tid) @ spans_of (ts_Traces trace)"
    "spans_of (ts_Traces trace) \<noteq> []" "decisionTraceID d = Some tid" "cache_ok B" "buf_inv B (n_buffer n')"
    "pr_exporter (n_proc n') = pr_exporter (n_proc n)"
    using Consume_matched [OF assms(5,6,10,11,12) [unfolded B_def G_def d_def]]
    unfolding B_def G_def d_def by blast
  have batch: "btree_ok B" "\<forall>s \<in> set (spans_of (ts_Traces trace)). span_times_ok s"
    using assms(10) unfolding accepts_batch_def B_def by blast+
  have held: "traceOf B (n_buffer n') tid \<noteq> []" using n'(4,5) by (auto simp: spans_of_def)
  let ?peer = "peer\<lparr>n_gossip := NotifyMsg G msg (n_gossip peer)\<rparr>"
  have "NotifyMsg G msg (n_gossip peer) = (n_gossip peer)\<lparr>gm_decisionChan := trySend d (gm_decisionChan (n_gossip peer))\<rparr>"
    using NotifyMsg_decision [OF assms(7,8,11)]
      decisionFor_ts_range [OF assms(6) batch(2) n'(5) assms(9), folded B_def] by (simp add: d_def B_def)
  then have peer: "recv (gm_decisionChan (n_gossip ?peer)) = Some (d, gm_decisionChan (n_gossip peer))"
    using recv_trySend_empty [OF assms(17,18)] by simp
  have own: "recv (gm_decisionChan (n_gossip n')) = Some (d, gm_decisionChan (n_gossip n))"
    using n'(2) recv_trySend_empty [OF assms(15,16)] by simp
  obtain out rest where out: "spans_of out = spans_of (traceOf B (n_buffer n') tid)"
    "rpc_sent R (pr_exporter (decide B nd1 R d (n_proc n'))) =
      rpc_sent R (pr_exporter (n_proc n)) @ OutTraces out # rest"
    using decide_exports [OF n'(7) batch(1) n'(8) assms(19) _ n'(6) held, of nd1] assms(20) n'(9) by auto
  obtain out' rest' where out': "spans_of out' = spans_of (traceOf B (n_buffer peer) tid)"
    "rpc_sent R (pr_exporter (decide B nd2 R d (n_proc ?peer))) =
      rpc_sent R (pr_exporter (n_proc peer)) @ OutTraces out' # rest'"
    using decide_exports [OF n'(7) batch(1) assms(13,19,21) n'(6) assms(14), of nd2] by auto
  show ?thesis
    using n'(1,3,4) own peer out out' by (intro exI conjI) (rule refl | assumption | simp)+
qed

text \<open>A node whose buffer holds a span of \<open>tidA\<close>, and a client that exports an error span of it.\<close>

definition libs_sampling :: "(listCache, TimeKey list, listLog, broadcast list, Export list) libs" where
  "libs_sampling = \<lparr>lib_buf = trace_env,
     lib_wal = wal_example [wal_record 5] [traces_example [span_example tidA StatusCodeError]],
     lib_gossip = env_always, lib_rpc = rpc_example\<rparr>"

definition sampling_node :: "(listCache, TimeKey list, listLog, broadcast list, Export list) Node" where
  "sampling_node = setBuffer trace_buffer node_example"

lemma sampling_sel:
  "lib_buf libs_sampling = trace_env" "lib_gossip libs_sampling = env_always" "lib_rpc libs_sampling = rpc_example"
  "n_buffer sampling_node = trace_buffer" "pr_exporter (n_proc sampling_node) = []"
  "n_gossip sampling_node = manager_example"
  by (simp_all add: libs_sampling_def sampling_node_def, simp_all add: node_example_def processor_New_def)

lemma sampling_quiet:
  "quietTraces trace_env (nd_example 6 ''v'') \<lparr>ts_Traces = traces_example [span_example tidA StatusCodeError], ts_Ctx = c\<rparr> trace_buffer"
proof -
  have "groupSpans (be_pd trace_env) (traces_example [span_example tidA StatusCodeError]) =
      [(tidA, [wrapped tidA StatusCodeError])]" by code_simp
  moreover have "quietTrace trace_env (nd_example 6 ''v'') tidA [wrapped tidA StatusCodeError] trace_buffer"
    unfolding trace_env_quiet by code_simp
  ultimately show ?thesis by (simp add: quietTraces_def, simp add: nd_example_def)
qed

lemma sampling_accepts:
  "accepts_batch (libs_sampling\<lparr>lib_gossip := G\<rparr>) \<lparr>dec_Policies = [policy_example ''error'' 0]\<rparr> (nd_example 6 ''v'')
     \<lparr>ts_Traces = traces_example [span_example tidA StatusCodeError], ts_Ctx = ctxAt 5\<rparr> tidA
     (policy_example ''error'' 0) sampling_node"
proof -
  let ?t = "traces_example [span_example tidA StatusCodeError]"
  have P: "be_pd trace_env = pdata_example" by (simp add: trace_env_def buf_example_def)
  have "find (policyMatched pdata_example \<lparr>ts_Traces = ?t, ts_Ctx = ctxAt 5\<rparr>) [policy_example ''error'' 0] =
      Some (policy_example ''error'' 0)"
    by (simp add: policyMatched_iff policySpan_def policy_example_def spanError_def span_example_def
        traces_example_def spans_of_def)
  moreover have "snd (consumeWal (lib_wal libs_sampling) (SigTrace \<lparr>ts_Traces = ?t, ts_Ctx = ctxAt 5\<rparr>) (n_wal sampling_node)) = None"
    by code_simp
  moreover have "\<forall>s \<in> set (spans_of ?t). span_times_ok s \<and> span_traceID s = tidA"
    by (simp add: span_example_def span_times_ok_def traces_example_def spans_of_def)
  moreover have "\<not> pd_IsEmpty pdata_example tidA" "length tidA = 16" by code_simp+
  moreover have "btree_ok trace_env" by (simp add: trace_env_def buf_example_laws)
  ultimately show ?thesis
    using trace_buffer_store_ok trace_buffer_inv nd_example_range_ok sampling_quiet
    by (simp add: accepts_batch_def sampling_sel P)
qed

theorem trace_sampled_across_nodes_witness:
  "\<exists>L n' out out' rest rest'.
     Consume L \<lparr>dec_Policies = [policy_example ''error'' 0]\<rparr> (nd_example 6 ''v'') 7
       (SigTrace \<lparr>ts_Traces = traces_example [span_example tidA StatusCodeError], ts_Ctx = ctxAt 5\<rparr>) sampling_node =
       Inr (n', None) \<and>
     rpc_sent rpc_example (pr_exporter (decide trace_env (nd_example 8 ''w'') rpc_example
       (decisionFor pdata_example 7 ''error'' [span_example tidA StatusCodeError]) (n_proc n'))) = OutTraces out # rest \<and>
     rpc_sent rpc_example (pr_exporter (decide trace_env (nd_example 9 ''x'') rpc_example
       (decisionFor pdata_example 7 ''error'' [span_example tidA StatusCodeError]) (n_proc sampling_node))) =
       OutTraces out' # rest' \<and>
     spans_of out = [span_example tidA StatusCodeOk, span_example tidA StatusCodeError] \<and>
     spans_of out' = [span_example tidA StatusCodeOk]"
proof -
  define t where "t = \<lparr>ts_Traces = traces_example [span_example tidA StatusCodeError], ts_Ctx = ctxAt 5\<rparr>"
  define d where "d = decisionFor pdata_example 7 ''error'' [span_example tidA StatusCodeError]"
  define G where "G = gossip_example (Some (GossipMessage_SamplingDecision (toPbDecision (gossip_example None) d)))"
  define L where "L = libs_sampling\<lparr>lib_gossip := G\<rparr>"
  have sel: "lib_buf L = trace_env" "lib_gossip L = G" "lib_rpc L = rpc_example"
    by (simp_all add: L_def sampling_sel)
  have P: "be_pd trace_env = pdata_example" by (simp add: trace_env_def buf_example_def)
  have spans: "spans_of (ts_Traces t) = [span_example tidA StatusCodeError]"
    by (simp add: t_def traces_example_def spans_of_def)
  have pol: "pol_Name (policy_example ''error'' 0) = ''error''" by (simp add: policy_example_def)
  have laws: "proto_ok G" "tspb_ok G"
    unfolding G_def by (rule gossip_example_proto_ok gossip_example_tspb_ok)+
  have marshal: "ge_Marshal G (Some (GossipMessage_SamplingDecision (toPbDecision G d))) = Inr [7]"
    by (simp add: G_def gossip_example_def toPbDecision_def)
  have gossip: "gm_broadcasts manager_example = Some []" "chanQueue (gm_decisionChan manager_example) = []"
    "0 < chanCap (gm_decisionChan manager_example)" by code_simp+
  have held: "traceOf trace_env trace_buffer tidA \<noteq> []" using trace_buffer_holds by (auto simp: spans_of_def)
  have now: "ts_range 7" by (simp add: ts_range_def)
  have backend: "rpc_up rpc_example []" "rpc_sent rpc_example [] = []" by (simp_all add: rpc_example_def)
  note run = trace_sampled_across_nodes [of L 7 "\<lparr>dec_Policies = [policy_example ''error'' 0]\<rparr>" "nd_example 6 ''v''"
      t tidA "policy_example ''error'' 0" sampling_node "[7]" "[]" sampling_node "nd_example 8 ''w''" "nd_example 9 ''x''",
      unfolded sel P spans pol sampling_sel backend(2), folded d_def,
      OF example_laws(1,2) laws now sampling_accepts [of G, folded L_def t_def] marshal gossip(1)
        trace_buffer_inv held gossip(2,3) gossip(2,3) rpc_example_ok backend(1) backend(1)]
  then obtain n' peer' out out' rest rest' where
    peer: "peer' = sampling_node\<lparr>n_gossip := NotifyMsg G [7] manager_example\<rparr>" and
    sent: "Consume L \<lparr>dec_Policies = [policy_example ''error'' 0]\<rparr> (nd_example 6 ''v'') 7 (SigTrace t) sampling_node = Inr (n', None)"
      "rpc_sent rpc_example (pr_exporter (decide trace_env (nd_example 8 ''w'') rpc_example d (n_proc n'))) = [] @ OutTraces out # rest"
      "rpc_sent rpc_example (pr_exporter (decide trace_env (nd_example 9 ''x'') rpc_example d (n_proc peer'))) = [] @ OutTraces out' # rest'"
      "spans_of out = spans_of (traceOf trace_env trace_buffer tidA) @ [span_example tidA StatusCodeError]"
      "spans_of out' = spans_of (traceOf trace_env trace_buffer tidA)"
    unfolding P by blast
  have "n_proc peer' = n_proc sampling_node" by (simp add: peer)
  with sent show ?thesis
    unfolding trace_buffer_holds t_def d_def append_Cons append_Nil by (metis (no_types))
qed

end
