(* ===== verification/Progress.thy ===== *)
theory Progress
  imports Cluster "HOL-Library.Sublist"
begin

text \<open>
  Liveness of a node: in a run that goes on for ever and in which the decision loop of the processor
  is scheduled again and again, every decision that reaches the channel is acted on.  The same
  holds of the triggers.
\<close>

subsection \<open>The channels over time\<close>

abbreviation decisions :: "('c, 't, 'w, 'q, 'x) Node \<Rightarrow> SamplingDecision list" where
  "decisions n \<equiv> chanQueue (gm_decisionChan (n_gossip n))"

abbreviation triggers :: "('c, 't, 'w, 'q, 'x) Node \<Rightarrow> TriggerEvent list" where
  "triggers n \<equiv> chanQueue (gm_triggerChan (n_gossip n))"

text \<open>The steps of the two loops, with the value they receive.\<close>

definition actsOn :: "('c, 't, 'w, 'q, 'x) libs \<Rightarrow> SamplingDecision \<Rightarrow>
    ('c, 't, 'w, 'q, 'x) Node \<Rightarrow> ('c, 't, 'w, 'q, 'x) Node \<Rightarrow> bool" where
  "actsOn L d n n' \<longleftrightarrow> (\<exists>ch nd. recv (gm_decisionChan (n_gossip n)) = Some (d, ch) \<and>
     n' = n\<lparr>n_gossip := (n_gossip n)\<lparr>gm_decisionChan := ch\<rparr>,
            n_proc := decide (lib_buf L) nd (lib_rpc L) d (n_proc n)\<rparr>)"

definition handles :: "TriggerEvent \<Rightarrow> ('c, 't, 'w, 'q, 'x) Node \<Rightarrow> ('c, 't, 'w, 'q, 'x) Node \<Rightarrow> bool" where
  "handles t n n' \<longleftrightarrow> (\<exists>ch. recv (gm_triggerChan (n_gossip n)) = Some (t, ch) \<and>
     n' = n\<lparr>n_gossip := (n_gossip n)\<lparr>gm_triggerChan := ch\<rparr>, n_proc := processTrigger t (n_proc n)\<rparr>)"

lemma recv_Some: "recv ch = Some (x, ch') \<Longrightarrow> chanQueue ch = x # chanQueue ch'"
  by (auto simp: recv_def split: list.splits)

lemma actsOn_queue: "actsOn L d n n' \<Longrightarrow> decisions n = d # decisions n'"
  by (auto simp: actsOn_def dest: recv_Some)

lemma handles_queue: "handles t n n' \<Longrightarrow> triggers n = t # triggers n'"
  by (auto simp: handles_def dest: recv_Some)

lemma trySend_prefix: "prefix (chanQueue ch) (chanQueue (trySend x ch))"
  by (simp add: trySend_def)

text \<open>What the gossip operations do to the two channels: they append.\<close>

definition appends :: "'q Manager \<Rightarrow> 'q Manager \<Rightarrow> bool" where
  "appends m m' \<longleftrightarrow> prefix (chanQueue (gm_decisionChan m)) (chanQueue (gm_decisionChan m')) \<and>
     prefix (chanQueue (gm_triggerChan m)) (chanQueue (gm_triggerChan m'))"

lemma appends_refl [simp]: "appends m m"
  by (simp add: appends_def)

lemma appends_Broadcast:
  "BroadcastDecision G d m = Inr (m', r) \<Longrightarrow> appends m m'"
  "BroadcastTrigger G t m = Inr (m', r) \<Longrightarrow> appends m m'"
  by (auto simp: BroadcastDecision_def BroadcastTrigger_def Let_def appends_def trySend_prefix
      split: sum.splits option.splits)

lemma appends_NotifyMsg: "appends m (NotifyMsg G b m)"
  by (auto simp: NotifyMsg_def Let_def appends_def trySend_prefix
      split: sum.split option.split Payload.split)

lemma appends_consumeDecision:
  assumes "consumeDecision L cfg now sig m = Inr m'"
  shows "appends m m'"
  using assms
  by (auto simp: consumeDecision_def EvaluateTrace_def evalPolicies_find triggerDecision_def decision_New_def
      Let_def dest: appends_Broadcast split: Signal.splits option.splits if_splits sum.splits)

lemma node_step_channels:
  assumes "node_step L cfg n n'"
  shows "(\<exists>d. actsOn L d n n') \<or> (\<exists>t. handles t n n') \<or> appends (n_gossip n) (n_gossip n')"
  using assms
proof (cases rule: node_step.cases)
  case (receive nd now sig err)
  then show ?thesis
    by (auto simp: Consume_def Let_def res_bind_Inr_iff dest: appends_consumeDecision
        split: prod.splits option.splits)
next
  case background
  then show ?thesis
  proof (cases rule: node_loop.cases)
    case (decision d ch nd)
    then show ?thesis unfolding actsOn_def by blast
  next
    case (trigger t ch)
    then show ?thesis unfolding handles_def by blast
  next
    case (load now)
    then show ?thesis
      by (auto simp: loadTick_def Let_def res_bind_Inr_iff dest: appends_Broadcast split: if_splits)
  qed (simp_all add: truncationTick_def split: option.split)
next
  case (peer msg)
  then show ?thesis by (simp add: appends_NotifyMsg)
next
  case (gather ov lim msgs m)
  then have "appends (n_gossip n) m"
    by (auto simp: GetBroadcasts_def appends_def split: option.splits prod.splits)
  then show ?thesis using gather by simp
qed

lemma other_steps_append:
  assumes "node_step L cfg n n'"
  shows "\<not> (\<exists>d. actsOn L d n n') \<Longrightarrow> \<exists>ys. decisions n' = decisions n @ ys"
    and "\<not> (\<exists>t. handles t n n') \<Longrightarrow> \<exists>ys. triggers n' = triggers n @ ys"
  using node_step_channels [OF assms]
  by (auto simp: handles_def actsOn_def appends_def elim!: prefixE)

subsection \<open>Fair runs\<close>

definition fair_run :: "('c, 't, 'w, 'q, 'x) libs \<Rightarrow> Config \<Rightarrow> (nat \<Rightarrow> ('c, 't, 'w, 'q, 'x) Node) \<Rightarrow> bool" where
  "fair_run L cfg r \<longleftrightarrow> (\<forall>i. node_step L cfg (r i) (r (Suc i))) \<and>
     (\<forall>i. decisions (r i) \<noteq> [] \<longrightarrow> (\<exists>j \<ge> i. \<exists>d. actsOn L d (r j) (r (Suc j)))) \<and>
     (\<forall>i. triggers (r i) \<noteq> [] \<longrightarrow> (\<exists>j \<ge> i. \<exists>t. handles t (r j) (r (Suc j))))"

lemma fair_runD:
  assumes "fair_run L cfg r"
  shows "node_step L cfg (r i) (r (Suc i))"
    and "decisions (r i) \<noteq> [] \<Longrightarrow> \<exists>j \<ge> i. \<exists>d. actsOn L d (r j) (r (Suc j))"
    and "triggers (r i) \<noteq> [] \<Longrightarrow> \<exists>j \<ge> i. \<exists>t. handles t (r j) (r (Suc j))"
  using assms unfolding fair_run_def by blast+

interpretation decided: served_queue "\<lambda>i. if fair_run L cfg r then decisions (r i) else []"
    "\<lambda>i. fair_run L cfg r \<and> (\<exists>d. actsOn L d (r i) (r (Suc i)))" for L cfg r
proof unfold_locales
  fix i
  let ?q = "\<lambda>i. if fair_run L cfg r then decisions (r i) else []"
  let ?serve = "\<lambda>i. fair_run L cfg r \<and> (\<exists>d. actsOn L d (r i) (r (Suc i)))"
  show "?serve i \<Longrightarrow> ?q i \<noteq> [] \<and> ?q (Suc i) = tl (?q i)" by (auto dest: actsOn_queue)
  show "\<not> ?serve i \<Longrightarrow> \<exists>ys. ?q (Suc i) = ?q i @ ys"
    using other_steps_append(1) [OF fair_runD(1)] by auto
  show "?q i \<noteq> [] \<Longrightarrow> \<exists>j\<ge>i. ?serve j"
    using fair_runD(2) by (auto split: if_splits)
qed

interpretation triggered: served_queue "\<lambda>i. if fair_run L cfg r then triggers (r i) else []"
    "\<lambda>i. fair_run L cfg r \<and> (\<exists>t. handles t (r i) (r (Suc i)))" for L cfg r
proof unfold_locales
  fix i
  let ?q = "\<lambda>i. if fair_run L cfg r then triggers (r i) else []"
  let ?serve = "\<lambda>i. fair_run L cfg r \<and> (\<exists>t. handles t (r i) (r (Suc i)))"
  show "?serve i \<Longrightarrow> ?q i \<noteq> [] \<and> ?q (Suc i) = tl (?q i)" by (auto dest: handles_queue)
  show "\<not> ?serve i \<Longrightarrow> \<exists>ys. ?q (Suc i) = ?q i @ ys"
    using other_steps_append(2) [OF fair_runD(1)] by auto
  show "?q i \<noteq> [] \<Longrightarrow> \<exists>j\<ge>i. ?serve j"
    using fair_runD(3) by (auto split: if_splits)
qed

lemma run_inv:
  assumes "libs_ok L" and "fair_run L cfg r" and "node_inv L (r 0)"
  shows "node_inv L (r i)"
  by (induction i) (use assms(3) node_step_inv [OF assms(1) fair_runD(1) [OF assms(2)]] in blast)+

subsection \<open>Every decision is acted on\<close>

text \<open>
  C7: In a run of a node in which its loops are scheduled fairly, every decision that is in the
  channel is acted on some time later, whatever clients, peers and the other goroutines do in the
  meantime: at that moment its trace leaves the buffer, and if the backend is up, it has been sent
  all spans of the trace that the buffer held.
\<close>

theorem decision_eventually_acted_on:
  fixes L :: "('c, 't, 'w, 'q, 'x) libs"
  defines "B \<equiv> lib_buf L" and "R \<equiv> lib_rpc L"
  assumes "libs_ok L" and "rpc_ok R" and "fair_run L cfg r" and "node_inv L (r 0)"
    and "d \<in> set (decisions (r i))" and "decisionTraceID d = Some tid"
  shows "\<exists>j \<ge> i. GetTrace B (n_buffer (r (Suc j))) tid = None \<and>
    (rpc_up R (pr_exporter (n_proc (r j))) \<longrightarrow> traceOf B (n_buffer (r j)) tid \<noteq> [] \<longrightarrow>
      (\<exists>out rest. spans_of out = spans_of (traceOf B (n_buffer (r j)) tid) \<and>
         rpc_sent R (pr_exporter (n_proc (r (Suc j)))) =
           rpc_sent R (pr_exporter (n_proc (r j))) @ OutTraces out # rest))"
proof -
  obtain j d' where j: "i \<le> j" "actsOn L d' (r j) (r (Suc j))" "hd (decisions (r j)) = d"
    using decided.served [of d L cfg r i] assms(5,7) by auto
  then have act: "actsOn L d (r j) (r (Suc j))" using actsOn_queue [OF j(2)] by simp
  then obtain nd where nd: "n_proc (r (Suc j)) = decide B nd R d (n_proc (r j))"
    unfolding actsOn_def B_def R_def by auto
  have ok: "cache_ok B" "btree_ok B" "buf_inv B (n_buffer (r j))"
    using assms(3) run_inv [OF assms(3,5,6), of j] by (simp_all add: libs_ok_def node_inv_def B_def)
  show ?thesis
    using j(1) decide_clears [OF ok assms(8), of nd R] decide_exports [OF ok assms(4) _ assms(8), of nd] by (intro exI [of _ j]) (auto simp: nd)
qed

text \<open>A node with a decision in its channel, which it acts on first; then nothing happens any more.\<close>

definition waiting_node :: "(listCache, TimeKey list, listLog, broadcast list, Export list) Node" where
  "waiting_node = sampling_node\<lparr>n_gossip := manager_example\<lparr>gm_decisionChan := trySend decision_A (makeChan 100)\<rparr>\<rparr>"

definition acted_node :: "(listCache, TimeKey list, listLog, broadcast list, Export list) Node" where
  "acted_node = waiting_node\<lparr>n_gossip := (n_gossip waiting_node)\<lparr>gm_decisionChan := makeChan 100\<rparr>,
     n_proc := decide trace_env (nd_example 9 ''u'') rpc_example decision_A (n_proc waiting_node)\<rparr>"

definition example_run :: "nat \<Rightarrow> (listCache, TimeKey list, listLog, broadcast list, Export list) Node" where
  "example_run i = (if i = 0 then waiting_node else acted_node)"

lemma waiting_acts: "actsOn libs_sampling decision_A waiting_node acted_node"
proof -
  have "recv (gm_decisionChan (n_gossip waiting_node)) = Some (decision_A, makeChan 100)"
    by (simp add: waiting_node_def trySend_def makeChan_def recv_def)
  then show ?thesis unfolding actsOn_def acted_node_def sampling_sel by blast
qed

lemma example_run_fair: "fair_run libs_sampling DefaultConfig example_run"
proof -
  have act: "node_step libs_sampling DefaultConfig waiting_node acted_node"
    using waiting_acts node_loop.decision [of waiting_node decision_A _ libs_sampling DefaultConfig]
    unfolding actsOn_def by (metis node_step.background)
  have "NotifyMsg (lib_gossip libs_sampling) [] m = m" for m by (simp add: NotifyMsg_def)
  then have idle: "node_step libs_sampling DefaultConfig acted_node acted_node"
    using node_step.peer [of libs_sampling DefaultConfig acted_node "[]"] by simp
  have "triggers waiting_node = []" "triggers acted_node = []" "decisions acted_node = []"
    by (simp_all add: acted_node_def waiting_node_def manager_example_def gossip_Start_def gossip_New_def makeChan_def)
  with act idle waiting_acts show ?thesis
    unfolding fair_run_def example_run_def by (auto intro!: exI [of _ "0::nat"])
qed

lemma waiting_node_inv: "libs_ok libs_sampling" "node_inv libs_sampling waiting_node"
proof -
  show "libs_ok libs_sampling"
    by (simp add: libs_ok_def libs_sampling_def wal_example_ok wal_example_codec, simp add: trace_env_def buf_example_laws)
  have "gossip_inv (n_gossip waiting_node)"
    by (simp add: waiting_node_def gossip_inv_def manager_example_def gossip_Start_def gossip_New_def
        makeChan_def chan_ok_def trySend_def)
  moreover have "n_wal waiting_node = Some (1, [])" by (simp add: waiting_node_def sampling_node_def node_example_def)
  moreover have "log_inv (lib_wal libs_sampling) (1, [])"
    by (simp add: log_inv_def libs_sampling_def wal_example_ok wal_example_codec, simp add: wal_example_def)
  moreover have "n_buffer waiting_node = trace_buffer" by (simp add: waiting_node_def sampling_sel)
  ultimately show "node_inv libs_sampling waiting_node"
    using trace_buffer_inv by (auto simp: node_inv_def sampling_sel)
qed

theorem decision_eventually_acted_on_witness:
  "traceOf trace_env (n_buffer (example_run 0)) tidA \<noteq> [] \<and>
   (\<exists>j. GetTrace trace_env (n_buffer (example_run (Suc j))) tidA = None)"
proof -
  have "decision_A \<in> set (decisions (example_run 0))"
    by (simp add: example_run_def waiting_node_def trySend_def makeChan_def)
  moreover have "rpc_ok (lib_rpc libs_sampling)" unfolding sampling_sel by (rule rpc_example_ok)
  moreover have "node_inv libs_sampling (example_run 0)" using waiting_node_inv(2) by (simp add: example_run_def)
  ultimately have "\<exists>j \<ge> 0. GetTrace (lib_buf libs_sampling) (n_buffer (example_run (Suc j))) tidA = None"
    using decision_eventually_acted_on [OF waiting_node_inv(1) _ example_run_fair _ _ sampled_laws(5)] by blast
  moreover have "traceOf trace_env (n_buffer (example_run 0)) tidA \<noteq> []"
    using trace_buffer_holds by (auto simp: example_run_def waiting_node_def sampling_sel spans_of_def)
  ultimately show ?thesis unfolding sampling_sel by blast
qed

text \<open>The triggers, which set the rollup level, are handled the same way.\<close>

lemma trigger_eventually_handled:
  assumes "fair_run L cfg r" and "t \<in> set (triggers (r i))"
  shows "\<exists>j \<ge> i. handles t (r j) (r (Suc j))"
proof -
  obtain j t' where "i \<le> j" "handles t' (r j) (r (Suc j))" "hd (triggers (r j)) = t"
    using triggered.served [of t L cfg r i] assms by auto
  then show ?thesis using handles_queue [of t' "r j"] by auto
qed

end
