(* ===== verification/Shutdown.thy ===== *)
theory Shutdown
  imports Progress
begin

text \<open>
  The end of \<open>main\<close>: the signal of the operating system, and the deferred calls that run after it,
  last deferred first, while the goroutines of the node are still running.  The context that stops
  the goroutines is cancelled by the first \<open>defer\<close> of \<open>main\<close>, so by the last deferred call.
\<close>

subsection \<open>The process\<close>

datatype deferred = Cancel | TelShutdown | WalClose | ExpStop | BufStop | GspStop | RcvStop

text \<open>The \<open>defer\<close> statements of \<open>main\<close> in their order, the second only if there is a telemetry; they run backwards.\<close>

definition mainDefers :: "bool \<Rightarrow> deferred list" where
  "mainDefers tel = [Cancel] @ (if tel then [TelShutdown] else []) @ [WalClose, ExpStop, BufStop, GspStop, RcvStop]"

text \<open>The closing operations of the libraries.\<close>

record ('c, 'w, 'x) closers =
  lib_cacheClose :: "'c \<Rightarrow> 'c"
  lib_walClose :: "'w \<Rightarrow> 'w \<times> error option"
  lib_connClose :: "'x \<Rightarrow> 'x"

text \<open>
  A closed cache still answers; a closed connection fails every call, and what was sent before
  stays sent.
\<close>

definition closers_ok :: "('c, 't, 'w, 'q, 'x) libs \<Rightarrow> ('c, 'w, 'x) closers \<Rightarrow> bool" where
  "closers_ok L K \<longleftrightarrow>
     (\<forall>c k. cache_Get (lib_buf L) (lib_cacheClose K c) k = cache_Get (lib_buf L) c k) \<and>
     (\<forall>x e. \<exists>err. rpc_Export (lib_rpc L) e (lib_connClose K x) = (lib_connClose K x, Some err)) \<and>
     (\<forall>x. rpc_sent (lib_rpc L) (lib_connClose K x) = rpc_sent (lib_rpc L) x)"

record ('c, 't, 'w, 'q, 'x) Process =
  pc_node :: "('c, 't, 'w, 'q, 'x) Node"
  pc_rcv :: Receiver
  pc_list :: "bool option"  \<comment> \<open>the member list of \<open>gsp\<close> and whether it is active\<close>
  pc_stopping :: bool  \<comment> \<open>the signal has arrived\<close>
  pc_todo :: "deferred list"  \<comment> \<open>the deferred calls that have not run, next one first\<close>
  pc_ctxDone :: bool

text \<open>
  The process when \<open>main\<close> has started everything, the receiver last; \<open>listen\<close> is the listener of
  the network.
\<close>

definition startProcess :: "('c, 't, 'w, 'q, 'x) libs \<Rightarrow> ('c, 't, 'w, 'q, 'x) outside \<Rightarrow> Config \<Rightarrow>
    (nat \<Rightarrow> nondet) \<Rightarrow> (string \<Rightarrow> error option) \<Rightarrow> error + ('c, 't, 'w, 'q, 'x) Process" where
  "startProcess L out cfg nds listen =
     (case startNode L out cfg nds of
        Inl err \<Rightarrow> Inl err
      | Inr n \<Rightarrow>
          (case receiver_Start listen (receiver_New (cfg_Receiver cfg) (pr_telemetry (n_proc n))) of
             (r, Some err) \<Rightarrow> Inl (''Failed to start receiver: '' @ err)
           | (r, None) \<Rightarrow> Inr \<lparr>pc_node = n, pc_rcv = r, pc_list = Some True, pc_stopping = False,
               pc_todo = [], pc_ctxDone = False\<rparr>))"

definition stopConn :: "('c, 'w, 'x) closers \<Rightarrow> ('c, 't, 'w, 'q, 'x) Node \<Rightarrow> ('c, 't, 'w, 'q, 'x) Node" where
  "stopConn K n = n\<lparr>n_proc := (n_proc n)\<lparr>pr_exporter := exporter_Stop (lib_connClose K) (pr_exporter (n_proc n))\<rparr>\<rparr>"

fun runDeferred :: "('c, 'w, 'x) closers \<Rightarrow> deferred \<Rightarrow>
    ('c, 't, 'w, 'q, 'x) Process \<Rightarrow> ('c, 't, 'w, 'q, 'x) Process" where
  "runDeferred K RcvStop p = p\<lparr>pc_rcv := receiver_Stop (pc_rcv p)\<rparr>"
| "runDeferred K GspStop p = p\<lparr>pc_list := gossip_Stop (pc_list p)\<rparr>"
| "runDeferred K BufStop p = p\<lparr>pc_node := setBuffer (buffer_Stop (lib_cacheClose K) (n_buffer (pc_node p))) (pc_node p)\<rparr>"
| "runDeferred K ExpStop p = p\<lparr>pc_node := stopConn K (pc_node p)\<rparr>"
| "runDeferred K WalClose p = p\<lparr>pc_node := (pc_node p)\<lparr>n_wal :=
     map_option (\<lambda>w. fst (wal_Close (lib_walClose K) w)) (n_wal (pc_node p))\<rparr>\<rparr>"
| "runDeferred K TelShutdown p = p"
| "runDeferred K Cancel p = p\<lparr>pc_ctxDone := True\<rparr>"

definition running :: "('c, 't, 'w, 'q, 'x) Process \<Rightarrow> bool" where
  "running p \<longleftrightarrow> \<not> pc_stopping p \<or> pc_todo p \<noteq> []"

text \<open>
  The steps of a process: until the last deferred call has run, requests are served while the
  receiver serves, messages arrive while the member list is active, and the goroutines run while the
  context is not cancelled.
\<close>

inductive main_step :: "('c, 't, 'w, 'q, 'x) libs \<Rightarrow> ('c, 'w, 'x) closers \<Rightarrow> Config \<Rightarrow>
    ('c, 't, 'w, 'q, 'x) Process \<Rightarrow> ('c, 't, 'w, 'q, 'x) Process \<Rightarrow> bool" for L K cfg where
  interrupt: "\<not> pc_stopping p \<Longrightarrow>
    main_step L K cfg p (p\<lparr>pc_stopping := True,
      pc_todo := rev (mainDefers (pr_telemetry (n_proc (pc_node p)) \<noteq> None))\<rparr>)"
| unwind: "pc_stopping p \<Longrightarrow> pc_todo p = df # ds \<Longrightarrow> main_step L K cfg p (runDeferred K df (p\<lparr>pc_todo := ds\<rparr>))"
| client: "running p \<Longrightarrow> rc_serving (pc_rcv p) \<Longrightarrow> fresh nd (n_buffer (pc_node p)) \<Longrightarrow>
    Consume L (cfg_Decision cfg) nd now sig (pc_node p) = Inr (n', err) \<Longrightarrow>
    main_step L K cfg p (p\<lparr>pc_node := n'\<rparr>)"
| goroutine: "running p \<Longrightarrow> \<not> pc_ctxDone p \<Longrightarrow> node_loop L cfg (pc_node p) n' \<Longrightarrow>
    main_step L K cfg p (p\<lparr>pc_node := n'\<rparr>)"
| message: "running p \<Longrightarrow> pc_list p = Some True \<Longrightarrow>
    main_step L K cfg p (p\<lparr>pc_node := (pc_node p)\<lparr>n_gossip := NotifyMsg (lib_gossip L) msg (n_gossip (pc_node p))\<rparr>\<rparr>)"

subsection \<open>What arrives during the shutdown\<close>

text \<open>
  What has been stopped follows from the deferred calls that are left: when the exporter is
  stopped, no request and no message can come in any more.
\<close>

definition stop_order :: "('c, 't, 'w, 'q, 'x) Process \<Rightarrow> bool" where
  "stop_order p \<longleftrightarrow> (\<exists>tel. suffix (pc_todo p) (rev (mainDefers tel))) \<and>
     (pc_stopping p \<longrightarrow> (RcvStop \<notin> set (pc_todo p) \<longrightarrow> \<not> rc_serving (pc_rcv p)) \<and>
       (GspStop \<notin> set (pc_todo p) \<longrightarrow> pc_list p \<noteq> Some True))"

lemma stop_order_step:
  assumes "main_step L K cfg p p'" and "stop_order p"
  shows "stop_order p'"
  using assms
proof (cases rule: main_step.cases)
  case interrupt
  then show ?thesis using assms(2) unfolding stop_order_def by (auto simp: mainDefers_def)
next
  case (unwind df ds)
  have "suffix ds (pc_todo p)" using unwind(3) by (simp add: suffix_ConsI)
  then have "\<exists>tel. suffix ds (rev (mainDefers tel))"
    using assms(2) unfolding stop_order_def by (meson suffix_order.trans)
  then show ?thesis
    using unwind assms(2) by (cases df) (auto simp: stop_order_def receiver_Stop_def gossip_Stop_def split: option.splits)
qed (auto simp: stop_order_def)

lemma defers_left:
  "rev (mainDefers tel) = pre @ todo \<Longrightarrow> ExpStop \<notin> set todo \<Longrightarrow> RcvStop \<notin> set todo \<and> GspStop \<notin> set todo"
  by (cases tel) (auto simp: mainDefers_def Cons_eq_append_conv)

lemma stopped_before_exporter:
  assumes "stop_order p" and "pc_stopping p" and "ExpStop \<notin> set (pc_todo p)"
  shows "\<not> rc_serving (pc_rcv p)" and "pc_list p \<noteq> Some True"
proof -
  obtain tel pre where "rev (mainDefers tel) = pre @ pc_todo p"
    using assms(1) unfolding stop_order_def suffix_def by blast
  then have "RcvStop \<notin> set (pc_todo p) \<and> GspStop \<notin> set (pc_todo p)"
    using assms(3) by (rule defers_left)
  then show "\<not> rc_serving (pc_rcv p)" "pc_list p \<noteq> Some True" using assms(1,2) by (auto simp: stop_order_def)
qed

lemma stop_order_run: "(main_step L K cfg)\<^sup>*\<^sup>* p p' \<Longrightarrow> stop_order p \<Longrightarrow> stop_order p'"
  by (induction rule: rtranclp_induct) (blast intro: stop_order_step)+

lemma loop_decisions_shrink: "node_loop L cfg n n' \<Longrightarrow> suffix (decisions n') (decisions n)"
proof (induction rule: node_loop.induct)
  case (decision n d ch nd)
  then show ?case by (auto dest: recv_Some simp: suffix_def)
next
  case (load now n n')
  then show ?case
    by (auto simp: loadTick_def Let_def res_bind_Inr_iff BroadcastTrigger_def
        split: if_splits sum.splits option.splits)
qed (simp_all add: truncationTick_def split: option.split)

text \<open>
  C22: A shutdown stops the inputs first.  Once the exporter has been stopped, the receiver serves no
  request and the node takes no message from peers, so no step of any goroutine adds a decision:
  the only decisions that can still be acted on are those that were waiting.
\<close>

theorem shutdown_stops_input_first:
  assumes "startProcess L out cfg nds listen = Inr p0" and "(main_step L K cfg)\<^sup>*\<^sup>* p0 p"
    and "pc_stopping p" and "ExpStop \<notin> set (pc_todo p)" and "main_step L K cfg p p'"
  shows "\<not> rc_serving (pc_rcv p) \<and> pc_list p \<noteq> Some True \<and> suffix (decisions (pc_node p')) (decisions (pc_node p))"
proof -
  have "stop_order p0"
    using assms(1) by (auto simp: startProcess_def stop_order_def split: sum.splits prod.splits option.splits)
  then have "stop_order p" using stop_order_run [OF assms(2)] by blast
  note stopped = stopped_before_exporter [OF this assms(3,4)]
  have "suffix (decisions (pc_node p')) (decisions (pc_node p))"
    using assms(5)
  proof (cases rule: main_step.cases)
    case (unwind df ds)
    then show ?thesis by (cases df) (simp_all add: stopConn_def)
  next
    case (goroutine n')
    then show ?thesis using loop_decisions_shrink by simp
  qed (use stopped assms(3) in simp_all)
  with stopped show ?thesis by blast
qed

subsection \<open>Decisions during the shutdown\<close>

lemma decide_closed:
  assumes "\<And>e. \<exists>err. rpc_Export R e x = (x, Some err)" and "pr_exporter p = x"
  shows "pr_exporter (decide E nd R d p) = x"
proof -
  have "fst (rpc_Export R e x) = x" for e using assms(1) [of e] by auto
  then have fail: "fst (ex_ExportTrace (otlpExporter R) t x) = x" "fst (ex_ExportMetrics (otlpExporter R) m x) = x"
    "fst (ex_ExportLogs (otlpExporter R) l x) = x" for t m l
    by (simp_all add: otlpExporter_def ExportTrace_def ExportMetrics_def ExportLogs_def wrapError_def)
  have keep: "pr_exporter (sampleTrace P M (otlpExporter R) tid p') = x"
    "pr_exporter (sampleTraceLogs P M (otlpExporter R) tid p') = x"
    "pr_exporter (sampleMetrics P M (otlpExporter R) s e p') = x"
    "pr_exporter (sampleLogs P M (otlpExporter R) s e p') = x"
    if "pr_exporter p' = x" for P M tid s e p'
    using that by (simp_all add: sample_defs Let_def fail exportMetrics_def exportLogs_def countSampled_def split: option.split)
  show ?thesis using assms(2) by (simp add: processDecision_def keep split: option.split)
qed

lemma runDeferred_frame [simp]:
  "runDeferred K df (p\<lparr>pc_todo := ds\<rparr>) = (runDeferred K df p)\<lparr>pc_todo := ds\<rparr>"
  "pc_stopping (runDeferred K df p) = pc_stopping p"
  by (cases df; simp)+

lemma unwind_many:
  "pc_stopping p \<Longrightarrow> (main_step L K cfg)\<^sup>*\<^sup>* (p\<lparr>pc_todo := ds @ rest\<rparr>) ((fold (runDeferred K) ds p)\<lparr>pc_todo := rest\<rparr>)"
proof (induction ds arbitrary: p)
  case (Cons df ds)
  have "main_step L K cfg (p\<lparr>pc_todo := df # ds @ rest\<rparr>) ((runDeferred K df p)\<lparr>pc_todo := ds @ rest\<rparr>)"
    using main_step.unwind [of "p\<lparr>pc_todo := df # ds @ rest\<rparr>" df "ds @ rest" L K cfg] Cons.prems by simp
  moreover have "(main_step L K cfg)\<^sup>*\<^sup>* ((runDeferred K df p)\<lparr>pc_todo := ds @ rest\<rparr>)
      ((fold (runDeferred K) ds (runDeferred K df p))\<lparr>pc_todo := rest\<rparr>)"
    using Cons by simp
  ultimately show ?case by (simp add: converse_rtranclp_into_rtranclp)
qed simp

lemma unwinds_to_ExpStop:
  assumes "\<not> pc_stopping p"
  shows "\<exists>ds. ExpStop \<notin> set ds \<and> (main_step L K cfg)\<^sup>*\<^sup>* p (p\<lparr>pc_stopping := True, pc_rcv := receiver_Stop (pc_rcv p), pc_list := gossip_Stop (pc_list p),
    pc_node := stopConn K (setBuffer (buffer_Stop (lib_cacheClose K) (n_buffer (pc_node p))) (pc_node p)),
    pc_todo := WalClose # ds @ [Cancel]\<rparr>)"
proof -
  define ds where "ds = (if pr_telemetry (n_proc (pc_node p)) \<noteq> None then [TelShutdown] else [])"
  have "rev (mainDefers (pr_telemetry (n_proc (pc_node p)) \<noteq> None)) =
      [RcvStop, GspStop, BufStop, ExpStop] @ WalClose # ds @ [Cancel]"
    by (simp add: mainDefers_def ds_def)
  then have "main_step L K cfg p ((p\<lparr>pc_stopping := True\<rparr>)\<lparr>pc_todo := [RcvStop, GspStop, BufStop, ExpStop] @ WalClose # ds @ [Cancel]\<rparr>)"
    using main_step.interrupt [OF assms, of L K cfg] by simp
  with unwind_many [of "p\<lparr>pc_stopping := True\<rparr>" L K cfg "[RcvStop, GspStop, BufStop, ExpStop]" "WalClose # ds @ [Cancel]"]
  show ?thesis by (intro exI [of _ ds]) (simp add: converse_rtranclp_into_rtranclp, simp add: ds_def)
qed

text \<open>
  C31: The exporter is stopped before the goroutines are.  A decision that is still in the channel
  when the process is told to stop can be taken up after the connection to the backend is closed:
  its trace is removed from the buffer, and the backend is sent nothing.
\<close>

theorem shutdown_loses_decided_trace:
  fixes L :: "('c, 't, 'w, 'q, 'x) libs"
  defines "B \<equiv> lib_buf L" and "R \<equiv> lib_rpc L"
  assumes "libs_ok L" and "closers_ok L K" and "node_inv L (pc_node p)"
    and "\<not> pc_stopping p" and "\<not> pc_ctxDone p"
    and "recv (gm_decisionChan (n_gossip (pc_node p))) = Some (d, ch)" and "decisionTraceID d = Some tid"
  shows "\<exists>p'. (main_step L K cfg)\<^sup>*\<^sup>* p p' \<and> running p' \<and>
    GetTrace B (n_buffer (pc_node p')) tid = None \<and>
    rpc_sent R (pr_exporter (n_proc (pc_node p'))) = rpc_sent R (pr_exporter (n_proc (pc_node p)))"
proof -
  let ?b = "buffer_Stop (lib_cacheClose K) (n_buffer (pc_node p))"
  let ?n = "stopConn K (setBuffer ?b (pc_node p))" and ?x = "lib_connClose K (pr_exporter (n_proc (pc_node p)))"
  obtain ds where steps: "(main_step L K cfg)\<^sup>*\<^sup>* p (p\<lparr>pc_stopping := True,
      pc_rcv := receiver_Stop (pc_rcv p), pc_list := gossip_Stop (pc_list p), pc_node := ?n, pc_todo := WalClose # ds @ [Cancel]\<rparr>)"
    using unwinds_to_ExpStop [OF assms(6)] by blast
  let ?p1 = "p\<lparr>pc_stopping := True, pc_rcv := receiver_Stop (pc_rcv p), pc_list := gossip_Stop (pc_list p), pc_node := ?n,
    pc_todo := WalClose # ds @ [Cancel]\<rparr>"
  have n: "n_buffer ?n = ?b" "pr_exporter (n_proc ?n) = ?x" "n_gossip ?n = n_gossip (pc_node p)"
    by (simp_all add: stopConn_def exporter_Stop_def)
  have "node_loop L cfg ?n (?n\<lparr>n_gossip := (n_gossip ?n)\<lparr>gm_decisionChan := ch\<rparr>,
      n_proc := decide (lib_buf L) (nd_example 9 ''u'') (lib_rpc L) d (n_proc ?n)\<rparr>)" (is "node_loop L cfg _ ?n'")
    by (rule node_loop.decision) (simp add: n assms(8))
  then have "main_step L K cfg ?p1 (?p1\<lparr>pc_node := ?n'\<rparr>)"
    using assms(7) by (intro main_step.goroutine) (simp_all add: running_def)
  with steps have run: "(main_step L K cfg)\<^sup>*\<^sup>* p (?p1\<lparr>pc_node := ?n'\<rparr>)" by (rule rtranclp.rtrancl_into_rtrancl)
  have ok: "cache_ok B" "btree_ok B" "buf_inv B (n_buffer (pc_node p))"
    using assms(3,5) by (simp_all add: libs_ok_def node_inv_def B_def)
  have close: "cache_Get B (lib_cacheClose K c) k = cache_Get B c k"
    "\<exists>err. rpc_Export R e ?x = (?x, Some err)"
    "rpc_sent R ?x = rpc_sent R (pr_exporter (n_proc (pc_node p)))" for c k e
    using assms(4) unfolding closers_ok_def B_def R_def by blast+
  have "buf_inv B ?b" using ok(3) by (simp add: inv_except_def buffer_Stop_def close(1))
  then have "GetTrace B (n_buffer ?n') tid = None"
    using decide_clears [OF ok(1,2) _ assms(9), of "n_proc ?n"] n(1) by (simp add: B_def)
  moreover have "pr_exporter (n_proc ?n') = ?x"
    using decide_closed [OF close(2), of "n_proc ?n"] n(2) by (simp add: R_def)
  ultimately show ?thesis
    using run close(3) by (intro exI [of _ "?p1\<lparr>pc_node := ?n'\<rparr>"]) (simp add: running_def)
qed

subsection \<open>Concrete shutdowns\<close>

text \<open>A backend whose connection can be closed: its state is whether it is open, and what was sent.\<close>

definition rpc_closing :: "(bool \<times> Export list) rpc" where
  "rpc_closing = \<lparr>rpc_Export = (\<lambda>e x. if fst x then ((True, snd x @ [e]), None) else (x, Some ''closing'')),
     rpc_sent = snd, rpc_up = fst\<rparr>"

definition closers_example :: "(listCache, listLog, bool \<times> Export list) closers" where
  "closers_example = \<lparr>lib_cacheClose = (\<lambda>c. c), lib_walClose = (\<lambda>w. (w, None)), lib_connClose = (\<lambda>x. (False, snd x))\<rparr>"

definition libs_closing :: "(listCache, TimeKey list, listLog, broadcast list, bool \<times> Export list) libs" where
  "libs_closing = \<lparr>lib_buf = trace_env, lib_wal = wal_env, lib_gossip = env_always, lib_rpc = rpc_closing\<rparr>"

definition closing_node :: "(listCache, TimeKey list, listLog, broadcast list, bool \<times> Export list) Node" where
  "closing_node = \<lparr>n_proc = processor_New trace_buffer (rollup_New (cfg_Rollup DefaultConfig)) (True, []) None,
     n_wal = Some (1, []), n_gossip = manager_example\<lparr>gm_decisionChan := trySend decision_A (makeChan 100)\<rparr>,
     n_highLoadActive = False\<rparr>"

definition closing_process :: "(listCache, TimeKey list, listLog, broadcast list, bool \<times> Export list) Process" where
  "closing_process = \<lparr>pc_node = closing_node, pc_rcv = (receiver_New (cfg_Receiver DefaultConfig) None)\<lparr>rc_serving := True\<rparr>,
     pc_list = Some True, pc_stopping = False, pc_todo = [], pc_ctxDone = False\<rparr>"

lemma closing_laws: "libs_ok libs_closing" "closers_ok libs_closing closers_example" "node_inv libs_closing closing_node"
proof -
  show "libs_ok libs_closing"
    by (simp add: libs_ok_def libs_closing_def wal_env_def wal_example_ok wal_example_codec,
        simp add: trace_env_def buf_example_laws)
  show "closers_ok libs_closing closers_example"
    by (simp add: closers_ok_def libs_closing_def closers_example_def rpc_closing_def)
  have "gossip_inv (n_gossip closing_node)"
    by (simp add: closing_node_def gossip_inv_def manager_example_def gossip_Start_def gossip_New_def
        makeChan_def chan_ok_def trySend_def)
  moreover have "buf_inv trace_env (n_buffer closing_node)"
    using trace_buffer_inv by (simp add: closing_node_def processor_New_def)
  moreover have "log_inv wal_env (1, [])" by (rule wal_env_inv) simp
  ultimately show "node_inv libs_closing closing_node"
    by (simp add: node_inv_def libs_closing_def, simp add: closing_node_def)
qed

theorem shutdown_loses_decided_trace_witness:
  "traceOf trace_env (n_buffer closing_node) tidA \<noteq> [] \<and>
   (\<exists>p'. (main_step libs_closing closers_example DefaultConfig)\<^sup>*\<^sup>* closing_process p' \<and>
     GetTrace trace_env (n_buffer (pc_node p')) tidA = None \<and>
     rpc_sent rpc_closing (pr_exporter (n_proc (pc_node p'))) = [])"
proof -
  have p: "pc_node closing_process = closing_node" "\<not> pc_stopping closing_process" "\<not> pc_ctxDone closing_process"
    by (simp_all add: closing_process_def)
  have sel: "lib_buf libs_closing = trace_env" "lib_rpc libs_closing = rpc_closing"
    by (simp_all add: libs_closing_def)
  have sent: "rpc_sent rpc_closing (pr_exporter (n_proc closing_node)) = []"
    by (simp add: rpc_closing_def closing_node_def processor_New_def)
  have "recv (gm_decisionChan (n_gossip closing_node)) = Some (decision_A, makeChan 100)"
    by (simp add: closing_node_def trySend_def makeChan_def recv_def)
  note run = shutdown_loses_decided_trace [of libs_closing closers_example closing_process,
      unfolded p(1) sel sent, OF closing_laws p(2,3) this sampled_laws(5)]
  moreover have "traceOf trace_env (n_buffer closing_node) tidA \<noteq> []"
    using trace_buffer_holds by (auto simp: closing_node_def processor_New_def spans_of_def)
  ultimately show ?thesis by blast
qed

theorem shutdown_stops_input_first_witness:
  "\<exists>p0 p. startProcess libs_example outside_example DefaultConfig (\<lambda>_. nd_example 5 ''u'') (\<lambda>_. None) = Inr p0 \<and>
     rc_serving (pc_rcv p0) \<and> (main_step libs_example
       \<lparr>lib_cacheClose = id, lib_walClose = (\<lambda>w. (w, None)), lib_connClose = id\<rparr> DefaultConfig)\<^sup>*\<^sup>* p0 p \<and>
     pc_stopping p \<and> \<not> rc_serving (pc_rcv p) \<and> pc_list p \<noteq> Some True"
proof -
  let ?K = "\<lparr>lib_cacheClose = id, lib_walClose = (\<lambda>w. (w, None)), lib_connClose = id\<rparr>"
  have "startNode libs_example outside_example DefaultConfig (\<lambda>_. nd_example 5 ''u'') = Inr node_example"
    using node_example_starts(1) [of "lib_gossip libs_example"] by simp
  then obtain p0 where p0: "startProcess libs_example outside_example DefaultConfig (\<lambda>_. nd_example 5 ''u'') (\<lambda>_. None) = Inr p0"
    "\<not> pc_stopping p0" "rc_serving (pc_rcv p0)"
    by (simp add: startProcess_def receiver_Start_def)
  obtain ds p where p: "(main_step libs_example ?K DefaultConfig)\<^sup>*\<^sup>* p0 p" "pc_stopping p"
    "pc_todo p = WalClose # ds @ [Cancel]" "ExpStop \<notin> set ds"
    using unwinds_to_ExpStop [OF p0(2), of libs_example ?K DefaultConfig] by fastforce
  have "main_step libs_example ?K DefaultConfig p (runDeferred ?K WalClose (p\<lparr>pc_todo := ds @ [Cancel]\<rparr>))"
    using p(2,3) by (rule main_step.unwind)
  from shutdown_stops_input_first [OF p0(1) p(1,2) _ this] p(3,4)
  have "\<not> rc_serving (pc_rcv p) \<and> pc_list p \<noteq> Some True" by simp
  with p0 p show ?thesis by blast
qed

end
