(* ===== verification/TraceStore.thy ===== *)
theory TraceStore
  imports Cluster
begin

text \<open>
  The buffer as a store of traces.  Abstractly it is a function from trace IDs to the spans and log
  records received for them: storing a signal appends, removing a trace empties, and nothing else
  changes it.  The buffer, with its cache, encodings and indices, implements this as long as the
  cache evicts nothing and no hashes collide.
\<close>

subsection \<open>Simulations\<close>

text \<open>
  Operations on a concrete and on an abstract state that agree through an abstraction function,
  under an invariant and when each operation is allowed in its state.
\<close>

locale simulation =
  fixes cstep :: "'op \<Rightarrow> 's \<Rightarrow> 's" and astep :: "'op \<Rightarrow> 'a \<Rightarrow> 'a" and abs :: "'s \<Rightarrow> 'a"
    and good :: "'s \<Rightarrow> bool" and allowed :: "'op \<Rightarrow> 's \<Rightarrow> bool"
  assumes step_good: "good s \<Longrightarrow> allowed op s \<Longrightarrow> good (cstep op s)"
    and step_abs: "good s \<Longrightarrow> allowed op s \<Longrightarrow> abs (cstep op s) = astep op (abs s)"
begin

primrec allowedRun :: "'op list \<Rightarrow> 's \<Rightarrow> bool" where
  "allowedRun [] s \<longleftrightarrow> True"
| "allowedRun (op # ops) s \<longleftrightarrow> allowed op s \<and> allowedRun ops (cstep op s)"

lemma run_refines:
  "good s \<Longrightarrow> allowedRun ops s \<Longrightarrow> good (fold cstep ops s) \<and> abs (fold cstep ops s) = fold astep ops (abs s)"
  by (induction ops arbitrary: s) (simp_all add: step_good step_abs)

end

subsection \<open>The operations\<close>

datatype bufOp =
    OpStore nondet Signal
  | OpRemoveTrace nondet TraceID
  | OpRemoveMetrics nondet time time
  | OpRemoveLogs nondet time time
  | OpClearMetrics nondet "string list \<Rightarrow> string list"
  | OpClearLogs nondet "string list \<Rightarrow> string list"

fun runOp :: "('c, 't) bufenv \<Rightarrow> bufOp \<Rightarrow> ('c, 't) InMemoryBuffer \<Rightarrow> ('c, 't) InMemoryBuffer" where
  "runOp E (OpStore nd sig) b = fst (Store E nd sig b)"
| "runOp E (OpRemoveTrace nd tid) b = RemoveTrace E nd b tid"
| "runOp E (OpRemoveMetrics nd s e) b = RemoveMetricsInRange E nd b s e"
| "runOp E (OpRemoveLogs nd s e) b = RemoveLogsInRange E nd b s e"
| "runOp E (OpClearMetrics nd ord) b = ClearMetrics E nd ord b"
| "runOp E (OpClearLogs nd ord) b = ClearLogs E nd ord b"

text \<open>The specification, on the spans and the log records of each trace.\<close>

type_synonym traceStore = "TraceID \<Rightarrow> Traces \<times> Logs"

fun specOp :: "pdata \<Rightarrow> bufOp \<Rightarrow> traceStore \<Rightarrow> traceStore" where
  "specOp P (OpStore nd sig) st = (\<lambda>tid. if pd_IsEmpty P tid then st tid
     else (fst (st tid) @ spansFor tid sig, snd (st tid) @ logsFor tid sig))"
| "specOp P (OpRemoveTrace nd tid) st = st(tid := ([], []))"
| "specOp P _ st = st"

definition storeOf :: "('c, 't) bufenv \<Rightarrow> ('c, 't) InMemoryBuffer \<Rightarrow> traceStore" where
  "storeOf E b = (\<lambda>tid. if pd_IsEmpty (be_pd E) tid then ([], []) else (traceOf E b tid, logsOf E b tid))"

text \<open>
  When an operation is covered: a signal is stored under a fresh key and without evictions, and a
  removed key shares its hash with no other cached key.
\<close>

fun coveredOp :: "('c, 't) bufenv \<Rightarrow> bufOp \<Rightarrow> ('c, 't) InMemoryBuffer \<Rightarrow> bool" where
  "coveredOp E (OpStore nd sig) b \<longleftrightarrow> fresh nd b \<and> quietSignal E nd sig b"
| "coveredOp E (OpRemoveTrace nd tid) b \<longleftrightarrow> uncollided E b (EncodeToString tid)"
| "coveredOp E (OpRemoveMetrics nd s e) b \<longleftrightarrow> (\<forall>k \<in> fst ` set (b_metricKeyMap b). uncollided E b k)"
| "coveredOp E (OpRemoveLogs nd s e) b \<longleftrightarrow> (\<forall>k \<in> fst ` set (b_logKeyMap b). uncollided E b k)"
| "coveredOp E (OpClearMetrics nd ord) b \<longleftrightarrow> (\<forall>k \<in> fst ` set (b_metricKeyMap b). uncollided E b k) \<and>
     (\<forall>ks. set (ord ks) = set ks)"
| "coveredOp E (OpClearLogs nd ord) b \<longleftrightarrow> (\<forall>k \<in> fst ` set (b_logKeyMap b). uncollided E b k) \<and>
     (\<forall>ks. set (ord ks) = set ks)"

abbreviation buffer_good :: "('c, 't) bufenv \<Rightarrow> ('c, 't) InMemoryBuffer \<Rightarrow> bool" where
  "buffer_good E b \<equiv> store_ok E b \<and> btree_ok E \<and> buf_inv E b"

lemma store_ok_cache: "store_ok E b \<Longrightarrow> cache_ok E"
  by (simp add: store_ok_def)

lemma runOp_inv:
  assumes "buffer_good E b" and "coveredOp E op b"
  shows "buf_inv E (runOp E op b)"
proof -
  have ok: "cache_ok E" "btree_ok E" "buf_inv E b" using assms(1) store_ok_cache by blast+
  show ?thesis
    using assms(2) by (cases op) (simp_all add: Store_inv RemoveTrace_inv RemoveInRange_inv ok)
qed

text \<open>Removing keys of metrics and logs leaves the traces alone.\<close>

lemma deletes_sameTraces:
  assumes "cache_ok E" and "\<forall>k \<in> set ks. uncollided E b k \<and> (isMetricKey k \<or> isLogKey k)"
  shows "sameTraces E (fold (cacheDelete E nd) ks b) b"
  unfolding sameTraces_def
proof
  fix tid
  have "EncodeToString tid \<notin> set ks" using assms(2) hex_not_indexed [of tid] by blast
  then show "cache_Get E (b_cache (fold (cacheDelete E nd) ks b)) (EncodeToString tid) =
      cache_Get E (b_cache b) (EncodeToString tid)"
    using cacheDeletes_other(1) [OF assms(1)] assms(2) by blast
qed

lemma range_keys:
  assumes "btree_ok E" and "buf_inv E b"
  shows "k \<in> set (map tk_Key (indexRange E (b_metricTimeIndex b) s e)) \<Longrightarrow> k \<in> fst ` set (b_metricKeyMap b)"
    and "k \<in> set (map tk_Key (indexRange E (b_logTimeIndex b) s e)) \<Longrightarrow> k \<in> fst ` set (b_logKeyMap b)"
    and "k \<in> fst ` set (b_metricKeyMap b) \<Longrightarrow> isMetricKey k" and "k \<in> fst ` set (b_logKeyMap b) \<Longrightarrow> isLogKey k"
proof -
  note idx = inv_idx [OF assms(2), unfolded idx_ok_def]
  show "k \<in> set (map tk_Key (indexRange E (b_metricTimeIndex b) s e)) \<Longrightarrow> k \<in> fst ` set (b_metricKeyMap b)"
    using idx(1) btree_okD(6) [OF assms(1)] by (force simp: indexRange_def)
  show "k \<in> set (map tk_Key (indexRange E (b_logTimeIndex b) s e)) \<Longrightarrow> k \<in> fst ` set (b_logKeyMap b)"
    using idx(2) btree_okD(6) [OF assms(1)] by (force simp: indexRange_def)
  show "k \<in> fst ` set (b_metricKeyMap b) \<Longrightarrow> isMetricKey k" "k \<in> fst ` set (b_logKeyMap b) \<Longrightarrow> isLogKey k"
    using assms(2) unfolding inv_except_def by blast+
qed

lemma removals_sameTraces:
  assumes "buffer_good E b" and "coveredOp E op b" and "\<nexists>nd sig. op = OpStore nd sig" and "\<nexists>nd tid. op = OpRemoveTrace nd tid"
  shows "sameTraces E (runOp E op b) b"
proof -
  have ok: "cache_ok E" "btree_ok E" "buf_inv E b" using assms(1) store_ok_cache by blast+
  note keys = range_keys [OF ok(2,3)]
  have metrics: "sameTraces E (fold (cacheDelete E nd) ks b) b"
    if "\<forall>k \<in> fst ` set (b_metricKeyMap b). uncollided E b k" "set ks \<subseteq> fst ` set (b_metricKeyMap b)" for nd ks
    by (rule deletes_sameTraces [OF ok(1)]) (use that keys(3) in blast)
  have logs: "sameTraces E (fold (cacheDelete E nd) ks b) b"
    if "\<forall>k \<in> fst ` set (b_logKeyMap b). uncollided E b k" "set ks \<subseteq> fst ` set (b_logKeyMap b)" for nd ks
    by (rule deletes_sameTraces [OF ok(1)]) (use that keys(4) in blast)
  have range: "set (map tk_Key (indexRange E (b_metricTimeIndex b) s e)) \<subseteq> fst ` set (b_metricKeyMap b)"
    "set (map tk_Key (indexRange E (b_logTimeIndex b) s e)) \<subseteq> fst ` set (b_logKeyMap b)" for s e
    using keys(1,2) by blast+
  show ?thesis
    using assms(2)
  proof (cases op)
    case (OpRemoveMetrics nd s e)
    then show ?thesis using assms(2) metrics [OF _ range(1)] by (simp add: RemoveMetricsInRange_def)
  next
    case (OpRemoveLogs nd s e)
    then show ?thesis using assms(2) logs [OF _ range(2)] by (simp add: RemoveLogsInRange_def)
  next
    case (OpClearMetrics nd ord)
    then show ?thesis using assms(2) metrics [of "ord (map fst (b_metricKeyMap b))"] by (simp add: ClearMetrics_def)
  next
    case (OpClearLogs nd ord)
    then show ?thesis using assms(2) logs [of "ord (map fst (b_logKeyMap b))"] by (simp add: ClearLogs_def)
  qed (use assms(3,4) in blast)+
qed

lemma RemoveTrace_views:
  assumes "cache_ok E" and "uncollided E b (EncodeToString tid)"
  shows "traceOf E (RemoveTrace E nd b tid) = (traceOf E b)(tid := [])"
    and "logsOf E (RemoveTrace E nd b tid) = (logsOf E b)(tid := [])"
    and "entries_ok E b \<Longrightarrow> entries_ok E (RemoveTrace E nd b tid)"
proof -
  have gone: "cache_Get E (b_cache (RemoveTrace E nd b tid)) (EncodeToString tid) = None"
    using cacheDelete_cache(2) [OF assms(1)] by (simp add: RemoveTrace_def)
  have other: "cache_Get E (b_cache (RemoveTrace E nd b tid)) (EncodeToString tid') =
      cache_Get E (b_cache b) (EncodeToString tid')" if "tid' \<noteq> tid" for tid'
    unfolding RemoveTrace_def using that by (intro cacheDelete_other(1) [OF assms]) simp
  show "traceOf E (RemoveTrace E nd b tid) = (traceOf E b)(tid := [])"
    "logsOf E (RemoveTrace E nd b tid) = (logsOf E b)(tid := [])"
    using gone other by (auto simp: fun_eq_iff traceOf_def logsOf_def GetTrace_def GetTraceLogs_def)
  show "entries_ok E (RemoveTrace E nd b tid)" if "entries_ok E b"
    unfolding entries_ok_def
  proof (intro allI impI)
    fix tid' entry
    assume "cache_Get E (b_cache (RemoveTrace E nd b tid)) (EncodeToString tid') = Some entry"
    then have "cache_Get E (b_cache b) (EncodeToString tid') = Some entry"
      using gone other by (cases "tid' = tid") auto
    with that show "snd (gob_Decode E entry) = None" by (simp add: entries_ok_def)
  qed
qed

interpretation store: simulation "runOp E" "specOp (be_pd E)" "storeOf E" "buffer_good E" "coveredOp E" for E
proof unfold_locales
  fix b op
  assume good: "buffer_good E b" and cov: "coveredOp E op b"
  have "store_ok E (runOp E op b) \<and> storeOf E (runOp E op b) = specOp (be_pd E) op (storeOf E b)"
  proof (cases op)
    case (OpStore nd sig)
    then show ?thesis
      using Store_views [of E b nd sig] good cov by (auto simp: storeOf_def fun_eq_iff dest: fresh_range)
  next
    case (OpRemoveTrace nd tid)
    then show ?thesis
      using RemoveTrace_views [OF store_ok_cache, where E = E and b = b and tid = tid and nd = nd] good cov
      by (auto simp: storeOf_def fun_eq_iff store_ok_def)
  qed (use sameTraces_views [OF removals_sameTraces [OF good cov]] good in \<open>simp_all add: storeOf_def fun_eq_iff\<close>)
  with runOp_inv [OF good cov] good
  show "buffer_good E (runOp E op b)" "storeOf E (runOp E op b) = specOp (be_pd E) op (storeOf E b)" by blast+
qed

text \<open>Every operation of the list is covered in the state it runs in.\<close>

primrec coveredOps :: "('c, 't) bufenv \<Rightarrow> bufOp list \<Rightarrow> ('c, 't) InMemoryBuffer \<Rightarrow> bool" where
  "coveredOps E [] b \<longleftrightarrow> True"
| "coveredOps E (op # ops) b \<longleftrightarrow> coveredOp E op b \<and> coveredOps E ops (runOp E op b)"

lemma coveredOps_allowed: "store.allowedRun E ops b = coveredOps E ops b"
  by (induction ops arbitrary: b) simp_all

text \<open>
  C9: The buffer implements a store of traces.  After any sequence of stores, removals of traces,
  removals of time ranges and clearings, what it returns for every trace is what the abstract store
  holds: all spans and log records received for the trace since it was last removed, in order.
  Evictions and colliding hashes are excluded.
\<close>

theorem buffer_refines_trace_store:
  assumes "store_ok E b" and "btree_ok E" and "buf_inv E b" and "coveredOps E ops b"
  shows "storeOf E (fold (runOp E) ops b) = fold (specOp (be_pd E)) ops (storeOf E b)"
proof -
  have "buffer_good E b" "store.allowedRun E ops b" using assms by (simp_all add: coveredOps_allowed)
  from store.run_refines [OF this] show ?thesis by blast
qed

theorem buffer_refines_trace_store_witness:
  "let ops = [OpStore (nd_example 6 ''v'') (SigTrace \<lparr>ts_Traces = traces_example [span_example tidA StatusCodeError], ts_Ctx = ctxAt 5\<rparr>),
              OpClearMetrics (nd_example 7 ''w'') rev] in
   spans_of (fst (storeOf trace_env (fold (runOp trace_env) ops trace_buffer) tidA)) =
     [span_example tidA StatusCodeOk, span_example tidA StatusCodeError]"
proof -
  let ?sig = "SigTrace \<lparr>ts_Traces = traces_example [span_example tidA StatusCodeError], ts_Ctx = ctxAt 5\<rparr>"
  let ?ops = "[OpStore (nd_example 6 ''v'') ?sig, OpClearMetrics (nd_example 7 ''w'') rev]"
  have P: "be_pd trace_env = pdata_example" by (simp add: trace_env_def buf_example_def)
  have tid: "\<not> pd_IsEmpty pdata_example tidA" by code_simp
  have tree: "btree_ok trace_env" by (simp add: trace_env_def buf_example_laws)
  have "fresh (nd_example 6 ''v'') trace_buffer" by (simp add: fresh_def trace_buffer_def buffer_New_def nd_example_range_ok)
  moreover have "uncollided trace_env b k" for b k by (simp add: uncollided_def trace_env_collide)
  ultimately have "coveredOps trace_env ?ops trace_buffer"
    using sampling_quiet nd_example_range_ok by simp
  from buffer_refines_trace_store [OF trace_buffer_store_ok tree trace_buffer_inv this]
  have "fst (storeOf trace_env (fold (runOp trace_env) ?ops trace_buffer) tidA) =
      traceOf trace_env trace_buffer tidA @ itemsFor tidA (flatSpans (traces_example [span_example tidA StatusCodeError]))"
    by (simp add: P tid, simp add: storeOf_def P tid)
  then show ?thesis
    using trace_buffer_holds
    by (simp add: Let_def spans_itemsFor) (simp add: traces_example_def spans_of_def span_example_def)
qed

end
