(* ===== verification/Locks.thy ===== *)
theory Locks
  imports Buffer
begin

text \<open>
  The locks of the buffer.  \<open>InMemoryBuffer\<close> guards its indices by the mutex \<open>mu\<close>, the cache
  guards each of its shards by one of its own, and the eviction callback of the buffer, which the
  cache calls, takes \<open>mu\<close>.  Here an operation is the sequence of its lock actions, goroutines
  are interleaved, and the question is whether they can block each other for good.

  How the cache locks is a parameter of the model: its shards, and whether it calls back while it
  holds the lock of one.
\<close>

subsection \<open>Read-write locks\<close>

datatype 'l lockAct = RLock 'l | RUnlock 'l | Lock 'l | Unlock 'l

text \<open>A goroutine: the locks it holds, for writing or not, and the actions it has still to do.\<close>

record 'l thread =
  th_held :: "('l \<times> bool) list"
  th_todo :: "'l lockAct list"

definition holds :: "'l thread \<Rightarrow> 'l \<Rightarrow> bool" where
  "holds t l \<longleftrightarrow> (l, True) \<in> set (th_held t) \<or> (l, False) \<in> set (th_held t)"

definition wantsLock :: "'l thread \<Rightarrow> 'l \<Rightarrow> bool" where
  "wantsLock t l \<longleftrightarrow> (case th_todo t of Lock l' # _ \<Rightarrow> l' = l | _ \<Rightarrow> False)"

text \<open>
  \<open>sync.RWMutex\<close>: a read lock waits for a writer, a write lock for everybody.  A writer that is
  already waiting also keeps out new readers; \<open>pref\<close> says whether every goroutine that is about
  to lock counts as waiting.  The truth is between the two.
\<close>

definition mayRun :: "bool \<Rightarrow> 'l thread list \<Rightarrow> 'l lockAct \<Rightarrow> bool" where
  "mayRun pref ts a \<longleftrightarrow>
     (case a of
        RLock l \<Rightarrow> (\<forall>t \<in> set ts. (l, True) \<notin> set (th_held t)) \<and> (pref \<longrightarrow> (\<forall>t \<in> set ts. \<not> wantsLock t l))
      | Lock l \<Rightarrow> (\<forall>t \<in> set ts. \<not> holds t l)
      | _ \<Rightarrow> True)"

fun doAct :: "'l lockAct \<Rightarrow> ('l \<times> bool) list \<Rightarrow> ('l \<times> bool) list" where
  "doAct (RLock l) h = (l, False) # h"
| "doAct (Lock l) h = (l, True) # h"
| "doAct (RUnlock l) h = remove1 (l, False) h"
| "doAct (Unlock l) h = remove1 (l, True) h"

inductive lock_step :: "bool \<Rightarrow> 'l thread list \<Rightarrow> 'l thread list \<Rightarrow> bool" for pref where
  act: "i < length ts \<Longrightarrow> th_todo (ts ! i) = a # p \<Longrightarrow> mayRun pref ts a \<Longrightarrow>
    lock_step pref ts (ts[i := \<lparr>th_held = doAct a (th_held (ts ! i)), th_todo = p\<rparr>])"

inductive_cases lock_stepE: "lock_step pref ts ts'"

abbreviation lock_steps :: "bool \<Rightarrow> 'l thread list \<Rightarrow> 'l thread list \<Rightarrow> bool" where
  "lock_steps pref \<equiv> (lock_step pref)\<^sup>*\<^sup>*"

definition finished :: "'l thread list \<Rightarrow> bool" where
  "finished ts \<longleftrightarrow> (\<forall>t \<in> set ts. th_todo t = [])"

definition spawn :: "'l lockAct list \<Rightarrow> 'l thread" where
  "spawn p = \<lparr>th_held = [], th_todo = p\<rparr>"

lemma mayRun_weaken: "mayRun True ts a \<Longrightarrow> mayRun pref ts a"
  by (auto simp: mayRun_def split: lockAct.splits)

lemma lock_step_runs:
  "lock_step pref ts ts' \<Longrightarrow> \<exists>t \<in> set ts. \<exists>a p. th_todo t = a # p \<and> mayRun pref ts a"
  by (elim lock_stepE) (metis nth_mem)

lemma lock_step_weaken: "lock_step True ts ts' \<Longrightarrow> lock_step pref ts ts'"
  by (auto elim!: lock_stepE intro: lock_step.act mayRun_weaken)

text \<open>Every step does one action, so that a run is as long as what there was to do.\<close>

lemma lock_step_measure:
  assumes "lock_step pref ts ts'"
  shows "sum_list (map (\<lambda>t. length (th_todo t)) ts) = Suc (sum_list (map (\<lambda>t. length (th_todo t)) ts'))"
  using assms
proof cases
  case (act i a p)
  then show ?thesis
    using elem_le_sum_list [of i "map (\<lambda>t. length (th_todo t)) ts"]
    by (simp add: map_update sum_list_update)
qed

subsection \<open>Lock ordering\<close>

text \<open>
  The contract of a program that takes its locks in the order of a rank: what it acquires ranks
  above all it holds, it releases only what it holds, and it ends without a lock.
\<close>

fun ordered :: "('l \<Rightarrow> nat) \<Rightarrow> ('l \<times> bool) list \<Rightarrow> 'l lockAct list \<Rightarrow> bool" where
  "ordered rank h [] \<longleftrightarrow> h = []"
| "ordered rank h (RLock l # p) \<longleftrightarrow> (\<forall>x \<in> set h. rank (fst x) < rank l) \<and> ordered rank ((l, False) # h) p"
| "ordered rank h (Lock l # p) \<longleftrightarrow> (\<forall>x \<in> set h. rank (fst x) < rank l) \<and> ordered rank ((l, True) # h) p"
| "ordered rank h (RUnlock l # p) \<longleftrightarrow> (l, False) \<in> set h \<and> ordered rank (remove1 (l, False) h) p"
| "ordered rank h (Unlock l # p) \<longleftrightarrow> (l, True) \<in> set h \<and> ordered rank (remove1 (l, True) h) p"

lemma ordered_step: "ordered rank h (a # p) \<Longrightarrow> ordered rank (doAct a h) p"
  by (cases a) simp_all

lemma ordered_append: "ordered rank h p \<Longrightarrow> ordered rank [] q \<Longrightarrow> ordered rank h (p @ q)"
  by (induction rank h p rule: ordered.induct) simp_all

lemma ordered_concat: "(\<And>p. p \<in> set ps \<Longrightarrow> ordered rank [] p) \<Longrightarrow> ordered rank [] (concat ps)"
  by (induction ps) (simp_all add: ordered_append)

definition target :: "'l lockAct \<Rightarrow> 'l option" where
  "target a = (case a of RLock l \<Rightarrow> Some l | Lock l \<Rightarrow> Some l | _ \<Rightarrow> None)"

lemma ordered_target:
  "ordered rank h (a # p) \<Longrightarrow> target a = Some l \<Longrightarrow> x \<in> set h \<Longrightarrow> rank (fst x) < rank l"
  by (cases a) (auto simp: target_def)

locale ordered_locking =
  fixes prog :: "'c \<Rightarrow> 'l lockAct list"
    and rank :: "'l \<Rightarrow> nat"
  assumes prog_ordered: "ordered rank [] (prog c)"
begin

definition "good ts \<longleftrightarrow> (\<forall>t \<in> set ts. ordered rank (th_held t) (th_todo t))"

lemma good_start: "good (map (\<lambda>c. spawn (prog c)) cs)"
  by (simp add: good_def spawn_def prog_ordered)

lemma good_step: "good ts \<Longrightarrow> lock_step pref ts ts' \<Longrightarrow> good ts'"
  by (auto simp: good_def set_conv_nth nth_list_update elim!: lock_stepE)
     (metis nth_mem ordered_step)+

lemma good_steps: "lock_steps pref ts ts' \<Longrightarrow> good ts \<Longrightarrow> good ts'"
  by (induction rule: rtranclp_induct) (auto intro: good_step)

text \<open>A goroutine that holds a lock is not done, and wants nothing below it.\<close>

lemma holder_above:
  assumes "good ts" and "t \<in> set ts" and "holds t l"
  shows "\<exists>a p. th_todo t = a # p \<and> (\<forall>l'. target a = Some l' \<longrightarrow> rank l < rank l')"
proof -
  have ok: "ordered rank (th_held t) (th_todo t)" using assms(1,2) by (simp add: good_def)
  moreover have "th_held t \<noteq> []" using assms(3) by (auto simp: holds_def)
  ultimately obtain a p where p: "th_todo t = a # p" by (cases "th_todo t") simp_all
  then show ?thesis using ok assms(3) ordered_target [of rank "th_held t" a p] by (fastforce simp: holds_def)
qed

lemma progress:
  assumes "good ts" and "\<not> finished ts"
  shows "\<exists>ts'. lock_step True ts ts'"
proof (rule ccontr)
  assume stuck: "\<nexists>ts'. lock_step True ts ts'"
  have blocked: "\<not> mayRun True ts a" if "t \<in> set ts" "th_todo t = a # p" for t a p
    using stuck that by (auto simp: in_set_conv_nth intro: lock_step.act)
  let ?W = "{l. \<exists>t \<in> set ts. \<exists>a p. th_todo t = a # p \<and> target a = Some l}"
  have wants: "target a \<noteq> None" if "t \<in> set ts" "th_todo t = a # p" for t a p
    using blocked [OF that] by (cases a) (simp_all add: mayRun_def target_def)
  obtain t a p where t: "t \<in> set ts" "th_todo t = a # p"
    using assms(2) by (auto simp: finished_def neq_Nil_conv)
  have ne: "?W \<noteq> {}" using wants [OF t] t by blast
  have sub: "?W \<subseteq> (\<lambda>t. the (target (hd (th_todo t)))) ` set ts"
    by (force simp: image_iff)
  then have fin: "finite ?W" by (rule finite_subset) simp
  then have "Max (rank ` ?W) \<in> rank ` ?W" using ne by (intro Max_in) simp_all
  then obtain l where l: "l \<in> ?W" "Max (rank ` ?W) = rank l" by blast
  have top: "rank l' \<le> rank l" if "l' \<in> ?W" for l'
    using Max_ge [OF finite_imageI [OF fin] imageI [OF that, of rank]] unfolding l(2) .
  have free: "\<not> holds u l" if u: "u \<in> set ts" for u
  proof
    assume h: "holds u l"
    obtain b q where b: "th_todo u = b # q" "\<forall>l'. target b = Some l' \<longrightarrow> rank l < rank l'"
      using holder_above [OF assms(1) u h] by blast
    obtain l' where l': "target b = Some l'" using wants [OF u b(1)] by blast
    then have "rank l' \<le> rank l" using top u b(1) by blast
    then show False using b(2) l' by auto
  qed
  then have nolock: "\<not> wantsLock u l" if "u \<in> set ts" for u
    using that blocked [OF that] by (auto simp: wantsLock_def mayRun_def split: list.splits lockAct.splits)
  obtain u b q where u: "u \<in> set ts" "th_todo u = b # q" "target b = Some l" using l(1) by blast
  show False
    using blocked [OF u(1,2)] u(3) free nolock
    by (cases b) (auto simp: mayRun_def target_def holds_def)
qed

lemma completes:
  assumes "lock_steps True (map (\<lambda>c. spawn (prog c)) cs) ts"
  shows "finished ts \<or> (\<exists>ts'. lock_step True ts ts')"
  using progress [OF good_steps [OF assms good_start]] by blast

end

subsection \<open>The operations of the buffer\<close>

text \<open>
  The mutex of the buffer and the locks of the shards of the cache.  The parameter \<open>cacheLocks\<close>
  is what a read and a write (or a removal) of a key do, the latter with the actions of the
  callbacks it causes.
\<close>

datatype bufLock = Mu | Shard nat

fun lockRank :: "bufLock \<Rightarrow> nat" where
  "lockRank Mu = 0"
| "lockRank (Shard s) = 1"

record cacheLocks =
  cl_shard :: "string \<Rightarrow> nat"
  cl_read :: "string \<Rightarrow> bufLock lockAct list"
  cl_write :: "string \<Rightarrow> bufLock lockAct list \<Rightarrow> bufLock lockAct list"

definition sharded :: "cacheLocks \<Rightarrow> bool" where
  "sharded C \<longleftrightarrow> (\<forall>k. cl_read C k = [RLock (Shard (cl_shard C k)), RUnlock (Shard (cl_shard C k))])"

definition callbacks_outside :: "cacheLocks \<Rightarrow> bool" where
  "callbacks_outside C \<longleftrightarrow>
     (\<forall>k cbs. cl_write C k cbs = [Lock (Shard (cl_shard C k)), Unlock (Shard (cl_shard C k))] @ cbs)"

definition callbacks_inside :: "cacheLocks \<Rightarrow> bool" where
  "callbacks_inside C \<longleftrightarrow>
     (\<forall>k cbs. cl_write C k cbs = Lock (Shard (cl_shard C k)) # cbs @ [Unlock (Shard (cl_shard C k))])"

text \<open>
  The eviction callback, a write of a key that evicts so many entries, the update of an index after
  a successful write, and the read-modify-write of a trace entry.
\<close>

definition onEvictLocks :: "bufLock lockAct list" where
  "onEvictLocks = [Lock Mu, Unlock Mu]"

definition writeLocks :: "cacheLocks \<Rightarrow> string \<times> nat \<Rightarrow> bufLock lockAct list" where
  "writeLocks C w = cl_write C (fst w) (concat (replicate (snd w) onEvictLocks))"

definition indexLocks :: "bool \<Rightarrow> bufLock lockAct list" where
  "indexLocks ok = (if ok then [Lock Mu, Unlock Mu] else [])"

definition mergeLocks :: "cacheLocks \<Rightarrow> string \<times> nat \<Rightarrow> bufLock lockAct list" where
  "mergeLocks C w = cl_read C (fst w) @ writeLocks C w"

text \<open>
  The calls, with the keys they work on and how many entries each write evicts: storing (and
  whether the write of a time-bound entry succeeds), reading and removing a trace, reading and
  removing a range, clearing, and a run of the cache's cleaning.
\<close>

datatype bufCall =
    CallStoreTraces "(string \<times> nat) list"
  | CallStoreLogs "(string \<times> nat) list" "((string \<times> nat) \<times> bool) option"
  | CallStoreMetric "string \<times> nat" bool
  | CallGetTrace string
  | CallRemoveTrace "string \<times> nat"
  | CallGetInRange "string list"
  | CallRemoveInRange "(string \<times> nat) list"
  | CallClear "(string \<times> nat) list"
  | CallClean "(string \<times> nat) list"

fun lockProgram :: "cacheLocks \<Rightarrow> bufCall \<Rightarrow> bufLock lockAct list" where
  "lockProgram C (CallStoreTraces ws) = concat (map (mergeLocks C) ws)"
| "lockProgram C (CallStoreLogs ws t) = concat (map (mergeLocks C) ws) @
     (case t of None \<Rightarrow> [] | Some (w, ok) \<Rightarrow> writeLocks C w @ indexLocks ok)"
| "lockProgram C (CallStoreMetric w ok) = writeLocks C w @ indexLocks ok"
| "lockProgram C (CallGetTrace k) = cl_read C k"
| "lockProgram C (CallRemoveTrace w) = writeLocks C w"
| "lockProgram C (CallGetInRange ks) = RLock Mu # concat (map (cl_read C) ks) @ [RUnlock Mu]"
| "lockProgram C (CallRemoveInRange ws) = [RLock Mu, RUnlock Mu] @ concat (map (writeLocks C) ws)"
| "lockProgram C (CallClear ws) = [Lock Mu, Unlock Mu] @ concat (map (writeLocks C) ws)"
| "lockProgram C (CallClean ws) = concat (map (writeLocks C) ws)"

text \<open>The cache whose callbacks run outside its locks.\<close>

definition outsideCache :: "(string \<Rightarrow> nat) \<Rightarrow> cacheLocks" where
  "outsideCache shard = \<lparr>cl_shard = shard, cl_read = (\<lambda>k. [RLock (Shard (shard k)), RUnlock (Shard (shard k))]),
     cl_write = (\<lambda>k cbs. [Lock (Shard (shard k)), Unlock (Shard (shard k))] @ cbs)\<rparr>"

lemma outsideCache_unique: "sharded C \<Longrightarrow> callbacks_outside C \<Longrightarrow> C = outsideCache (cl_shard C)"
  by (cases C) (simp add: sharded_def callbacks_outside_def outsideCache_def fun_eq_iff)

lemma ordered_range:
  "ordered lockRank [(Mu, False)] (concat (map (cl_read (outsideCache sh)) ks) @ [RUnlock Mu])"
  by (induction ks) (simp_all add: outsideCache_def)

lemma ordered_parts:
  "ordered lockRank [] (cl_read (outsideCache sh) k)" "ordered lockRank [] (indexLocks ok)"
  "ordered lockRank [] (writeLocks (outsideCache sh) w)"
proof -
  have "ordered lockRank [] onEvictLocks" by (simp add: onEvictLocks_def)
  then have "ordered lockRank [] (concat (replicate n onEvictLocks))" for n
    by (intro ordered_concat) auto
  then show "ordered lockRank [] (writeLocks (outsideCache sh) w)"
    by (simp add: writeLocks_def outsideCache_def)
qed (simp_all add: indexLocks_def outsideCache_def)

interpretation buflocks: ordered_locking "lockProgram (outsideCache sh)" lockRank for sh
proof
  fix c :: bufCall
  have "ordered lockRank [] (mergeLocks (outsideCache sh) w)" for w
    unfolding mergeLocks_def by (intro ordered_append ordered_parts)
  then show "ordered lockRank [] (lockProgram (outsideCache sh) c)"
    by (cases c) (auto intro!: ordered_append ordered_concat ordered_parts ordered_range split: option.split)
qed

subsection \<open>Properties\<close>



text \<open>
  C34: If the cache runs its callbacks while it holds the lock of the shard, a range query and a
  write that evicts can block each other for good: the query holds \<open>mu\<close> and waits for the shard
  of an entry, the write holds that shard and its callback waits for \<open>mu\<close>.  Neither can go on,
  whatever waiting writers do.
\<close>

theorem range_query_deadlock:
  assumes "sharded C" and "callbacks_inside C" and "cl_shard C k' = cl_shard C k"
  shows "\<exists>ts. lock_steps True (map (\<lambda>c. spawn (lockProgram C c))
      [CallGetInRange (k # ks), CallStoreMetric (k', Suc n) ok]) ts \<and>
    \<not> finished ts \<and> (\<forall>pref. \<nexists>ts'. lock_step pref ts ts')"
proof -
  let ?s = "Shard (cl_shard C k)"
  let ?q = "concat (map (cl_read C) ks) @ [RUnlock Mu]" and ?e = "concat (replicate n onEvictLocks)"
  let ?t1 = "\<lparr>th_held = [], th_todo = RLock Mu # RLock ?s # RUnlock ?s # ?q\<rparr>"
  let ?t1' = "\<lparr>th_held = [(Mu, False)], th_todo = RLock ?s # RUnlock ?s # ?q\<rparr>"
  let ?r = "Lock Mu # Unlock Mu # ?e @ [Unlock ?s] @ indexLocks ok"
  let ?t2 = "\<lparr>th_held = [], th_todo = Lock ?s # ?r\<rparr>"
  let ?t2' = "\<lparr>th_held = [(?s, True)], th_todo = ?r\<rparr>"
  have start: "map (\<lambda>c. spawn (lockProgram C c))
      [CallGetInRange (k # ks), CallStoreMetric (k', Suc n) ok] = [?t1, ?t2]"
    using assms by (simp add: spawn_def writeLocks_def sharded_def callbacks_inside_def onEvictLocks_def)
  have "lock_step True [?t1, ?t2] [?t1', ?t2]"
    using lock_step.act [of 0 "[?t1, ?t2]" "RLock Mu" "RLock ?s # RUnlock ?s # ?q" True]
    by (simp add: mayRun_def wantsLock_def)
  moreover have "lock_step True [?t1', ?t2] [?t1', ?t2']"
    using lock_step.act [of 1 "[?t1', ?t2]" "Lock ?s" ?r True] by (simp add: mayRun_def holds_def)
  ultimately have "lock_steps True [?t1, ?t2] [?t1', ?t2']"
    by (rule converse_rtranclp_into_rtranclp [OF _ r_into_rtranclp])
  moreover have "\<not> lock_step pref [?t1', ?t2'] ts'" for pref ts'
  proof
    assume "lock_step pref [?t1', ?t2'] ts'"
    from lock_step_runs [OF this] show False by (auto simp: mayRun_def holds_def)
  qed
  moreover have "\<not> finished [?t1', ?t2']" by (simp add: finished_def)
  ultimately show ?thesis unfolding start by blast
qed

definition insideCache :: cacheLocks where
  "insideCache = \<lparr>cl_shard = length, cl_read = (\<lambda>k. [RLock (Shard (length k)), RUnlock (Shard (length k))]),
     cl_write = (\<lambda>k cbs. Lock (Shard (length k)) # cbs @ [Unlock (Shard (length k))])\<rparr>"

theorem range_query_deadlock_witness:
  "\<exists>ts. lock_steps True (map (\<lambda>c. spawn (lockProgram insideCache c))
      [CallGetInRange [''m_1''], CallStoreMetric (''m_2'', Suc 0) True]) ts \<and>
    \<not> finished ts \<and> (\<forall>pref. \<nexists>ts'. lock_step pref ts ts')"
  by (rule range_query_deadlock) (simp_all add: sharded_def callbacks_inside_def insideCache_def)

end
