(* ===== verification/Load.thy ===== *)
theory Load
  imports Progress
begin

text \<open>
  How load changes the cardinality of what is rolled up, in one node and across the cluster: the
  load monitor of \<open>cmd/server/main.go\<close> announces through gossip when the number of cached entries
  crosses its threshold, and the processor of every node that hears of it switches its rollup level.
\<close>

subsection \<open>One node\<close>

lemma default_threshold:
  assumes "0 \<le> c" and "c < 2 ^ 53"
  shows "fgt (floatOfInt c) (loadThreshold (cfg_Buffer DefaultConfig)) \<longleftrightarrow> 4000 < c"
    and "fle (floatOfInt c) (loadThreshold (cfg_Buffer DefaultConfig)) \<longleftrightarrow> c \<le> 4000"
proof -
  have thr: "loadThreshold (cfg_Buffer DefaultConfig) = Fin False 8796093022208000 (- 41)"
  proof -
    have "bitLen 36028797018963970000 = 65" "bitLen 8796093022208000 = 53" by (simp_all add: bitLen.simps)
    then show ?thesis
      by (simp add: loadThreshold_def DefaultConfig_def floatOfInt_small fround_def foverflow_def Let_def)
  qed
  have c: "floatOfInt c = Fin False (nat c) 0" using assms floatOfInt_small [of c] by simp
  show gt: "fgt (floatOfInt c) (loadThreshold (cfg_Buffer DefaultConfig)) \<longleftrightarrow> 4000 < c"
    using assms(1) by (simp add: thr c fgt_def fscale_def)
  show "fle (floatOfInt c) (loadThreshold (cfg_Buffer DefaultConfig)) \<longleftrightarrow> c \<le> 4000"
    using gt fle_iff_not_fgt [of "floatOfInt c" "loadThreshold (cfg_Buffer DefaultConfig)"] by (auto simp: thr c)
qed

text \<open>
  With the default configuration the load monitor switches at 4000 cached entries: a tick
  remembers whether there are more; when that changes, and only then, it announces it, and the
  processor that receives the announcement rolls up coarsely under high load and finely again
  after it.
\<close>

theorem load_switches_rollup_level:
  fixes L :: "('c, 't, 'w, 'q, 'x) libs" and n :: "('c, 't, 'w, 'q, 'x) Node"
  defines "cnt \<equiv> GetTraceCount (lib_buf L) (n_buffer n)"
  assumes "0 \<le> cnt" and "cnt < 2 ^ 53"
    and "\<forall>msg. \<not> isl (ge_Marshal (lib_gossip L) msg)" and "gm_broadcasts (n_gossip n) \<noteq> None"
    and "chanQueue (gm_triggerChan (n_gossip n)) = []" and "0 < chanCap (gm_triggerChan (n_gossip n))"
  shows "\<exists>n'. loadTick L (cfg_Buffer DefaultConfig) now n = Inr n' \<and> n_highLoadActive n' = (4000 < cnt) \<and>
    (if n_highLoadActive n = (4000 < cnt) then n' = n
     else \<exists>t ch. recv (gm_triggerChan (n_gossip n')) = Some (t, ch) \<and>
       rp_currentLevel (pr_rollup (processTrigger t (n_proc n'))) = (if 4000 < cnt then LevelCoarse else LevelFine))"
proof -
  note cmp = default_threshold [OF assms(2,3)]
  define t where "t = \<lparr>te_Name = ''high_load'', te_Value = floatOfInt cnt,
    te_Threshold = loadThreshold (cfg_Buffer DefaultConfig), te_StartedAt = now\<rparr>"
  obtain m where m: "BroadcastTrigger (lib_gossip L) t (n_gossip n) = Inr (m, None)"
    "gm_triggerChan m = trySend t (gm_triggerChan (n_gossip n))"
    using assms(4,5) by (cases "ge_Marshal (lib_gossip L) (Some (GossipMessage_TriggerEvent (toPbTrigger (lib_gossip L) t)))")
      (auto simp: BroadcastTrigger_def Let_def isl_def)
  have lvl: "rp_currentLevel (pr_rollup (processTrigger t p)) = (if 4000 < cnt then LevelCoarse else LevelFine)"
    for p :: "('c, 't, 'x) Sampler"
    using cmp by (simp add: processTrigger_def t_def SetLevel_def)
  have rcv: "recv (gm_triggerChan m) = Some (t, gm_triggerChan (n_gossip n))"
    using m(2) recv_trySend_empty [OF assms(6,7)] by simp
  have tick: "loadTick L (cfg_Buffer DefaultConfig) now n = Inr (if n_highLoadActive n = (4000 < cnt) then n
      else n\<lparr>n_gossip := m, n_highLoadActive := 4000 < cnt\<rparr>)"
    using m(1) cmp by (auto simp: loadTick_def Let_def cnt_def [symmetric] t_def [symmetric])
  then show ?thesis using lvl rcv by simp
qed

theorem load_switches_rollup_level_witness:
  "GetTraceCount trace_env (n_buffer sampling_node) = 1 \<and>
   loadTick libs_sampling (cfg_Buffer DefaultConfig) 9 (sampling_node\<lparr>n_highLoadActive := False\<rparr>) =
     Inr (sampling_node\<lparr>n_highLoadActive := False\<rparr>) \<and>
   (\<exists>n' t ch. loadTick libs_sampling (cfg_Buffer DefaultConfig) 9 (sampling_node\<lparr>n_highLoadActive := True\<rparr>) = Inr n' \<and>
     recv (gm_triggerChan (n_gossip n')) = Some (t, ch) \<and>
     rp_currentLevel (pr_rollup (processTrigger t (n_proc n'))) = LevelFine)"
proof -
  have count: "GetTraceCount trace_env trace_buffer = 1" by code_simp
  have gossip: "\<forall>msg. \<not> isl (ge_Marshal env_always msg)" "gm_broadcasts manager_example \<noteq> None"
    "chanQueue (gm_triggerChan manager_example) = []" "0 < chanCap (gm_triggerChan manager_example)"
    by (simp add: env_always_def, code_simp+)
  have sel: "n_buffer (sampling_node\<lparr>n_highLoadActive := a\<rparr>) = trace_buffer"
    "n_gossip (sampling_node\<lparr>n_highLoadActive := a\<rparr>) = manager_example" for a
    by (simp_all add: sampling_sel)
  from load_switches_rollup_level [of libs_sampling "sampling_node\<lparr>n_highLoadActive := False\<rparr>" 9]
    load_switches_rollup_level [of libs_sampling "sampling_node\<lparr>n_highLoadActive := True\<rparr>" 9]
  show ?thesis unfolding sel sampling_sel count using gossip by auto
qed

subsection \<open>The cluster\<close>

text \<open>What a tick of the load monitor announces, and the level that the announcement asks for.\<close>

definition loadEvent :: "('c, 't, 'w, 'q, 'x) libs \<Rightarrow> BufferConfig \<Rightarrow> time \<Rightarrow> ('c, 't, 'w, 'q, 'x) Node \<Rightarrow> TriggerEvent" where
  "loadEvent L cfg now n = \<lparr>te_Name = ''high_load'',
     te_Value = floatOfInt (GetTraceCount (lib_buf L) (n_buffer n)),
     te_Threshold = loadThreshold cfg, te_StartedAt = now\<rparr>"

abbreviation level :: "('c, 't, 'w, 'q, 'x) Node \<Rightarrow> CardinalityLevel" where
  "level n \<equiv> rp_currentLevel (pr_rollup (n_proc n))"

lemma BroadcastTrigger_sends:
  assumes "ge_Marshal G (Some (GossipMessage_TriggerEvent (toPbTrigger G t))) = Inr b"
    and "gm_broadcasts m = Some q"
  shows "BroadcastTrigger G t m = Inr (m\<lparr>gm_broadcasts := Some (ge_QueueBroadcast G q \<lparr>bc_msg = b\<rparr>),
    gm_triggerChan := trySend t (gm_triggerChan m)\<rparr>, None)"
  using assms by (simp add: BroadcastTrigger_def Let_def)

lemma handles_next:
  assumes "recv (gm_triggerChan (n_gossip n)) = Some (t, ch)"
  shows "handles t n (n\<lparr>n_gossip := (n_gossip n)\<lparr>gm_triggerChan := ch\<rparr>, n_proc := processTrigger t (n_proc n)\<rparr>)"
  using assms unfolding handles_def by blast

lemma handles_level:
  assumes "handles t n n'" and "te_Name t = ''high_load''"
  shows "level n' = (if fgt (te_Value t) (te_Threshold t) then LevelCoarse else LevelFine)"
  using assms by (auto simp: handles_def processTrigger_def SetLevel_def)

lemma peer_handles:
  assumes "proto_ok G" and "tspb_ok G" and "ts_range (te_StartedAt t)"
    and "ge_Marshal G (Some (GossipMessage_TriggerEvent (toPbTrigger G t))) = Inr msg"
    and "triggers n = []" and "0 < chanCap (gm_triggerChan (n_gossip n))"
  shows "\<exists>n'. handles t (n\<lparr>n_gossip := NotifyMsg G msg (n_gossip n)\<rparr>) n' \<and> n_buffer n' = n_buffer n \<and>
    n_highLoadActive n' = n_highLoadActive n"
proof -
  let ?n = "n\<lparr>n_gossip := NotifyMsg G msg (n_gossip n)\<rparr>"
  have "recv (gm_triggerChan (n_gossip ?n)) = Some (t, gm_triggerChan (n_gossip n))"
    using NotifyMsg_trigger [OF assms(1,2,4,3)] recv_trySend_empty [OF assms(5,6)] by simp
  from handles_next [OF this] show ?thesis by - (rule exI, rule conjI, assumption, simp)
qed

text \<open>
  C12: High load at one node makes the whole cluster roll up coarsely, and the end of it finely
  again.  When the number of cached entries of a node has crossed 4000, with the default
  configuration, the next tick of its load monitor queues one message for the cluster and notes the
  change; the node itself and every peer that is given the message handle the same event, and
  afterwards have the level that goes with the load of the first node.
\<close>

theorem load_reaches_cluster:
  fixes L :: "('c, 't, 'w, 'q, 'x) libs" and n peer :: "('c, 't, 'w, 'q, 'x) Node" and now :: time
  defines "cnt \<equiv> GetTraceCount (lib_buf L) (n_buffer n)" and "G \<equiv> lib_gossip L"
    and "t \<equiv> loadEvent L (cfg_Buffer DefaultConfig) now n"
  assumes "0 \<le> cnt" and "cnt < 2 ^ 53" and "n_highLoadActive n \<noteq> (4000 < cnt)"
    and "proto_ok G" and "tspb_ok G" and "ts_range now"
    and "ge_Marshal G (Some (GossipMessage_TriggerEvent (toPbTrigger G t))) = Inr msg"
    and "gm_broadcasts (n_gossip n) = Some q"
    and "triggers n = []" and "0 < chanCap (gm_triggerChan (n_gossip n))"
    and "triggers peer = []" and "0 < chanCap (gm_triggerChan (n_gossip peer))"
  shows "\<exists>n1 n2 peer2. loadTick L (cfg_Buffer DefaultConfig) now n = Inr n1 \<and> n_highLoadActive n1 = (4000 < cnt) \<and>
    gm_broadcasts (n_gossip n1) = Some (ge_QueueBroadcast G q \<lparr>bc_msg = msg\<rparr>) \<and>
    handles t n1 n2 \<and> level n2 = (if 4000 < cnt then LevelCoarse else LevelFine) \<and>
    handles t (peer\<lparr>n_gossip := NotifyMsg G msg (n_gossip peer)\<rparr>) peer2 \<and>
    level peer2 = (if 4000 < cnt then LevelCoarse else LevelFine)"
proof -
  note cmp = default_threshold [OF assms(4,5)]
  have t: "te_Name t = ''high_load''" "te_StartedAt t = now" "fgt (te_Value t) (te_Threshold t) = (4000 < cnt)"
    using cmp(1) by (simp_all add: t_def loadEvent_def cnt_def)
  let ?m = "(n_gossip n)\<lparr>gm_broadcasts := Some (ge_QueueBroadcast G q \<lparr>bc_msg = msg\<rparr>),
      gm_triggerChan := trySend t (gm_triggerChan (n_gossip n))\<rparr>"
  let ?n1 = "n\<lparr>n_gossip := ?m, n_highLoadActive := 4000 < cnt\<rparr>"
  have "loadTick L (cfg_Buffer DefaultConfig) now n = Inr ?n1"
    using BroadcastTrigger_sends [OF assms(10,11)] assms(6) cmp
    by (auto simp: loadTick_def Let_def cnt_def [symmetric] G_def [symmetric] t_def loadEvent_def)
  moreover have "recv (gm_triggerChan (n_gossip ?n1)) = Some (t, gm_triggerChan (n_gossip n))"
    using recv_trySend_empty [OF assms(12,13)] by simp
  then obtain n2 where n2: "handles t ?n1 n2" using handles_next by blast
  moreover obtain peer2 where p2: "handles t (peer\<lparr>n_gossip := NotifyMsg G msg (n_gossip peer)\<rparr>) peer2"
    using peer_handles [OF assms(7,8) _ assms(10,14,15)] assms(9) t(2) by auto
  ultimately show ?thesis
    using handles_level [OF n2 t(1)] handles_level [OF p2 t(1)] t(3)
    by (intro exI [of _ ?n1] exI [of _ n2] exI [of _ peer2]) simp
qed

text \<open>Nodes whose cache says that it holds 5000 entries, and the event their load monitor announces.\<close>

definition load_event :: TriggerEvent where
  "load_event = \<lparr>te_Name = ''high_load'', te_Value = floatOfInt 5000,
     te_Threshold = loadThreshold (cfg_Buffer DefaultConfig), te_StartedAt = 9\<rparr>"

definition normal_event :: TriggerEvent where
  "normal_event = load_event\<lparr>te_Value := floatOfInt 3000\<rparr>"

definition libs_loaded :: "TriggerEvent \<Rightarrow> (listCache, TimeKey list, listLog, broadcast list, Export list) libs" where
  "libs_loaded t = libs_sampling\<lparr>lib_buf := trace_env\<lparr>cache_Len := \<lambda>_. 5000\<rparr>,
     lib_gossip := gossip_example (Some (GossipMessage_TriggerEvent (toPbTrigger (gossip_example None) t)))\<rparr>"

lemma loaded_laws:
  "GetTraceCount (lib_buf (libs_loaded t)) b = 5000"
  "proto_ok (lib_gossip (libs_loaded t))" "tspb_ok (lib_gossip (libs_loaded t))"
  "ge_Marshal (lib_gossip (libs_loaded t)) (Some (GossipMessage_TriggerEvent (toPbTrigger (lib_gossip (libs_loaded t)) t))) = Inr [7]"
  "triggers sampling_node = []" "0 < chanCap (gm_triggerChan (n_gossip sampling_node))"
  "gm_broadcasts (n_gossip sampling_node) = Some []"
proof -
  show "triggers sampling_node = []" "0 < chanCap (gm_triggerChan (n_gossip sampling_node))"
    "gm_broadcasts (n_gossip sampling_node) = Some []"
    unfolding sampling_sel by code_simp+
qed (simp_all add: libs_loaded_def GetTraceCount_def gossip_example_proto_ok gossip_example_tspb_ok,
     simp add: gossip_example_def toPbTrigger_def)

theorem load_reaches_cluster_witness:
  "\<exists>n1 n2 peer2. loadTick (libs_loaded load_event) (cfg_Buffer DefaultConfig) 9 (sampling_node\<lparr>n_highLoadActive := False\<rparr>) = Inr n1 \<and>
     handles load_event n1 n2 \<and> level n2 = LevelCoarse \<and>
     handles load_event (sampling_node\<lparr>n_gossip := NotifyMsg (lib_gossip (libs_loaded load_event)) [7] (n_gossip sampling_node)\<rparr>) peer2 \<and>
     level peer2 = LevelCoarse"
proof -
  let ?L = "libs_loaded load_event" and ?n = "sampling_node\<lparr>n_highLoadActive := False\<rparr>"
  have event: "loadEvent ?L (cfg_Buffer DefaultConfig) 9 ?n = load_event"
    by (simp add: loadEvent_def load_event_def loaded_laws(1))
  have gsp: "triggers ?n = []" "0 < chanCap (gm_triggerChan (n_gossip ?n))" "gm_broadcasts (n_gossip ?n) = Some []"
    using loaded_laws(5-7) by simp_all
  have now: "ts_range 9" by (simp add: ts_range_def)
  show ?thesis
    using load_reaches_cluster [of ?L ?n 9 "[7]" "[]" sampling_node, unfolded event loaded_laws(1)]
      loaded_laws(2-6) gsp now by auto
qed

text \<open>
  C40: The level of a node is the one of whoever announced last, not the one of its own load.  A node
  that is above its threshold and has announced it switches to the fine level when a peer announces
  that its own load is back to normal, and it stays there: as long as its cache is above the
  threshold, the ticks of its load monitor announce nothing and leave it as it is.
\<close>

theorem peer_overrides_own_load:
  fixes L :: "('c, 't, 'w, 'q, 'x) libs" and n :: "('c, 't, 'w, 'q, 'x) Node"
  defines "G \<equiv> lib_gossip L"
  assumes "n_highLoadActive n"
    and "fgt (floatOfInt (GetTraceCount (lib_buf L) (n_buffer n))) (loadThreshold cfg)"
    and "te_Name t = ''high_load''" and "\<not> fgt (te_Value t) (te_Threshold t)"
    and "proto_ok G" and "tspb_ok G" and "ts_range (te_StartedAt t)"
    and "ge_Marshal G (Some (GossipMessage_TriggerEvent (toPbTrigger G t))) = Inr msg"
    and "triggers n = []" and "0 < chanCap (gm_triggerChan (n_gossip n))"
  shows "\<exists>n'. handles t (n\<lparr>n_gossip := NotifyMsg G msg (n_gossip n)\<rparr>) n' \<and> level n' = LevelFine \<and>
    n_buffer n' = n_buffer n \<and> (\<forall>now. loadTick L cfg now n' = Inr n')"
proof -
  obtain n' where n': "handles t (n\<lparr>n_gossip := NotifyMsg G msg (n_gossip n)\<rparr>) n'" "n_buffer n' = n_buffer n"
    "n_highLoadActive n' = n_highLoadActive n"
    using peer_handles [OF assms(6-11)] by blast
  have "loadTick L cfg now n' = Inr n'" for now
    using assms(2,3) n'(2,3) fle_fgt_disjoint by (auto simp: loadTick_def Let_def)
  with n' handles_level [OF n'(1) assms(4)] assms(5) show ?thesis by auto
qed

theorem peer_overrides_own_load_witness:
  "GetTraceCount (lib_buf (libs_loaded normal_event)) (n_buffer sampling_node) = 5000 \<and>
   (\<exists>n'. handles normal_event ((sampling_node\<lparr>n_highLoadActive := True\<rparr>)\<lparr>n_gossip :=
        NotifyMsg (lib_gossip (libs_loaded normal_event)) [7] (n_gossip sampling_node)\<rparr>) n' \<and>
      level n' = LevelFine \<and> loadTick (libs_loaded normal_event) (cfg_Buffer DefaultConfig) 20 n' = Inr n')"
proof -
  let ?L = "libs_loaded normal_event" and ?n = "sampling_node\<lparr>n_highLoadActive := True\<rparr>"
  have high: "fgt (floatOfInt (GetTraceCount (lib_buf ?L) (n_buffer ?n))) (loadThreshold (cfg_Buffer DefaultConfig))"
    using default_threshold(1) [of 5000] by (simp add: loaded_laws(1))
  have event: "te_Name normal_event = ''high_load''" "\<not> fgt (te_Value normal_event) (te_Threshold normal_event)"
    "ts_range (te_StartedAt normal_event)"
    using default_threshold(1) [of 3000] by (simp_all add: normal_event_def load_event_def ts_range_def)
  have gsp: "triggers ?n = []" "0 < chanCap (gm_triggerChan (n_gossip ?n))" "n_highLoadActive ?n"
    using loaded_laws(5,6) by simp_all
  have "\<exists>n'. handles normal_event (?n\<lparr>n_gossip := NotifyMsg (lib_gossip ?L) [7] (n_gossip ?n)\<rparr>) n' \<and> level n' = LevelFine \<and>
    n_buffer n' = n_buffer ?n \<and> (\<forall>now. loadTick ?L (cfg_Buffer DefaultConfig) now n' = Inr n')"
    by (rule peer_overrides_own_load [OF gsp(3) high event(1,2) loaded_laws(2,3) event(3) loaded_laws(4) gsp(1,2)])
  then show ?thesis by (auto simp: loaded_laws(1))
qed

end
