(* ===== verification/BufferRaces.thy ===== *)
theory BufferRaces
  imports BufferProps
begin

text \<open>
  What holds of the buffer under every sequence of its operations, stated once for any predicate
  that the cache accesses of the buffer keep (locale \<open>buffer_stable\<close>): the invariant of the
  indices, the kinds of the cache entries, and an index entry that has lost its cache entry.

  The last one comes from a race.  \<open>storeMetric\<close> puts the metric into the cache first and takes
  the mutex to index it afterwards; here it is split at that point, so that operations of other
  goroutines can run between its two halves.
\<close>

subsection \<open>Predicates that the operations keep\<close>

text \<open>
  The cache accesses for a trace are those of storing a batch of its own spans or records; the
  entries of metrics and of logs without a trace are written under fresh keys.
\<close>

locale buffer_batches =
  fixes E :: "('c, 't) bufenv" and Q :: "('c, 't) InMemoryBuffer \<Rightarrow> bool"
  assumes Q_storeTrace: "Q b \<Longrightarrow> \<forall>s \<in> set (spans_of spans). span_traceID s = tid \<Longrightarrow>
        Q (fst (storeTrace E nd tid spans b))"
    and Q_storeTraceLogs: "Q b \<Longrightarrow> \<forall>r \<in> set (records_of records). lr_traceID r = tid \<Longrightarrow>
        Q (fst (storeTraceLogs E nd tid records b))"
    and Q_metric: "Q b \<Longrightarrow> fresh nd b \<Longrightarrow> Q (fst (storeMetric E nd msig b))"
    and Q_timeLogs: "Q b \<Longrightarrow> fresh nd b \<Longrightarrow> Q (storeTimeLogs E nd l b)"
    and Q_delete: "Q b \<Longrightarrow> Q (cacheDelete E nd k b)"
    and Q_clean: "Q b \<Longrightarrow> Q (cacheClean E nd b)"
    and Q_recv: "Q b \<Longrightarrow> recv (b_evictedChan b) = Some (sig, ch) \<Longrightarrow> Q (b\<lparr>b_evictedChan := ch\<rparr>)"
begin

lemma Q_deletes: "Q b \<Longrightarrow> Q (fold (cacheDelete E nd) ks b)"
  by (rule fold_inv [where Q = Q]) (blast intro: Q_delete)+

lemma Q_storeTraces:
  assumes "Q b" and "fresh nd b"
  shows "Q (fst (storeTraces E nd sig b))"
proof -
  let ?m = "groupItems (be_pd E) (flatSpans (ts_Traces sig)) []"
  note range = groups_range(2) [OF fresh_range [OF assms(2)], where P = "be_pd E" and items = "flatSpans (ts_Traces sig)"]
  have "Q (fold (\<lambda>tid b. fst (storeTrace E nd tid (the (map_of ?m tid)) b)) (nd_range nd (map fst ?m)) b)"
  proof (rule fold_inv [where Q = Q])
    show "Q (fst (storeTrace E nd tid (the (map_of ?m tid)) b'))"
      if "tid \<in> set (nd_range nd (map fst ?m))" "Q b'" for tid b'
      using Q_storeTrace [OF that(2), of "itemsFor tid (flatSpans (ts_Traces sig))" tid nd] range [OF that(1)]
      by (simp add: spans_itemsFor)
  qed (rule assms(1))
  then show ?thesis by (simp add: storeTraces_def groupSpans_flat Let_def)
qed

lemma Q_storeSplitLogs:
  assumes "Q b" and "fresh nd b"
  shows "Q (fst (storeSplitLogs E nd sig b))"
proof -
  let ?m = "groupItems (be_pd E) (flatRecords (ls_Logs sig)) []"
  let ?b1 = "fold (\<lambda>tid b. fst (storeTraceLogs E nd tid (the (map_of ?m tid)) b)) (nd_range nd (map fst ?m)) b"
  note range = groups_range(2) [OF fresh_range [OF assms(2)], where P = "be_pd E" and items = "flatRecords (ls_Logs sig)"]
  have "Q ?b1 \<and> fresh nd ?b1"
  proof (rule fold_inv [where Q = "\<lambda>b. Q b \<and> fresh nd b"])
    show "Q (fst (storeTraceLogs E nd tid (the (map_of ?m tid)) b')) \<and>
        fresh nd (fst (storeTraceLogs E nd tid (the (map_of ?m tid)) b'))"
      if "tid \<in> set (nd_range nd (map fst ?m))" "Q b' \<and> fresh nd b'" for tid b'
      using Q_storeTraceLogs [of b' "itemsFor tid (flatRecords (ls_Logs sig))" tid nd] that(2) range [OF that(1)]
      by (simp add: records_itemsFor fresh_storeTraceLogs)
  qed (use assms in blast)
  then show ?thesis
    by (auto simp: storeSplitLogs_def splitRecords_flat Let_def Q_timeLogs split: option.splits)
qed

lemma Q_Store: "Q b \<Longrightarrow> fresh nd b \<Longrightarrow> Q (fst (Store E nd sig b))"
  by (cases sig) (simp_all add: Q_storeTraces Q_metric Q_storeSplitLogs)

lemma Q_step:
  assumes "buf_step E b b'" and "Q b"
  shows "Q b'"
  using assms
  by (cases rule: buf_step.cases)
     (simp_all add: Q_Store Q_clean Q_recv Q_delete Q_deletes RemoveTrace_def RemoveMetricsInRange_def
       RemoveLogsInRange_def ClearMetrics_def ClearLogs_def)

lemma Q_steps: "(buf_step E)\<^sup>*\<^sup>* b b' \<Longrightarrow> Q b \<Longrightarrow> Q b'"
  by (induction rule: rtranclp_induct) (blast intro: Q_step)+

lemma Q_reachable: "buf_reachable E c t b \<Longrightarrow> Q (buffer_New c t) \<Longrightarrow> Q b"
  by (induction rule: buf_reachable.induct) (blast intro: Q_step)+

end

text \<open>Predicates that any write of a stored trace keeps, whatever it holds.\<close>

locale buffer_stable =
  fixes E :: "('c, 't) bufenv" and Q :: "('c, 't) InMemoryBuffer \<Rightarrow> bool"
  assumes any_trace: "Q b \<Longrightarrow> Q (fst (cacheSet E nd (EncodeToString tid) (gob_Encode E st) b))"
    and any_metric: "Q b \<Longrightarrow> fresh nd b \<Longrightarrow> Q (fst (storeMetric E nd msig b))"
    and any_timeLogs: "Q b \<Longrightarrow> fresh nd b \<Longrightarrow> Q (storeTimeLogs E nd l b)"
    and any_delete: "Q b \<Longrightarrow> Q (cacheDelete E nd k b)"
    and any_clean: "Q b \<Longrightarrow> Q (cacheClean E nd b)"
    and any_recv: "Q b \<Longrightarrow> recv (b_evictedChan b) = Some (sig, ch) \<Longrightarrow> Q (b\<lparr>b_evictedChan := ch\<rparr>)"

sublocale buffer_stable \<subseteq> buffer_batches E Q
  by unfold_locales
     (simp_all add: storeTrace_def traceEntry_def storeTraceLogs_def logsEntry_def Let_def any_trace any_metric
       any_timeLogs any_delete any_clean any_recv)

interpretation index: buffer_stable E "\<lambda>b. cache_ok E \<and> btree_ok E \<and> buf_inv E b" for E
proof unfold_locales
  fix b nd tid st msig l k sig ch
  assume Q: "cache_ok E \<and> btree_ok E \<and> buf_inv E b"
  then have ok: "cache_ok E" "btree_ok E" "buf_inv E b" by blast+
  show "cache_ok E \<and> btree_ok E \<and> buf_inv E (fst (cacheSet E nd (EncodeToString tid) (gob_Encode E st) b))"
    by (simp add: ok cacheSet_hex_inv)
  show "fresh nd b \<Longrightarrow> cache_ok E \<and> btree_ok E \<and> buf_inv E (fst (storeMetric E nd msig b))"
    by (simp add: ok storeMetric_inv)
  show "fresh nd b \<Longrightarrow> cache_ok E \<and> btree_ok E \<and> buf_inv E (storeTimeLogs E nd l b)"
    by (simp add: ok storeTimeLogs_inv)
  show "cache_ok E \<and> btree_ok E \<and> buf_inv E (cacheDelete E nd k b)"
    by (simp add: ok cacheDelete_inv)
  show "cache_ok E \<and> btree_ok E \<and> buf_inv E (cacheClean E nd b)"
    by (simp add: ok cacheClean_inv)
  show "recv (b_evictedChan b) = Some (sig, ch) \<Longrightarrow>
      cache_ok E \<and> btree_ok E \<and> buf_inv E (b\<lparr>b_evictedChan := ch\<rparr>)"
    by (simp add: ok recv_inv)
qed

subsection \<open>The kinds of the cache entries\<close>

text \<open>What the bytes under a key are is told by the prefix of the key.\<close>

definition entry_typed :: "('c, 't) bufenv \<Rightarrow> string \<Rightarrow> bytes \<Rightarrow> bool" where
  "entry_typed E k data \<longleftrightarrow>
     (if isMetricKey k then snd (be_UnmarshalMetrics E data) = None
      else if isLogKey k then snd (be_UnmarshalLogs E data) = None
      else (\<exists>tid. k = EncodeToString tid) \<and> snd (gob_Decode E data) = None)"

definition well_typed :: "('c, 't) bufenv \<Rightarrow> ('c, 't) InMemoryBuffer \<Rightarrow> bool" where
  "well_typed E b \<longleftrightarrow> (\<forall>k data. cache_Get E (b_cache b) k = Some data \<longrightarrow> entry_typed E k data)"

lemma typed_shrinks: "well_typed E b \<Longrightarrow> shrinks E (b_cache b) (b_cache b') \<Longrightarrow> well_typed E b'"
  unfolding well_typed_def shrinks_def by (metis option.distinct(1))

lemma typed_cacheSet:
  assumes "cache_ok E" and "well_typed E b" and "entry_typed E k v"
  shows "well_typed E (fst (cacheSet E nd k v b))"
proof -
  obtain c evs err where set: "cache_Set E (b_cache b) k v = (c, evs, err)" by (metis prod_cases3)
  note laws = cache_set_okD [OF assms(1) set]
  have "entry_typed E k' data" if "cache_Get E c k' = Some data" for k' data
    using that laws(1,2) laws(3) [of k'] assms(2,3) unfolding well_typed_def
    by (cases "k' = k"; cases err) auto
  then show ?thesis by (simp add: well_typed_def cacheSet_def set)
qed

lemma cacheClean_shrinks:
  assumes "cache_ok E"
  shows "shrinks E (b_cache b) (b_cache (cacheClean E nd b))"
proof -
  obtain c evs where cl: "cache_Clean E (b_cache b) = (c, evs)" by fastforce
  note laws = cache_clean_okD [OF assms cl]
  have "cache_Get E c k = cache_Get E (b_cache b) k \<or> cache_Get E c k = None" for k
    using laws(1) [of k] laws(2) [of k] by (cases "k \<in> fst ` set evs") auto
  then show ?thesis by (simp add: shrinks_def cacheClean_def cl)
qed

lemma typed_storeMetric:
  assumes "cache_ok E" and "codec_ok E" and "well_typed E b"
  shows "well_typed E (fst (storeMetric E nd sig b))"
proof -
  obtain data err where m: "be_MarshalMetrics E (ms_Metrics sig) = (data, err)" by fastforce
  show ?thesis
  proof (cases err)
    case None
    with m have "entry_typed E (metricKey nd) data"
      using codec_okD(5) [OF assms(2)] by (simp add: entry_typed_def own_keys)
    from typed_cacheSet [OF assms(1,3) this, of nd] m None show ?thesis
      by (auto simp: storeMetric_def Let_def well_typed_def split: option.splits prod.splits)
  qed (simp add: storeMetric_def m assms(3))
qed

lemma typed_storeTimeLogs:
  assumes "cache_ok E" and "codec_ok E" and "well_typed E b"
  shows "well_typed E (storeTimeLogs E nd l b)"
proof -
  obtain data err where m: "be_MarshalLogs E l = (data, err)" by fastforce
  show ?thesis
  proof (cases err)
    case None
    have "\<not> isMetricKey (timeLogKey nd)" using own_keys(2) not_both_keys by blast
    with m None have "entry_typed E (timeLogKey nd) data"
      using codec_okD(3) [OF assms(2)] by (simp add: entry_typed_def own_keys)
    from typed_cacheSet [OF assms(1,3) this, of nd] m None show ?thesis
      by (auto simp: storeTimeLogs_def Let_def well_typed_def split: option.splits prod.splits)
  qed (simp add: storeTimeLogs_def m assms(3))
qed

interpretation typed: buffer_stable E "\<lambda>b. cache_ok E \<and> codec_ok E \<and> well_typed E b" for E
proof unfold_locales
  fix b nd tid st msig l k sig ch
  assume Q: "cache_ok E \<and> codec_ok E \<and> well_typed E b"
  then have ok: "cache_ok E" "codec_ok E" "well_typed E b" by blast+
  have "entry_typed E (EncodeToString tid) (gob_Encode E st)"
    using codec_okD(6) [OF ok(2)] hex_not_indexed by (auto simp: entry_typed_def)
  then show "cache_ok E \<and> codec_ok E \<and> well_typed E (fst (cacheSet E nd (EncodeToString tid) (gob_Encode E st) b))"
    by (simp add: ok typed_cacheSet)
  show "fresh nd b \<Longrightarrow> cache_ok E \<and> codec_ok E \<and> well_typed E (fst (storeMetric E nd msig b))"
    by (simp add: ok typed_storeMetric)
  show "fresh nd b \<Longrightarrow> cache_ok E \<and> codec_ok E \<and> well_typed E (storeTimeLogs E nd l b)"
    by (simp add: ok typed_storeTimeLogs)
  show "cache_ok E \<and> codec_ok E \<and> well_typed E (cacheDelete E nd k b)"
    using typed_shrinks [OF ok(3) cacheDelete_cache(1) [OF ok(1)]] by (simp add: ok)
  show "cache_ok E \<and> codec_ok E \<and> well_typed E (cacheClean E nd b)"
    using typed_shrinks [OF ok(3) cacheClean_shrinks [OF ok(1)]] by (simp add: ok)
  show "cache_ok E \<and> codec_ok E \<and> well_typed E (b\<lparr>b_evictedChan := ch\<rparr>)"
    using ok by (simp add: well_typed_def)
qed

text \<open>
  C13: In every reachable buffer the prefix of a key tells what its entry is: an entry under an
  \<open>m_\<close> key unmarshals as metrics, one under an \<open>l_\<close> key as logs, and every other key is the hex
  form of a trace ID whose entry decodes as a \<open>StoredTraceData\<close>.  So a metric that expires is
  always turned into a signal again, and no read of a trace fails to decode.
\<close>

theorem cache_well_typed:
  assumes "cache_ok E" and "codec_ok E" and "\<forall>k. cache_Get E c k = None"
    and "buf_reachable E c t b" and "cache_Get E (b_cache b) k = Some data"
  shows "(isMetricKey k \<longrightarrow> (\<exists>m. evictedSignal E now k data =
        Some (SigMetric \<lparr>ms_Metrics = m, ms_Ctx = ctxAt now\<rparr>))) \<and>
    (isLogKey k \<longrightarrow> (\<exists>l. evictedSignal E now k data =
        Some (SigLog \<lparr>ls_Logs = l, ls_Ctx = ctxAt now\<rparr>))) \<and>
    (\<not> isMetricKey k \<and> \<not> isLogKey k \<longrightarrow>
        (\<exists>tid st. k = EncodeToString tid \<and> gob_Decode E data = (st, None)))"
proof -
  have "well_typed E (buffer_New c t)" using assms(3) by (simp add: well_typed_def buffer_New_def)
  with typed.Q_reachable [OF assms(4)] assms(1,2) have "well_typed E b" by blast
  with assms(5) have typed: "entry_typed E k data" by (simp add: well_typed_def)
  show ?thesis
  proof (intro conjI impI)
    show "\<exists>m. evictedSignal E now k data = Some (SigMetric \<lparr>ms_Metrics = m, ms_Ctx = ctxAt now\<rparr>)"
      if "isMetricKey k"
      using that typed by (cases "be_UnmarshalMetrics E data") (simp add: evictedSignal_def entry_typed_def)
    show "\<exists>l. evictedSignal E now k data = Some (SigLog \<lparr>ls_Logs = l, ls_Ctx = ctxAt now\<rparr>)"
      if "isLogKey k"
      using that typed not_both_keys [of k]
      by (cases "be_UnmarshalLogs E data") (auto simp: evictedSignal_def entry_typed_def)
    show "\<exists>tid st. k = EncodeToString tid \<and> gob_Decode E data = (st, None)"
      if "\<not> isMetricKey k \<and> \<not> isLogKey k"
      using that typed by (cases "gob_Decode E data") (auto simp: entry_typed_def)
  qed
qed

theorem cache_well_typed_witness:
  "\<exists>m. evictedSignal metric_env 9 ''m_5_u'' (the (cache_Get metric_env (b_cache metric_buffer) ''m_5_u'')) =
     Some (SigMetric \<lparr>ms_Metrics = m, ms_Ctx = ctxAt 9\<rparr>)"
proof -
  have none: "\<forall>k. cache_Get metric_env [] k = None" by (simp add: metric_env_def buf_example_def)
  have key: "isMetricKey ''m_5_u''" by code_simp
  have "cache_Get metric_env (b_cache metric_buffer) ''m_5_u'' \<noteq> None" by code_simp
  then obtain data where data: "cache_Get metric_env (b_cache metric_buffer) ''m_5_u'' = Some data" by blast
  from cache_well_typed [OF metric_env_laws(1,3) none metric_buffer_reachable data, of 9] key
  show ?thesis by (simp add: data)
qed

subsection \<open>The two halves of storing a metric\<close>

text \<open>
  \<open>storeMetric\<close> up to the write into the cache, with the key the second half goes on with when
  the write succeeded; and the second half, under the mutex.
\<close>

definition storeMetricSet :: "('c, 't) bufenv \<Rightarrow> nondet \<Rightarrow> MetricSignal \<Rightarrow>
    ('c, 't) InMemoryBuffer \<Rightarrow> ('c, 't) InMemoryBuffer \<times> (error option + TimeKey)" where
  "storeMetricSet E nd sig b =
     (case be_MarshalMetrics E (ms_Metrics sig) of
        (data, Some err) \<Rightarrow> (b, Inl (Some err))
      | (data, None) \<Rightarrow>
          (case cacheSet E nd (metricKey nd) data b of
             (b1, Some err) \<Rightarrow> (b1, Inl None)
           | (b1, None) \<Rightarrow> (b1, Inr (TimeKey (UnixNano (nd_now nd)) (metricKey nd)))))"

definition storeMetricIndex :: "('c, 't) bufenv \<Rightarrow> TimeKey \<Rightarrow>
    ('c, 't) InMemoryBuffer \<Rightarrow> ('c, 't) InMemoryBuffer" where
  "storeMetricIndex E tk b =
     b\<lparr>b_metricKeyMap := AList.update (tk_Key tk) (tk_Timestamp tk) (b_metricKeyMap b),
       b_metricTimeIndex := bt_ReplaceOrInsert E (b_metricTimeIndex b) tk\<rparr>"

lemma storeMetric_halves:
  "storeMetric E nd sig b =
     (case storeMetricSet E nd sig b of
        (b1, Inl err) \<Rightarrow> (b1, err)
      | (b1, Inr tk) \<Rightarrow> (storeMetricIndex E tk b1, None))"
  by (simp add: storeMetric_def storeMetricSet_def storeMetricIndex_def Let_def
      split: prod.split option.split)

text \<open>Both trees are trees of the library.\<close>

definition trees_valid :: "('c, 't) bufenv \<Rightarrow> ('c, 't) InMemoryBuffer \<Rightarrow> bool" where
  "trees_valid E b \<longleftrightarrow> bt_valid E (b_metricTimeIndex b) \<and> bt_valid E (b_logTimeIndex b)"

lemma trees_withCallbacks:
  assumes "btree_ok E" and "trees_valid E b"
  shows "trees_valid E (withCallbacks E nd c evs b)"
proof -
  have "trees_valid E (onCacheEvictionWithReason E nd ev b')" if "trees_valid E b'" for ev b'
    using that btree_okD(4) [OF assms(1)]
    by (cases ev)
       (auto simp: trees_valid_def onCacheEvictionWithReason.simps cleanupIndex_def Let_def split: option.split)
  moreover have "trees_valid E (b\<lparr>b_cache := c\<rparr>)" using assms(2) by (simp add: trees_valid_def)
  ultimately show ?thesis
    unfolding withCallbacks_def by (rule fold_inv [where Q = "trees_valid E", rotated])
qed

lemma trees_cacheSet: "btree_ok E \<Longrightarrow> trees_valid E b \<Longrightarrow> trees_valid E (fst (cacheSet E nd k v b))"
  by (simp add: cacheSet_def trees_withCallbacks split: prod.split)

interpretation trees: buffer_stable E "\<lambda>b. btree_ok E \<and> trees_valid E b" for E
proof unfold_locales
  fix b nd tid st msig l k sig ch
  assume Q: "btree_ok E \<and> trees_valid E b"
  then have ok: "btree_ok E" "trees_valid E b" by blast+
  have ins: "trees_valid E b' \<Longrightarrow> trees_valid E (b'\<lparr>b_metricKeyMap := m,
        b_metricTimeIndex := bt_ReplaceOrInsert E (b_metricTimeIndex b') x\<rparr>)"
      "trees_valid E b' \<Longrightarrow> trees_valid E (b'\<lparr>b_logKeyMap := m,
        b_logTimeIndex := bt_ReplaceOrInsert E (b_logTimeIndex b') x\<rparr>)" for b' m x
    using btree_okD(2) [OF ok(1)] by (simp_all add: trees_valid_def)
  have set: "cacheSet E nd k' v b = (b1, r) \<Longrightarrow> trees_valid E b1" for k' v b1 r
    using trees_cacheSet [OF ok, of nd k' v] by simp
  show "btree_ok E \<and> trees_valid E (fst (cacheSet E nd (EncodeToString tid) (gob_Encode E st) b))"
    by (simp add: ok trees_cacheSet)
  show "btree_ok E \<and> trees_valid E (fst (storeMetric E nd msig b))"
    using ok by (auto simp: storeMetric_def Let_def split: prod.split option.split dest!: set intro: ins)
  show "btree_ok E \<and> trees_valid E (storeTimeLogs E nd l b)"
    using ok by (auto simp: storeTimeLogs_def Let_def split: prod.split option.split dest!: set intro: ins)
  show "btree_ok E \<and> trees_valid E (cacheDelete E nd k b)" "btree_ok E \<and> trees_valid E (cacheClean E nd b)"
    by (simp_all add: ok cacheDelete_def cacheClean_def trees_withCallbacks split: prod.split)
  show "btree_ok E \<and> trees_valid E (b\<lparr>b_evictedChan := ch\<rparr>)"
    using ok by (simp add: trees_valid_def)
qed

text \<open>The index has an entry for a metric that is not in the cache.\<close>

definition stale :: "('c, 't) bufenv \<Rightarrow> TimeKey \<Rightarrow> ('c, 't) InMemoryBuffer \<Rightarrow> bool" where
  "stale E tk b \<longleftrightarrow> isMetricKey (tk_Key tk) \<and> cache_Get E (b_cache b) (tk_Key tk) = None \<and>
     map_of (b_metricKeyMap b) (tk_Key tk) = Some (tk_Timestamp tk) \<and>
     trees_valid E b \<and> tk \<in> set (bt_items E (b_metricTimeIndex b))"

text \<open>A callback about another key keeps the entry.\<close>

lemma stale_callback:
  assumes "btree_ok E" and "stale E tk b" and "fst ev \<noteq> tk_Key tk"
  shows "stale E tk (onCacheEvictionWithReason E nd ev b)"
proof -
  obtain key entry reason where ev: "ev = (key, entry, reason)" by (cases ev)
  have clean: "stale E tk (cleanupIndex E key b)"
    using assms(2,3) btree_okD [OF assms(1)]
    by (cases tk) (auto simp: ev stale_def trees_valid_def cleanupIndex_def delete_conv' split: option.split)
  then show ?thesis
    by (auto simp: ev onCacheEvictionWithReason.simps Let_def stale_def trees_valid_def split: option.split)
qed

lemma stale_withCallbacks:
  assumes "btree_ok E" and "stale E tk b" and "cache_Get E c (tk_Key tk) = None"
    and "tk_Key tk \<notin> fst ` set evs"
  shows "stale E tk (withCallbacks E nd c evs b)"
proof -
  have "stale E tk (b\<lparr>b_cache := c\<rparr>)" using assms(2,3) by (simp add: stale_def trees_valid_def)
  moreover have "stale E tk (onCacheEvictionWithReason E nd ev b')"
    if "ev \<in> set evs" "stale E tk b'" for ev b'
  proof -
    have "fst ev \<noteq> tk_Key tk" using that(1) assms(4) by (metis imageI)
    then show ?thesis by (rule stale_callback [OF assms(1) that(2)])
  qed
  ultimately show ?thesis unfolding withCallbacks_def by (rule fold_inv [where Q = "stale E tk"])
qed

lemma stale_cacheSet:
  assumes "cache_ok E" and "btree_ok E" and "stale E tk b" and "k \<noteq> tk_Key tk"
  shows "stale E tk (fst (cacheSet E nd k v b))"
proof -
  obtain c evs err where set: "cache_Set E (b_cache b) k v = (c, evs, err)" by (metis prod_cases3)
  note laws = cache_set_okD [OF assms(1) set]
  have none: "cache_Get E (b_cache b) (tk_Key tk) = None" using assms(3) by (simp add: stale_def)
  have "tk_Key tk \<notin> fst ` set evs" using laws(5) none by fastforce
  moreover have "cache_Get E c (tk_Key tk) = None" using laws(3) [of "tk_Key tk"] assms(4) none by auto
  ultimately show ?thesis by (simp add: cacheSet_def set stale_withCallbacks [OF assms(2,3)])
qed

lemma stale_insert:
  assumes "btree_ok E" and "stale E tk b" and "k \<noteq> tk_Key tk"
  shows "stale E tk (b\<lparr>b_metricKeyMap := AList.update k ts (b_metricKeyMap b),
      b_metricTimeIndex := bt_ReplaceOrInsert E (b_metricTimeIndex b) (TimeKey ts k)\<rparr>)"
    and "stale E tk (b\<lparr>b_logKeyMap := m,
      b_logTimeIndex := bt_ReplaceOrInsert E (b_logTimeIndex b) (TimeKey ts k)\<rparr>)"
  using assms(2,3) btree_okD [OF assms(1)]
  by (auto simp: stale_def trees_valid_def update_conv')

lemma stale_storeMetric:
  assumes "cache_ok E" and "btree_ok E" and "stale E tk b" and "fresh nd b"
  shows "stale E tk (fst (storeMetric E nd sig b))"
proof -
  have "tk_Key tk \<in> fst ` set (b_metricKeyMap b)"
    using assms(3) by (force simp: stale_def dest: map_of_SomeD)
  with assms(4) have "metricKey nd \<noteq> tk_Key tk" by (metis fresh_def)
  note set = stale_cacheSet [OF assms(1-3) this, of nd] and ins = stale_insert(1) [OF assms(2) _ this]
  show ?thesis
  proof (cases "be_MarshalMetrics E (ms_Metrics sig)")
    case (Pair data err)
    obtain b1 r where b1: "cacheSet E nd (metricKey nd) data b = (b1, r)" by fastforce
    with set [of data] have "stale E tk b1" by simp
    with ins [of b1] assms(3) show ?thesis
      by (simp add: storeMetric_def Pair b1 Let_def split: option.split)
  qed
qed

lemma stale_storeTimeLogs:
  assumes "cache_ok E" and "btree_ok E" and "stale E tk b"
  shows "stale E tk (storeTimeLogs E nd l b)"
proof -
  have "timeLogKey nd \<noteq> tk_Key tk"
    using assms(3) own_keys(2) [of nd] not_both_keys [of "tk_Key tk"] by (auto simp: stale_def)
  note set = stale_cacheSet [OF assms this, of nd] and ins = stale_insert(2) [OF assms(2) _ this]
  show ?thesis
  proof (cases "be_MarshalLogs E l")
    case (Pair data err)
    obtain b1 r where b1: "cacheSet E nd (timeLogKey nd) data b = (b1, r)" by fastforce
    with set [of data] have "stale E tk b1" by simp
    with ins [of b1] assms(3) show ?thesis
      by (simp add: storeTimeLogs_def Pair b1 Let_def split: option.split)
  qed
qed

interpretation leak: buffer_stable E "\<lambda>b. cache_ok E \<and> btree_ok E \<and> stale E tk b" for E tk
proof unfold_locales
  fix b nd tid st msig l k sig ch
  assume Q: "cache_ok E \<and> btree_ok E \<and> stale E tk b"
  then have ok: "cache_ok E" "btree_ok E" "stale E tk b" by blast+
  then have key: "isMetricKey (tk_Key tk)" and none: "cache_Get E (b_cache b) (tk_Key tk) = None"
    by (simp_all add: stale_def)
  then have "EncodeToString tid \<noteq> tk_Key tk" using hex_not_indexed(1) [of tid] by auto
  then show "cache_ok E \<and> btree_ok E \<and> stale E tk (fst (cacheSet E nd (EncodeToString tid) (gob_Encode E st) b))"
    by (simp add: ok stale_cacheSet)
  show "fresh nd b \<Longrightarrow> cache_ok E \<and> btree_ok E \<and> stale E tk (fst (storeMetric E nd msig b))"
    by (simp add: ok stale_storeMetric)
  show "cache_ok E \<and> btree_ok E \<and> stale E tk (storeTimeLogs E nd l b)"
    by (simp add: ok stale_storeTimeLogs)
  show "cache_ok E \<and> btree_ok E \<and> stale E tk (cacheDelete E nd k b)"
  proof -
    obtain c evs err where del: "cache_Delete E (b_cache b) k = (c, evs, err)" by (metis prod_cases3)
    note laws = cache_delete_okD [OF ok(1) del]
    have "tk_Key tk \<notin> fst ` set evs" using laws(2) none by fastforce
    with laws(1) [of "tk_Key tk"] none show ?thesis
      by (simp add: ok cacheDelete_def del stale_withCallbacks)
  qed
  show "cache_ok E \<and> btree_ok E \<and> stale E tk (cacheClean E nd b)"
  proof -
    obtain c evs where cl: "cache_Clean E (b_cache b) = (c, evs)" by fastforce
    note laws = cache_clean_okD [OF ok(1) cl]
    have "tk_Key tk \<notin> fst ` set evs" using laws(2) none by fastforce
    with laws(1) [of "tk_Key tk"] none show ?thesis
      by (simp add: ok cacheClean_def cl stale_withCallbacks)
  qed
  show "cache_ok E \<and> btree_ok E \<and> stale E tk (b\<lparr>b_evictedChan := ch\<rparr>)"
    using ok by (simp add: stale_def trees_valid_def)
qed

text \<open>
  C33: \<open>storeMetric\<close> writes the cache first and indexes the metric afterwards.  When the metric is
  evicted in between, the callback finds nothing to clean up; the index entry made afterwards is
  for a metric that is gone, and no later operation of the buffer, no removal and no clearing of
  the metrics, ever takes it out of the tree and the key map again.
\<close>

theorem metric_index_leak:
  assumes "cache_ok E" and "btree_ok E" and "storeMetricSet E nd sig b = (b1, Inr tk)"
    and "trees_valid E b" and "(buf_step E)\<^sup>*\<^sup>* b1 b2" and "cache_Get E (b_cache b2) (tk_Key tk) = None"
    and "(buf_step E)\<^sup>*\<^sup>* (storeMetricIndex E tk b2) b3"
  shows "cache_Get E (b_cache b3) (tk_Key tk) = None \<and>
    map_of (b_metricKeyMap b3) (tk_Key tk) = Some (tk_Timestamp tk) \<and>
    tk \<in> set (bt_items E (b_metricTimeIndex b3))"
proof -
  have "tk = TimeKey (UnixNano (nd_now nd)) (metricKey nd)"
    using assms(3) by (auto simp: storeMetricSet_def split: prod.splits option.splits)
  then have "isMetricKey (tk_Key tk)" by (simp add: own_keys)
  moreover have "\<exists>data. b1 = fst (cacheSet E nd (metricKey nd) data b)"
  proof (cases "be_MarshalMetrics E (ms_Metrics sig)")
    case (Pair data err)
    then have "cacheSet E nd (metricKey nd) data b = (b1, None)"
      using assms(3) by (auto simp: storeMetricSet_def split: prod.splits option.splits)
    then have "b1 = fst (cacheSet E nd (metricKey nd) data b)" by simp
    then show ?thesis ..
  qed
  then have "trees_valid E b1" using trees_cacheSet [OF assms(2,4)] by blast
  with trees.Q_steps [OF assms(5)] assms(2) have "trees_valid E b2" by blast
  ultimately have "stale E tk (storeMetricIndex E tk b2)"
    using assms(6) btree_okD [OF assms(2)]
    by (simp add: stale_def storeMetricIndex_def trees_valid_def update_conv')
  with leak.Q_steps [OF assms(7), of tk] assms(1,2) have "stale E tk b3" by blast
  then show ?thesis by (simp add: stale_def)
qed

theorem metric_index_leak_witness:
  "let b1 = fst (storeMetricSet metric_env (nd_example 5 ''u'')
              (msignal_example [metrics_example [] [metric_example ''cpu'' MetricEmpty]]) empty_buffer);
       b2 = cacheClean metric_env (nd_example 6 ''v'') b1;
       b3 = ClearMetrics metric_env (nd_example 7 ''w'') id (storeMetricIndex metric_env (TimeKey 5 ''m_5_u'') b2)
   in cache_Get metric_env (b_cache b1) ''m_5_u'' \<noteq> None \<and>
      map_of (b_metricKeyMap b3) ''m_5_u'' = Some 5 \<and>
      TimeKey 5 ''m_5_u'' \<in> set (bt_items metric_env (b_metricTimeIndex b3))"
proof -
  let ?nd = "nd_example 5 ''u''"
  let ?sig = "msignal_example [metrics_example [] [metric_example ''cpu'' MetricEmpty]]"
  let ?tk = "TimeKey 5 ''m_5_u''"
  define b1 where "b1 = fst (storeMetricSet metric_env ?nd ?sig empty_buffer)"
  define b2 where "b2 = cacheClean metric_env (nd_example 6 ''v'') b1"
  define b3 where "b3 = ClearMetrics metric_env (nd_example 7 ''w'') id (storeMetricIndex metric_env ?tk b2)"
  have "snd (storeMetricSet metric_env ?nd ?sig empty_buffer) = Inr ?tk" by code_simp
  then have set: "storeMetricSet metric_env ?nd ?sig empty_buffer = (b1, Inr ?tk)"
    by (metis b1_def prod.collapse)
  have "trees_valid metric_env empty_buffer" by code_simp
  moreover have "(buf_step metric_env)\<^sup>*\<^sup>* b1 b2"
    unfolding b2_def by (rule r_into_rtranclp) (rule step_Clean)
  moreover have "cache_Get metric_env (b_cache b2) (tk_Key ?tk) = None"
    unfolding b1_def b2_def by code_simp
  moreover have "(buf_step metric_env)\<^sup>*\<^sup>* (storeMetricIndex metric_env ?tk b2) b3"
    unfolding b3_def by (rule r_into_rtranclp) (rule step_ClearMetrics)
  ultimately have "map_of (b_metricKeyMap b3) ''m_5_u'' = Some 5 \<and>
      ?tk \<in> set (bt_items metric_env (b_metricTimeIndex b3))"
    using metric_index_leak [OF metric_env_laws(1,2) set] by auto
  moreover have "cache_Get metric_env (b_cache b1) ''m_5_u'' \<noteq> None"
    unfolding b1_def by code_simp
  ultimately show ?thesis by (simp add: Let_def b1_def b2_def b3_def)
qed

end
