(* ===== verification/Isolation.thy ===== *)
theory Isolation
  imports BufferRaces Cluster
begin

text \<open>
  What is exported as a trace is one trace, and it was asked for: the entry of a trace in the
  buffer never holds spans or records of another one, whatever is stored, removed and evicted;
  hence every trace request a node sends consists of spans of a single trace, of which some node
  of the cluster has received a batch that matches one of its policies.
\<close>

subsection \<open>The entries of the traces\<close>

text \<open>Marshalling that fails returns no bytes, as Protobuf does; the buffer ignores its error.\<close>

definition marshal_clean :: "('c, 't) bufenv \<Rightarrow> bool" where
  "marshal_clean E \<longleftrightarrow> (\<forall>t d e. be_MarshalTraces E t = (d, Some e) \<longrightarrow> d = []) \<and>
     (\<forall>l d e. be_MarshalLogs E l = (d, Some e) \<longrightarrow> d = [])"

lemma marshal_cleanD:
  assumes "marshal_clean E"
  shows "be_MarshalTraces E t = (d, Some e) \<Longrightarrow> d = []"
    and "be_MarshalLogs E l = (d, Some e) \<Longrightarrow> d = []"
  using assms unfolding marshal_clean_def by blast+

text \<open>The stored data of a trace: all spans and records in it carry its ID.\<close>

definition own_data :: "('c, 't) bufenv \<Rightarrow> TraceID \<Rightarrow> StoredTraceData \<Rightarrow> bool" where
  "own_data E tid st \<longleftrightarrow>
     (st_TracesData st \<noteq> [] \<longrightarrow>
       (\<forall>s \<in> set (spans_of (fst (be_UnmarshalTraces E (st_TracesData st)))). span_traceID s = tid)) \<and>
     (st_LogsData st \<noteq> [] \<longrightarrow>
       (\<forall>r \<in> set (records_of (fst (be_UnmarshalLogs E (st_LogsData st)))). lr_traceID r = tid))"

definition isolated :: "('c, 't) bufenv \<Rightarrow> ('c, 't) InMemoryBuffer \<Rightarrow> bool" where
  "isolated E b \<longleftrightarrow> (\<forall>tid data. cache_Get E (b_cache b) (EncodeToString tid) = Some data \<longrightarrow>
     own_data E tid (fst (gob_Decode E data)))"

lemma isolated_indices [simp]:
  "isolated E (b\<lparr>b_metricKeyMap := m, b_metricTimeIndex := t\<rparr>) = isolated E b"
  "isolated E (b\<lparr>b_logKeyMap := m, b_logTimeIndex := t\<rparr>) = isolated E b"
  "isolated E (b\<lparr>b_evictedChan := ch\<rparr>) = isolated E b"
  by (simp_all add: isolated_def)

lemma isolated_shrinks: "isolated E b \<Longrightarrow> shrinks E (b_cache b) (b_cache b') \<Longrightarrow> isolated E b'"
  unfolding isolated_def shrinks_def by (metis option.distinct(1))

lemma isolated_cacheSet:
  assumes "cache_ok E" and "isolated E b"
    and "\<And>tid. k = EncodeToString tid \<Longrightarrow> own_data E tid (fst (gob_Decode E v))"
  shows "isolated E (fst (cacheSet E nd k v b))"
proof -
  obtain c evs err where set: "cache_Set E (b_cache b) k v = (c, evs, err)" by (metis prod_cases3)
  note laws = cache_set_okD [OF assms(1) set]
  have "own_data E tid (fst (gob_Decode E data))" if "cache_Get E c (EncodeToString tid) = Some data" for tid data
    using that laws(1,2) laws(3) [of "EncodeToString tid"] assms(2,3) unfolding isolated_def
    by (cases "k = EncodeToString tid"; cases err) auto
  then show ?thesis by (simp add: isolated_def cacheSet_def set)
qed

lemma isolated_loadStored: "isolated E b \<Longrightarrow> own_data E tid (loadStored E nd (EncodeToString tid) b)"
  by (auto simp: isolated_def loadStored_def own_data_def split: option.split)

lemma own_traceEntry:
  assumes "codec_ok E" and "marshal_clean E" and "own_data E tid st"
    and "\<forall>s \<in> set (spans_of new). span_traceID s = tid"
  shows "own_data E tid (fst (gob_Decode E (traceEntry E st new)))"
proof -
  obtain d err where m: "be_MarshalTraces E (mergedTraces E st new) = (d, err)" by fastforce
  have "\<forall>s \<in> set (spans_of (mergedTraces E st new)). span_traceID s = tid"
    using assms(3,4) by (auto simp: mergedTraces_def own_data_def)
  then have "d \<noteq> [] \<longrightarrow> (\<forall>s \<in> set (spans_of (fst (be_UnmarshalTraces E d))). span_traceID s = tid)"
    using m codec_okD(1) [OF assms(1), of "mergedTraces E st new" d] marshal_cleanD(1) [OF assms(2)]
    by (cases err) auto
  then show ?thesis
    using assms(3) by (simp add: traceEntry_def Let_def m codec_okD(6) [OF assms(1)] own_data_def)
qed

lemma own_logsEntry:
  assumes "codec_ok E" and "marshal_clean E" and "own_data E tid st"
    and "\<forall>r \<in> set (records_of new). lr_traceID r = tid"
  shows "own_data E tid (fst (gob_Decode E (logsEntry E st new)))"
proof -
  obtain d err where m: "be_MarshalLogs E (mergedLogs E st new) = (d, err)" by fastforce
  have "\<forall>r \<in> set (records_of (mergedLogs E st new)). lr_traceID r = tid"
    using assms(3,4) by (auto simp: mergedLogs_def own_data_def)
  then have "d \<noteq> [] \<longrightarrow> (\<forall>r \<in> set (records_of (fst (be_UnmarshalLogs E d))). lr_traceID r = tid)"
    using m codec_okD(3) [OF assms(1), of "mergedLogs E st new" d] marshal_cleanD(2) [OF assms(2)]
    by (cases err) auto
  then show ?thesis
    using assms(3) by (simp add: logsEntry_def Let_def m codec_okD(6) [OF assms(1)] own_data_def)
qed

lemma isolated_indexed:
  assumes "cache_ok E" and "isolated E b"
  shows "isolated E (fst (storeMetric E nd sig b))" and "isolated E (storeTimeLogs E nd l b)"
proof -
  have set: "isolated E (fst (cacheSet E nd k v b))" if "isMetricKey k \<or> isLogKey k" for k v
    using that hex_not_indexed by (intro isolated_cacheSet [OF assms]) auto
  have keys: "isolated E b1" if "cacheSet E nd (metricKey nd) v b = (b1, r) \<or> cacheSet E nd (timeLogKey nd) v b = (b1, r)"
    for v b1 r using that set [of _ v] own_keys by (metis fst_conv)
  show "isolated E (fst (storeMetric E nd sig b))"
    using assms(2) keys
    by (auto simp: storeMetric_def Let_def split: prod.split option.split)
  show "isolated E (storeTimeLogs E nd l b)"
    using assms(2) keys
    by (auto simp: storeTimeLogs_def Let_def split: prod.split option.split)
qed

interpretation own: buffer_batches E "\<lambda>b. cache_ok E \<and> codec_ok E \<and> marshal_clean E \<and> isolated E b" for E
proof unfold_locales
  fix b nd tid spans records msig l k sig ch
  assume Q: "cache_ok E \<and> codec_ok E \<and> marshal_clean E \<and> isolated E b"
  then have ok: "cache_ok E" "codec_ok E" "marshal_clean E" "isolated E b" by blast+
  note stored = isolated_loadStored [OF ok(4), of tid nd]
  show "cache_ok E \<and> codec_ok E \<and> marshal_clean E \<and> isolated E (fst (storeTrace E nd tid spans b))"
    if "\<forall>s \<in> set (spans_of spans). span_traceID s = tid"
    using own_traceEntry [OF ok(2,3) stored that]
    by (auto simp: ok storeTrace_def Let_def intro!: isolated_cacheSet)
  show "cache_ok E \<and> codec_ok E \<and> marshal_clean E \<and> isolated E (fst (storeTraceLogs E nd tid records b))"
    if "\<forall>r \<in> set (records_of records). lr_traceID r = tid"
    using own_logsEntry [OF ok(2,3) stored that]
    by (auto simp: ok storeTraceLogs_def Let_def intro!: isolated_cacheSet)
  show "cache_ok E \<and> codec_ok E \<and> marshal_clean E \<and> isolated E (fst (storeMetric E nd msig b))"
    "cache_ok E \<and> codec_ok E \<and> marshal_clean E \<and> isolated E (storeTimeLogs E nd l b)"
    by (simp_all add: ok isolated_indexed)
  show "cache_ok E \<and> codec_ok E \<and> marshal_clean E \<and> isolated E (cacheDelete E nd k b)"
    using isolated_shrinks [OF ok(4) cacheDelete_cache(1) [OF ok(1)]] by (simp add: ok)
  show "cache_ok E \<and> codec_ok E \<and> marshal_clean E \<and> isolated E (cacheClean E nd b)"
    using isolated_shrinks [OF ok(4) cacheClean_shrinks [OF ok(1)]] by (simp add: ok)
  show "cache_ok E \<and> codec_ok E \<and> marshal_clean E \<and> isolated E (b\<lparr>b_evictedChan := ch\<rparr>)"
    by (simp add: ok)
qed

lemma isolated_GetTrace:
  "isolated E b \<Longrightarrow> GetTrace E b tid = Some ts \<Longrightarrow> s \<in> set (spans_of (ts_Traces ts)) \<Longrightarrow> span_traceID s = tid"
  by (fastforce simp: isolated_def GetTrace_def own_data_def split: option.splits prod.splits if_splits)

lemma isolated_GetTraceLogs:
  "isolated E b \<Longrightarrow> GetTraceLogs E b tid = Some l \<Longrightarrow> r \<in> set (records_of (ls_Logs l)) \<Longrightarrow> lr_traceID r = tid"
  by (fastforce simp: isolated_def GetTraceLogs_def own_data_def split: option.splits prod.splits if_splits)

lemma reachable_isolated:
  assumes "cache_ok E" and "codec_ok E" and "marshal_clean E" and "\<forall>k. cache_Get E c k = None"
    and "buf_reachable E c t b"
  shows "isolated E b"
  using own.Q_reachable [OF assms(5)] assms(1-4) by (simp add: isolated_def buffer_New_def)

text \<open>
  C6: Traces are never mixed up in the buffer.  In every reachable buffer, whatever batches with
  spans and records of many traces have been stored in whatever order, and whatever the cache has
  evicted, refused or lost to a hash collision, reading a trace returns only spans that carry its
  ID, and reading its logs only records that carry it.
\<close>

theorem traces_stay_apart:
  assumes "cache_ok E" and "codec_ok E" and "marshal_clean E" and "\<forall>k. cache_Get E c k = None"
    and "buf_reachable E c t b"
  shows "(\<forall>ts s. GetTrace E b tid = Some ts \<longrightarrow> s \<in> set (spans_of (ts_Traces ts)) \<longrightarrow> span_traceID s = tid) \<and>
    (\<forall>l r. GetTraceLogs E b tid = Some l \<longrightarrow> r \<in> set (records_of (ls_Logs l)) \<longrightarrow> lr_traceID r = tid)"
  using isolated_GetTrace isolated_GetTraceLogs reachable_isolated [OF assms] by blast

text \<open>One batch with a span of each of two traces, stored into an empty buffer.\<close>

definition mixed_signal :: TraceSignal where
  "mixed_signal = trace_example [span_example tidB StatusCodeOk, span_example tidA StatusCodeOk]"

definition mixed_buffer :: exampleBuffer where
  "mixed_buffer = fst (Store trace_env (nd_example 5 ''u'') (SigTrace mixed_signal) empty_buffer)"

lemma trace_env_isolates: "cache_ok trace_env" "codec_ok trace_env" "marshal_clean trace_env"
  "\<forall>k. cache_Get trace_env [] k = None"
proof -
  show "marshal_clean trace_env"
    by (auto simp: marshal_clean_def trace_env_def buf_example_def tableMarshal_def split: option.splits if_splits)
qed (simp_all add: trace_env_def buf_example_laws, simp add: buf_example_def)

lemma mixed_buffer_reachable: "buf_reachable trace_env [] [] mixed_buffer"
  unfolding mixed_buffer_def
  by (rule reach_step [OF reach_New step_Store]) (simp add: fresh_def buffer_New_def nd_example_range_ok)

lemma mixed_quiet: "quietTraces trace_env (nd_example 5 ''u'') mixed_signal empty_buffer"
proof -
  have "groupSpans (be_pd trace_env) (ts_Traces mixed_signal) =
      [(tidB, [wrapped tidB StatusCodeOk]), (tidA, [wrapped tidA StatusCodeOk])]" by code_simp
  moreover have "tidA \<noteq> tidB" by (simp add: tidA_def tidB_def)
  moreover have "quietTrace trace_env (nd_example 5 ''u'') tidB [wrapped tidB StatusCodeOk] empty_buffer"
    unfolding trace_env_quiet by code_simp
  moreover have "quietTrace trace_env (nd_example 5 ''u'') tidA [wrapped tidA StatusCodeOk]
        (fst (storeTrace trace_env (nd_example 5 ''u'') tidB [wrapped tidB StatusCodeOk] empty_buffer))"
    unfolding trace_env_quiet by code_simp
  ultimately show ?thesis by (simp add: quietTraces_def, simp add: nd_example_def)
qed

lemma mixed_buffer_holds:
  "spans_of (traceOf trace_env mixed_buffer tidA) = [span_example tidA StatusCodeOk]"
  "spans_of (traceOf trace_env mixed_buffer tidB) = [span_example tidB StatusCodeOk]"
proof -
  have ok: "store_ok trace_env empty_buffer" using empty_buffer_store_ok by (simp add: trace_env_def)
  have tids: "\<not> pd_IsEmpty (be_pd trace_env) tidA" "\<not> pd_IsEmpty (be_pd trace_env) tidB"
    by (simp_all add: trace_env_def buf_example_def)
  have "spans_of (traceOf trace_env empty_buffer tid) = []" for tid
    by (simp add: traceOf_def GetTrace_def buffer_New_def trace_env_isolates(4) spans_of_def)
  then show "spans_of (traceOf trace_env mixed_buffer tidA) = [span_example tidA StatusCodeOk]"
    "spans_of (traceOf trace_env mixed_buffer tidB) = [span_example tidB StatusCodeOk]"
    using storeTraces_views(1) [OF ok nd_example_range_ok mixed_quiet] tids
    by (simp_all add: mixed_buffer_def spans_itemsFor,
        simp_all add: mixed_signal_def trace_example_def traces_example_def spans_of_def span_example_def tidA_def tidB_def)
qed

theorem traces_stay_apart_witness:
  "spans_of (traceOf trace_env mixed_buffer tidA) = [span_example tidA StatusCodeOk] \<and>
   (\<exists>ts. GetTrace trace_env mixed_buffer tidB = Some ts \<and> spans_of (ts_Traces ts) \<noteq> [] \<and>
     (\<forall>s \<in> set (spans_of (ts_Traces ts)). span_traceID s = tidB))"
proof -
  have "spans_of [] = []" by (simp add: spans_of_def)
  then obtain ts where ts: "GetTrace trace_env mixed_buffer tidB = Some ts" "spans_of (ts_Traces ts) \<noteq> []"
    using mixed_buffer_holds(2)
    by (cases "GetTrace trace_env mixed_buffer tidB") (simp_all add: traceOf_def)
  moreover have "\<forall>s \<in> set (spans_of (ts_Traces ts)). span_traceID s = tidB"
    using traces_stay_apart [OF trace_env_isolates mixed_buffer_reachable, of tidB] ts(1) by blast
  ultimately show ?thesis using mixed_buffer_holds(1) by blast
qed

subsection \<open>What a node sends\<close>

text \<open>Whether or not a call succeeds, the backend accepts nothing but its request.\<close>

definition rpc_faithful :: "'x rpc \<Rightarrow> bool" where
  "rpc_faithful R \<longleftrightarrow> (\<forall>e x. set (rpc_sent R (fst (rpc_Export R e x))) \<subseteq> insert e (set (rpc_sent R x)))"

lemma rpc_faithfulD: "rpc_faithful R \<Longrightarrow> y \<in> set (rpc_sent R (fst (rpc_Export R e x))) \<Longrightarrow>
    y = e \<or> y \<in> set (rpc_sent R x)"
  unfolding rpc_faithful_def by blast

lemma otlp_sel:
  "ex_ExportTrace (otlpExporter R) t x = ExportTrace R t x"
  "ex_ExportMetrics (otlpExporter R) m x = ExportMetrics R m x"
  "ex_ExportLogs (otlpExporter R) l x = ExportLogs R l x"
  by (simp_all add: otlpExporter_def)

lemmas export_defs = ExportTrace_def ExportMetrics_def ExportLogs_def wrapError_def otlp_sel

text \<open>The trace requests in what has been sent.\<close>

abbreviation sentTraces :: "'x rpc \<Rightarrow> ('s, 'x) Processor \<Rightarrow> Traces set" where
  "sentTraces R p \<equiv> {out. OutTraces out \<in> set (rpc_sent R (pr_exporter p))}"

lemma sample_sentTraces:
  assumes "rpc_faithful R"
  shows "sentTraces R (sampleTraceLogs P M (otlpExporter R) tid p) \<subseteq> sentTraces R p"
    and "sentTraces R (sampleMetrics P M (otlpExporter R) a b p) \<subseteq> sentTraces R p"
    and "sentTraces R (sampleLogs P M (otlpExporter R) a b p) \<subseteq> sentTraces R p"
    and "sentTraces R (sampleTrace P M (otlpExporter R) tid p) \<subseteq> sentTraces R p \<union>
      {addProcessingLabelToTraces P (ts_Traces ts) | ts. bm_GetTrace M (pr_buffer p) tid = Some ts}"
  by (auto simp: sample_defs Let_def export_defs split: option.splits if_splits dest!: rpc_faithfulD [OF assms])

lemma decide_sentTraces:
  assumes "rpc_faithful R" and "out \<in> sentTraces R (decide E nd R d p)" and "out \<notin> sentTraces R p"
  shows "\<exists>tid ts. decisionTraceID d = Some tid \<and> GetTrace E (pr_buffer p) tid = Some ts \<and>
    out = addProcessingLabelToTraces (be_pd E) (ts_Traces ts)"
proof (cases "decisionTraceID d")
  case (Some tid)
  let ?p1 = "sampleTrace (be_pd E) (inMemoryManager E nd) (otlpExporter R) tid p"
  have "sentTraces R (decide E nd R d p) \<subseteq> sentTraces R ?p1"
    unfolding processDecision_def Some option.case
    by (rule subset_trans [OF sample_sentTraces(3) subset_trans [OF sample_sentTraces(2) sample_sentTraces(1)]];
        rule assms(1))
  with sample_sentTraces(4) [OF assms(1), of "be_pd E" "inMemoryManager E nd" tid p] assms(2,3) Some
  show ?thesis by (auto simp: mgr_sel)
qed (use assms in \<open>simp add: processDecision_def\<close>)

lemma rollup_sentTraces:
  assumes "rpc_faithful R" and "rollup E nd R now p = Inr p'"
  shows "sentTraces R p' \<subseteq> sentTraces R p"
  using assms(2)
  by (auto simp: performRollup_def rollupMetrics_def rollupLogs_def Let_def res_bind_Inr_iff exportMetrics_def
      exportLogs_def export_defs split: if_splits dest!: rpc_faithfulD [OF assms(1)])

text \<open>A step of a node sends no trace, unless it acts on a decision.\<close>

lemma Consume_exporter:
  "Consume L cfg nd now sig n = Inr (n', err) \<Longrightarrow> pr_exporter (n_proc n') = pr_exporter (n_proc n)"
  by (auto simp: Consume_def Let_def res_bind_Inr_iff split: prod.splits option.splits)

lemma handleEvictedSignal_exporter [simp]: "pr_exporter (handleEvictedSignal sig p) = pr_exporter p"
  by (cases sig) simp_all

lemma processTrigger_exporter [simp]: "pr_exporter (processTrigger t p) = pr_exporter p"
  by (simp add: processTrigger_def)

lemma loadTick_proc: "loadTick L cfg now n = Inr n' \<Longrightarrow> n_proc n' = n_proc n"
  by (auto simp: loadTick_def Let_def res_bind_Inr_iff split: if_splits)

lemma truncationTick_proc [simp]: "n_proc (truncationTick L now n) = n_proc n"
  by (simp add: truncationTick_def split: option.split)

lemma node_loop_sentTraces:
  assumes "rpc_faithful (lib_rpc L)" and "node_loop L cfg n n'"
    and "out \<in> sentTraces (lib_rpc L) (n_proc n')" and "out \<notin> sentTraces (lib_rpc L) (n_proc n)"
  shows "\<exists>d ch tid ts. recv (gm_decisionChan (n_gossip n)) = Some (d, ch) \<and> decisionTraceID d = Some tid \<and>
    GetTrace (lib_buf L) (n_buffer n) tid = Some ts \<and>
    out = addProcessingLabelToTraces (be_pd (lib_buf L)) (ts_Traces ts)"
  using assms(2)
proof (cases rule: node_loop.cases)
  case (decision d ch nd)
  then show ?thesis using decide_sentTraces [OF assms(1), of out "lib_buf L" nd d "n_proc n"] assms(3,4) by auto
next
  case (rollup nd now p)
  then show ?thesis using rollup_sentTraces [OF assms(1) rollup(2)] assms(3,4) by auto
next
  case (load now)
  then show ?thesis using loadTick_proc assms(3,4) by metis
qed (use assms(3,4) in \<open>simp_all add: setBuffer_sel(4)\<close>)

subsection \<open>The buffer of a running node\<close>

lemma manager_steps:
  "(buf_step E)\<^sup>*\<^sup>* b (RemoveTrace E nd b tid)" "(buf_step E)\<^sup>*\<^sup>* b (RemoveMetricsInRange E nd b s e)"
  "(buf_step E)\<^sup>*\<^sup>* b (RemoveLogsInRange E nd b s e)" "(buf_step E)\<^sup>*\<^sup>* b (cacheClean E nd b)"
  by (blast intro: buf_step.intros)+

lemma sample_steps:
  "(buf_step E)\<^sup>*\<^sup>* (pr_buffer p) (pr_buffer (sampleTrace P (inMemoryManager E nd) X tid p))"
  "(buf_step E)\<^sup>*\<^sup>* (pr_buffer p) (pr_buffer (sampleTraceLogs P (inMemoryManager E nd) X tid p))"
  "(buf_step E)\<^sup>*\<^sup>* (pr_buffer p) (pr_buffer (sampleMetrics P (inMemoryManager E nd) X a b p))"
  "(buf_step E)\<^sup>*\<^sup>* (pr_buffer p) (pr_buffer (sampleLogs P (inMemoryManager E nd) X a b p))"
  by (simp_all add: sample_defs Let_def mgr_sel manager_steps split: option.split)

lemma decide_steps: "(buf_step E)\<^sup>*\<^sup>* (pr_buffer p) (pr_buffer (decide E nd R d p))"
proof (cases "decisionTraceID d")
  case (Some tid)
  show ?thesis
    unfolding processDecision_def Some option.case
    by (rule rtranclp_trans [OF rtranclp_trans [OF rtranclp_trans [OF sample_steps(1) sample_steps(2)]
          sample_steps(3)] sample_steps(4)])
qed (simp add: processDecision_def)

lemma rollup_steps:
  assumes "rollup E nd R now p = Inr p'"
  shows "(buf_step E)\<^sup>*\<^sup>* (pr_buffer p) (pr_buffer p')"
proof -
  have metrics: "rollupMetrics P (inMemoryManager E nd) X s e ms q = Inr q' \<Longrightarrow>
      (buf_step E)\<^sup>*\<^sup>* (pr_buffer q) (pr_buffer q')" for P X s e ms q q'
    by (auto simp: rollupMetrics_def Let_def res_bind_Inr_iff exportMetrics_def mgr_sel manager_steps split: if_splits)
  have logs: "rollupLogs P (inMemoryManager E nd) X s e ls q = Inr q' \<Longrightarrow>
      (buf_step E)\<^sup>*\<^sup>* (pr_buffer q) (pr_buffer q')" for P X s e ls q q'
    by (auto simp: rollupLogs_def Let_def res_bind_Inr_iff exportLogs_def mgr_sel manager_steps split: if_splits)
  show ?thesis
    using assms by (auto simp: performRollup_def Let_def res_bind_Inr_iff dest!: metrics logs)
qed

lemma node_loop_buffer:
  assumes "node_loop L cfg n n'"
  shows "(buf_step (lib_buf L))\<^sup>*\<^sup>* (n_buffer n) (n_buffer n')"
  using assms
proof (cases rule: node_loop.cases)
  case (decision d ch nd)
  then show ?thesis using decide_steps by simp
next
  case (evicted sig ch)
  then show ?thesis using buf_step.step_recv [OF evicted(2)] by (simp add: r_into_rtranclp)
next
  case (rollup nd now p)
  then show ?thesis using rollup_steps by fastforce
next
  case (load now)
  then show ?thesis using loadTick_proc by (metis rtranclp.rtrancl_refl)
qed (simp_all add: manager_steps)

lemma node_step_buffer:
  assumes "node_step L cfg n n'"
  shows "(buf_step (lib_buf L))\<^sup>*\<^sup>* (n_buffer n) (n_buffer n')"
  using assms
proof (cases rule: node_step.cases)
  case (receive nd now sig err)
  have "n_buffer n' = n_buffer n \<or> n_buffer n' = fst (Store (lib_buf L) nd sig (n_buffer n))"
    using receive(2) by (auto simp: Consume_def Let_def res_bind_Inr_iff split: prod.splits option.splits)
  then show ?thesis using buf_step.step_Store [OF receive(1)] by auto
next
  case background
  then show ?thesis by (rule node_loop_buffer)
qed simp_all

lemma buf_reachable_steps:
  assumes "(buf_step E)\<^sup>*\<^sup>* b b'" and "buf_reachable E c t b"
  shows "buf_reachable E c t b'"
  using assms by (induction rule: rtranclp_induct) (auto intro: reach_step)

lemma freshRun_reachable:
  assumes "freshRun B nds sigs ib" and "buf_reachable B c t (snd ib)"
  shows "buf_reachable B c t (snd (fold (storeNext B nds) sigs ib))"
  using assms
proof (induction sigs arbitrary: ib)
  case (Cons sig sigs)
  have "buf_reachable B c t (snd (storeNext B nds sig ib))"
    using Cons.prems reach_step [OF _ buf_step.step_Store] by (auto simp: storeNext_def)
  then show ?case using Cons by simp
qed simp

lemma node_buffer_reachable:
  assumes "libs_ok L" and "outside_ok L out" and "node_reachable L cfg out n"
  shows "\<exists>c. out_cache out = Inr c \<and> buf_reachable (lib_buf L) c (out_tree out) (n_buffer n)"
  using assms(3)
proof (induction rule: node_reachable.induct)
  case (start nds n)
  obtain w x c tel gsp where n: "out_wal out = Inr w" "out_cache out = Inr c"
    "n = \<lparr>n_proc = processor_New (replayInto (lib_buf L) (lib_wal L) nds w (buffer_New c (out_tree out)))
        (rollup_New (cfg_Rollup cfg)) x tel, n_wal = Some w, n_gossip = gsp, n_highLoadActive = False\<rparr>"
    by (rule startNode_Inr [OF start(1)])
  have log: "wal_ok (lib_wal L)" "wl_valid (lib_wal L) w"
    using assms(1,2) n(1) by (simp_all add: libs_ok_def outside_ok_def)
  have "freshRun (lib_buf L) nds (logged (lib_wal L) w) (0, buffer_New c (out_tree out))"
    using start(2) n(1,2) by (simp add: freshStart_def)
  then have "buf_reachable (lib_buf L) c (out_tree out)
      (snd (fold (storeNext (lib_buf L) nds) (logged (lib_wal L) w) (0, buffer_New c (out_tree out))))"
    by (rule freshRun_reachable) (simp add: reach_New)
  then show ?case using n(2) by (simp add: n(3) processor_New_def replayInto_eq [OF log])
next
  case (step n n')
  then show ?case using buf_reachable_steps [OF node_step_buffer [OF step(2)]] by blast
qed

lemma node_isolated:
  assumes "libs_ok L" and "codec_ok (lib_buf L)" and "marshal_clean (lib_buf L)" and "outside_ok L out"
    and "node_reachable L cfg out n"
  shows "isolated (lib_buf L) (n_buffer n)"
proof -
  obtain c where c: "out_cache out = Inr c" "buf_reachable (lib_buf L) c (out_tree out) (n_buffer n)"
    using node_buffer_reachable [OF assms(1,4,5)] by blast
  then have "\<forall>k. cache_Get (lib_buf L) c k = None" using assms(4) by (simp add: outside_ok_def)
  then show ?thesis using reachable_isolated [OF _ assms(2,3) _ c(2)] assms(1) by (simp add: libs_ok_def)
qed

subsection \<open>What a cluster sends\<close>

text \<open>The libraries keep their promises, and every node starts with nothing queued and nothing sent.\<close>

definition cluster_ok :: "('c, 't, 'w, 'q, 'x) libs \<Rightarrow> ('q \<Rightarrow> bytes set) \<Rightarrow>
    (nat \<Rightarrow> ('c, 't, 'w, 'q, 'x) outside) \<Rightarrow> bool" where
  "cluster_ok L items out \<longleftrightarrow> libs_ok L \<and> codec_ok (lib_buf L) \<and> marshal_clean (lib_buf L) \<and>
     traceid_ok (be_pd (lib_buf L)) \<and> proto_ok (lib_gossip L) \<and> queue_ok (lib_gossip L) items \<and>
     rpc_faithful (lib_rpc L) \<and>
     (\<forall>i. outside_ok L (out i) \<and> items (out_queue (out i)) = {} \<and>
       (\<forall>endpoint x. out_client (out i) endpoint = Inr x \<longrightarrow> rpc_sent (lib_rpc L) x = []))"

lemma startNode_exporter:
  "startNode L out cfg nds = Inr n \<Longrightarrow> \<exists>endpoint. out_client out endpoint = Inr (pr_exporter (n_proc n))"
  by (auto simp: startNode_def exporter_New_def processor_New_def Let_def
      split: sum.splits option.splits prod.splits)

definition sent_caused :: "('c, 't, 'w, 'q, 'x) libs \<Rightarrow> (nat \<Rightarrow> Config) \<Rightarrow> (nat \<times> Signal) list \<Rightarrow>
    ('c, 't, 'w, 'q, 'x) Node \<Rightarrow> bool" where
  "sent_caused L cfg seen n \<longleftrightarrow> (\<forall>out \<in> sentTraces (lib_rpc L) (n_proc n). \<exists>tid r.
     caused (be_pd (lib_buf L)) cfg seen (EncodeToString tid) r \<and> (\<forall>s \<in> set (spans_of out). span_traceID s = tid))"

lemma sent_caused_mono: "sent_caused L cfg seen n \<Longrightarrow> sent_caused L cfg (x # seen) n"
  unfolding sent_caused_def by (blast intro: caused_mono)

lemma sent_caused_exporter:
  "pr_exporter (n_proc n') = pr_exporter (n_proc n) \<Longrightarrow> sent_caused L cfg seen n' = sent_caused L cfg seen n"
  by (simp add: sent_caused_def)

lemma caused_traceID:
  assumes "caused P cfg seen (sd_TraceID d) r" and "decisionTraceID d = Some tid"
  shows "sd_TraceID d = EncodeToString tid"
  using assms by (auto simp: caused_def decisionTraceID_def DecodeString_EncodeToString split: if_splits)

lemma node_loop_sent_caused:
  assumes "rpc_faithful (lib_rpc L)" and "isolated (lib_buf L) (n_buffer n)"
    and "gossip_caused (lib_gossip L) items (caused (be_pd (lib_buf L)) cfg seen) (n_gossip n)"
    and "node_loop L cf n n'" and "sent_caused L cfg seen n"
  shows "sent_caused L cfg seen n'"
  unfolding sent_caused_def
proof
  fix out
  assume out: "out \<in> sentTraces (lib_rpc L) (n_proc n')"
  show "\<exists>tid r. caused (be_pd (lib_buf L)) cfg seen (EncodeToString tid) r \<and> (\<forall>s \<in> set (spans_of out). span_traceID s = tid)"
  proof (cases "out \<in> sentTraces (lib_rpc L) (n_proc n)")
    case True
    then show ?thesis using assms(5) unfolding sent_caused_def by blast
  next
    case False
    obtain d ch tid ts where d: "recv (gm_decisionChan (n_gossip n)) = Some (d, ch)" "decisionTraceID d = Some tid"
      "GetTrace (lib_buf L) (n_buffer n) tid = Some ts" "out = addProcessingLabelToTraces (be_pd (lib_buf L)) (ts_Traces ts)"
      using node_loop_sentTraces [OF assms(1,4) out False] by blast
    have "d \<in> set (chanQueue (gm_decisionChan (n_gossip n)))"
      using d(1) by (auto simp: recv_def split: list.splits)
    then have cause: "caused (be_pd (lib_buf L)) cfg seen (sd_TraceID d) (sd_Reason d)"
      using assms(3) by (simp add: gossip_caused_def)
    moreover have "\<forall>s \<in> set (spans_of out). span_traceID s = tid"
      using isolated_GetTrace [OF assms(2) d(3)] by (simp add: d(4))
    ultimately show ?thesis using caused_traceID [OF cause d(2)] by metis
  qed
qed

lemma cluster_sent_caused:
  assumes "cluster_ok L items out" and "cluster_reachable L cfg out c"
  shows "sent_caused L cfg (cl_seen c) (cl_nodes c i)"
  using assms(2)
proof (induction arbitrary: i rule: cluster_reachable.induct)
  case (boot nodes)
  obtain nds where "startNode L (out i) (cfg i) nds = Inr (nodes i)" using boot [of i] by blast
  then obtain endpoint where "out_client (out i) endpoint = Inr (pr_exporter (n_proc (nodes i)))"
    using startNode_exporter by blast
  then have "rpc_sent (lib_rpc L) (pr_exporter (n_proc (nodes i))) = []"
    using assms(1) by (simp add: cluster_ok_def)
  then show ?case by (simp add: sent_caused_def)
next
  case (run c c')
  have ok: "libs_ok L" "codec_ok (lib_buf L)" "marshal_clean (lib_buf L)" "outside_ok L (out i)"
    "rpc_faithful (lib_rpc L)" for i
    using assms(1) by (simp_all add: cluster_ok_def)
  have own: "isolated (lib_buf L) (n_buffer (cl_nodes c i))" for i
    using node_isolated [OF ok(1-4) cluster_node_reachable [OF run(1)]] .
  have "cluster_caused L cfg items c"
    using assms(1) cluster_reachable_caused [OF _ _ _ _ run(1)] by (simp add: cluster_ok_def)
  then have gsp: "gossip_caused (lib_gossip L) items (caused (be_pd (lib_buf L)) cfg (cl_seen c)) (n_gossip (cl_nodes c i))" for i
    by (simp add: cluster_caused_def)
  show ?case
    using run(2)
  proof (cases rule: cluster_step.cases)
    case (client j n nd now sig n' err)
    then show ?thesis
      using sent_caused_mono [OF run(3) [of i]] sent_caused_mono [OF run(3) [of j]]
        sent_caused_exporter [OF Consume_exporter [OF client(4)]] by simp
  next
    case (goroutine j n')
    then show ?thesis
      using run(3) node_loop_sent_caused [OF ok(5) own gsp goroutine(2) run(3)] by simp
  next
    case (send j n ov lim msgs m)
    then show ?thesis
      using run(3) [of i] run(3) [of j] sent_caused_exporter [of "n\<lparr>n_gossip := m\<rparr>" n] by simp
  next
    case (deliver j n msg)
    then show ?thesis
      using run(3) [of i] run(3) [of j]
        sent_caused_exporter [of "n\<lparr>n_gossip := NotifyMsg (lib_gossip L) msg (n_gossip n)\<rparr>" n] by simp
  qed
qed

text \<open>
  C4: Nothing is exported as a trace that was not asked for, and no request mixes traces.  In a
  cluster of any number of nodes, whatever the network loses, repeats or delays, whatever the caches
  evict and however the goroutines interleave, all spans of a trace request that a backend has
  accepted from a node carry one trace ID, and since the cluster was started some node has received
  a batch with a span of that trace that one of its policies matches.
\<close>

theorem exported_traces_were_matched:
  assumes "cluster_ok L items out" and "cluster_reachable L cfg out c"
    and "OutTraces t \<in> set (rpc_sent (lib_rpc L) (pr_exporter (n_proc (cl_nodes c j))))"
  shows "\<exists>i ts pol s. (i, SigTrace ts) \<in> set (cl_seen c) \<and>
    pol \<in> set (dec_Policies (cfg_Decision (cfg i))) \<and> policyMatched (be_pd (lib_buf L)) ts pol \<and>
    s \<in> set (spans_of (ts_Traces ts)) \<and> (\<forall>x \<in> set (spans_of t). span_traceID x = span_traceID s)"
proof -
  obtain tid r where "caused (be_pd (lib_buf L)) cfg (cl_seen c) (EncodeToString tid) r"
    "\<forall>x \<in> set (spans_of t). span_traceID x = tid"
    using cluster_sent_caused [OF assms(1,2), of j] assms(3) unfolding sent_caused_def by blast
  then show ?thesis unfolding caused_def EncodeToString_inject by blast
qed

text \<open>
  A cluster of nodes on the list cache of \<open>trace_env\<close>: one receives a span, decides and acts on its
  decision.
\<close>

definition libs_export :: "(listCache, TimeKey list, listLog, broadcast list, Export list) libs" where
  "libs_export = libs_cluster\<lparr>lib_buf := trace_env\<rparr>"

definition exporting_node :: "(listCache, TimeKey list, listLog, broadcast list, Export list) Node" where
  "exporting_node = (case Consume libs_export (cfg_Decision DefaultConfig) (nd_example 5 ''u'') 7 (wal_signal 5) node_example
     of Inl p \<Rightarrow> node_example | Inr r \<Rightarrow> fst r)"

lemma libs_export_sel:
  "lib_buf libs_export = trace_env" "lib_wal libs_export = wal_env" "lib_rpc libs_export = rpc_example"
  by (simp_all add: libs_export_def libs_cluster_def libs_example_def)

lemma outside_trace_env:
  "outside_ok (L\<lparr>lib_buf := trace_env, lib_wal := wal_env\<rparr>) (outside_example\<lparr>out_wal := Inr (1, es)\<rparr>)"
  by (simp add: outside_ok_def outside_example_def trace_env_def buf_example_def, simp add: wal_env_def wal_example_def)

lemma cluster_ok_export:
  assumes "\<forall>i. \<exists>es. out i = outside_example\<lparr>out_wal := Inr (1, es)\<rparr>"
  shows "cluster_ok libs_export (\<lambda>q. bc_msg ` set q) out"
proof -
  have "outside_ok libs_export (out i)" for i
  proof -
    have "libs_export = libs_export\<lparr>lib_buf := trace_env, lib_wal := wal_env\<rparr>"
      by (simp add: libs_export_def libs_cluster_def libs_example_def)
    with outside_trace_env [of libs_export] assms show ?thesis by metis
  qed
  moreover have "out_queue (out i) = []" "out_client (out i) e = Inr x \<Longrightarrow> rpc_sent rpc_example x = []" for i e x
    using assms [rule_format, of i] by (auto simp: outside_example_def rpc_example_def)
  moreover have "libs_ok libs_export"
    by (simp add: libs_ok_def libs_export_sel wal_env_def wal_example_ok wal_example_codec,
        simp add: trace_env_def buf_example_laws)
  moreover have "traceid_ok (be_pd trace_env)"
    using example_laws(1) by (simp add: trace_env_def buf_example_def)
  moreover have "proto_ok (lib_gossip libs_export)" "queue_ok (lib_gossip libs_export) (\<lambda>q. bc_msg ` set q)"
    by (simp_all add: libs_export_def libs_cluster_def gossip_example_proto_ok gossip_example_queue_ok)
  moreover have "rpc_faithful rpc_example" by (auto simp: rpc_faithful_def rpc_example_def)
  ultimately show ?thesis
    using trace_env_isolates by (auto simp: cluster_ok_def libs_export_sel)
qed

text \<open>The run: node 0 receives the span, and then acts on the decision it has broadcast.\<close>

lemma exporting_run:
  "\<exists>c t. cluster_reachable libs_export (\<lambda>_. DefaultConfig) (\<lambda>_. outside_example) c \<and>
     rpc_sent rpc_example (pr_exporter (n_proc (cl_nodes c 0))) = [OutTraces t] \<and>
     spans_of t = [span_example tidA StatusCodeOk] \<and> cl_seen c = [(0, wal_signal 5)]"
proof -
  let ?d = cluster_decision and ?n = exporting_node
  let ?p = "decide trace_env (nd_example 8 ''w'') rpc_example ?d (n_proc ?n)"
  let ?c0 = "\<lparr>cl_nodes = \<lambda>_. node_example, cl_sent = [], cl_seen = []\<rparr>"
  let ?c1 = "?c0\<lparr>cl_seen := (0, wal_signal 5) # cl_seen ?c0, cl_nodes := (cl_nodes ?c0)(0 := ?n)\<rparr>"
  have "\<not> isl (Consume libs_export (cfg_Decision DefaultConfig) (nd_example 5 ''u'') 7 (wal_signal 5) node_example)"
    by code_simp
  then obtain err where consume: "Consume libs_export (cfg_Decision DefaultConfig) (nd_example 5 ''u'') 7
      (wal_signal 5) node_example = Inr (?n, err)"
    by (cases "Consume libs_export (cfg_Decision DefaultConfig) (nd_example 5 ''u'') 7 (wal_signal 5) node_example")
       (auto simp: exporting_node_def)
  have r0: "cluster_reachable libs_export (\<lambda>_. DefaultConfig) (\<lambda>_. outside_example) ?c0"
    by (rule cluster_reachable.boot) (use node_starts [OF libs_export_sel(2)] in auto)
  have s1: "cluster_step libs_export (\<lambda>_. DefaultConfig) ?c0 ?c1"
    by (rule cluster_step.client [where n = node_example, OF _ _ consume])
       (simp_all add: fresh_def node_example_def processor_New_def buffer_New_def nd_example_range_ok)
  have "chanQueue (gm_decisionChan (n_gossip ?n)) = [?d]" by code_simp
  then obtain ch where "recv (gm_decisionChan (n_gossip ?n)) = Some (?d, ch)" by (simp add: recv_def)
  from node_loop.decision [OF this, of libs_export DefaultConfig "nd_example 8 ''w''"]
  obtain n' where n': "node_loop libs_export DefaultConfig ?n n'" "n_proc n' = ?p"
    unfolding libs_export_sel by (metis Node.select_convs(1) Node.surjective Node.update_convs(1))
  let ?c2 = "?c1\<lparr>cl_nodes := (cl_nodes ?c1)(0 := n')\<rparr>"
  have s2: "cluster_step libs_export (\<lambda>_. DefaultConfig) ?c1 ?c2"
    by (rule cluster_step.goroutine) (simp add: n')
  note reach = cluster_reachable.run [OF cluster_reachable.run [OF r0 s1] s2]
  have "(case pr_exporter ?p of [OutTraces t] \<Rightarrow> spans_of t | _ \<Rightarrow> []) = [span_example tidA StatusCodeOk]"
    by code_simp
  then obtain t where t: "pr_exporter ?p = [OutTraces t]" "spans_of t = [span_example tidA StatusCodeOk]"
    by (auto split: list.splits Export.splits)
  then have sent: "rpc_sent rpc_example (pr_exporter (n_proc (cl_nodes ?c2 0))) = [OutTraces t]"
    by (simp add: n' rpc_example_def)
  show ?thesis by (intro exI [of _ ?c2] exI [of _ t] conjI reach sent t(2)) simp
qed

lemma cluster_ok_example: "cluster_ok libs_export (\<lambda>q. bc_msg ` set q) (\<lambda>_. outside_example)"
  by (rule cluster_ok_export) (auto simp: outside_example_def)

theorem exported_traces_were_matched_witness:
  "\<exists>c t. cluster_reachable libs_export (\<lambda>_. DefaultConfig) (\<lambda>_. outside_example) c \<and>
     OutTraces t \<in> set (rpc_sent rpc_example (pr_exporter (n_proc (cl_nodes c 0)))) \<and>
     spans_of t = [span_example tidA StatusCodeOk] \<and>
     (\<exists>i ts pol. (i, SigTrace ts) \<in> set (cl_seen c) \<and> policyMatched pdata_example ts pol)"
proof -
  obtain c t where run: "cluster_reachable libs_export (\<lambda>_. DefaultConfig) (\<lambda>_. outside_example) c"
    "rpc_sent rpc_example (pr_exporter (n_proc (cl_nodes c 0))) = [OutTraces t]"
    "spans_of t = [span_example tidA StatusCodeOk]"
    using exporting_run by blast
  then have sent: "OutTraces t \<in> set (rpc_sent rpc_example (pr_exporter (n_proc (cl_nodes c 0))))" by simp
  from exported_traces_were_matched [OF cluster_ok_example run(1), of t 0] sent
  have "\<exists>i ts pol. (i, SigTrace ts) \<in> set (cl_seen c) \<and> policyMatched pdata_example ts pol"
    unfolding libs_export_sel by (auto simp: trace_env_def buf_example_def)
  with run(1,3) sent show ?thesis by blast
qed


text \<open>Nodes that start with a span in their logs that the default policy matches.\<close>

definition outside_logged :: "(listCache, TimeKey list, listLog, broadcast list, Export list) outside" where
  "outside_logged = outside_example\<lparr>out_wal := Inr (1, [[1]])\<rparr>"

definition restored_node :: "(listCache, TimeKey list, listLog, broadcast list, Export list) Node" where
  "restored_node = (setBuffer (replayInto trace_env wal_env (\<lambda>_. nd_example 9 ''v'') (1, [[1]]) empty_buffer)
     node_example)\<lparr>n_wal := Some (1, [[1]])\<rparr>"

lemma restored_node_starts:
  "startNode libs_export outside_logged DefaultConfig (\<lambda>_. nd_example 9 ''v'') = Inr restored_node"
  "freshStart libs_export outside_logged (\<lambda>_. nd_example 9 ''v'')"
proof -
  show "startNode libs_export outside_logged DefaultConfig (\<lambda>_. nd_example 9 ''v'') = Inr restored_node"
    by (simp add: startNode_def outside_logged_def outside_example_def wal_Open_def exporter_New_def libs_export_sel
        telemetry_Init_def registerGauges_def RegisterBufferGauge_def RegisterGossipGauge_def discovery_New_def
        DefaultConfig_def restored_node_def node_example_def manager_example_def gossip_Start_def setBuffer_def
        processor_New_def)
  have "logged wal_env (1, [[1]]) = [strip (wal_signal 5)]" by code_simp
  then show "freshStart libs_export outside_logged (\<lambda>_. nd_example 9 ''v'')"
    by (simp add: freshStart_def outside_logged_def outside_example_def libs_export_sel fresh_def buffer_New_def
        nd_example_range_ok)
qed


end
