(* ===== verification/Repeats.thy ===== *)
theory Repeats
  imports Isolation Progress
begin

text \<open>
  Decisions and data that come again or come late.  The cluster repeats messages, every matching
  batch of a trace causes a decision of its own, spans of a trace can come in after it has been
  sampled, and a restart replays signals that had been dealt with.  Shown here: acting again on a
  decision changes nothing if the node held the trace, but exports the logs of the trace again, each
  time, if it held only those; late spans of a sampled trace stay behind; and a replay brings
  sampled traces back.
\<close>

subsection \<open>The same decision again\<close>

text \<open>A buffer in which removing metrics and logs of a time range brings back no logs of a trace.\<close>

locale repeat_processor = processor_buffer M inv
  for M :: "'s BufferManager" and inv +
  assumes RemoveMetrics_traceLogs: "inv s \<Longrightarrow> bm_GetTraceLogs M s tid = None \<Longrightarrow>
      bm_GetTraceLogs M (bm_RemoveMetricsInRange M s a b) tid = None"
    and RemoveLogs_traceLogs: "inv s \<Longrightarrow> bm_GetTraceLogs M s tid = None \<Longrightarrow>
      bm_GetTraceLogs M (bm_RemoveLogsInRange M s a b) tid = None"
begin

lemma sampled_traceLogs:
  assumes "binv p" and "bm_GetTrace M (pr_buffer p) tid \<noteq> None \<or> bm_GetTraceLogs M (pr_buffer p) tid = None"
  shows "bm_GetTraceLogs M (pr_buffer (sampleTraceLogs P M X tid (sampleTrace P M X tid p))) tid = None"
  using assms by (auto simp: sample_defs Let_def RemoveTrace_logs split: option.split)

lemma window_traceLogs:
  assumes "binv p" and "bm_GetTraceLogs M (pr_buffer p) tid = None"
  shows "bm_GetTraceLogs M (pr_buffer (sampleMetrics P M X a b p)) tid = None"
    and "bm_GetTraceLogs M (pr_buffer (sampleLogs P M X a b p)) tid = None"
  using assms by (simp_all add: sample_defs Let_def RemoveMetrics_traceLogs RemoveLogs_traceLogs)

lemma processDecision_traceLogs:
  assumes "binv p" and "decisionTraceID d = Some tid"
    and "bm_GetTrace M (pr_buffer p) tid \<noteq> None \<or> bm_GetTraceLogs M (pr_buffer p) tid = None"
  shows "bm_GetTraceLogs M (pr_buffer (processDecision P M X d p)) tid = None"
  unfolding processDecision_def assms(2) option.case
  by (intro window_traceLogs sampled_traceLogs sample_binv assms)

end

interpretation again: repeat_processor "inMemoryManager E nd" "\<lambda>b. cache_ok E \<and> btree_ok E \<and> buf_inv E b"
  for E :: "('c, 't) bufenv" and nd
  by unfold_locales
     (auto simp: mgr_sel RemoveMetricsInRange_def RemoveLogsInRange_def deletes_keep_empty)

text \<open>A decision for which there is nothing in the buffer.\<close>

lemma processDecision_nothing:
  assumes "decisionTraceID d = Some tid" and "bm_GetTrace M (pr_buffer p) tid = None"
    and "bm_GetTraceLogs M (pr_buffer p) tid = None"
    and "bm_GetMetricsInRange M (pr_buffer p) (windowStart d) (windowEnd d) = []"
    and "bm_GetLogsInRange M (pr_buffer p) (windowStart d) (windowEnd d) = []"
  shows "processDecision P M X d p = p"
  using assms by (simp add: processDecision_def sample_defs)

text \<open>
  C11: Acting on a decision is idempotent.  Gossip repeats its messages; a node that held spans of
  the trace, or nothing of it at all, and acts on the same decision once more sends nothing, counts
  nothing and changes nothing, whether or not the exports of the first time succeeded.
\<close>

theorem repeated_decision_is_harmless:
  assumes "cache_ok E" and "btree_ok E" and "buf_inv E (pr_buffer p)"
    and "\<And>tid. decisionTraceID d = Some tid \<Longrightarrow>
      GetTrace E (pr_buffer p) tid \<noteq> None \<or> GetTraceLogs E (pr_buffer p) tid = None"
  shows "decide E nd' R d (decide E nd R d p) = decide E nd R d p"
proof (cases "decisionTraceID d")
  case (Some tid)
  have inv: "cache_ok E \<and> btree_ok E \<and> buf_inv E (pr_buffer p)" using assms(1-3) by blast
  have "bm_GetTrace (inMemoryManager E nd) (pr_buffer p) tid \<noteq> None \<or>
      bm_GetTraceLogs (inMemoryManager E nd) (pr_buffer p) tid = None"
    using assms(4) [OF Some] by (simp add: mgr_sel)
  note gone = proc.processDecision_clears [OF inv Some] again.processDecision_traceLogs [OF inv Some this]
  show ?thesis
    by (rule processDecision_nothing [OF Some]) (use gone in \<open>simp_all add: mgr_sel\<close>)
qed (simp add: processDecision_def)

theorem repeated_decision_is_harmless_witness:
  "decide sampled_env (nd_example 9 ''u'') rpc_example decision_A sampled_proc \<noteq> sampled_proc \<and>
   decide sampled_env (nd_example 10 ''v'') rpc_example decision_A
     (decide sampled_env (nd_example 9 ''u'') rpc_example decision_A sampled_proc) =
   decide sampled_env (nd_example 9 ''u'') rpc_example decision_A sampled_proc"
proof
  have p: "pr_buffer sampled_proc = sampled_buffer" by (simp add: sampled_proc_def processor_New_def)
  have "GetTrace sampled_env (pr_buffer sampled_proc) tid \<noteq> None" if "decisionTraceID decision_A = Some tid" for tid
    using that sampled_laws(5) sampled_reads(1) by (simp add: p)
  then show "decide sampled_env (nd_example 10 ''v'') rpc_example decision_A
     (decide sampled_env (nd_example 9 ''u'') rpc_example decision_A sampled_proc) =
   decide sampled_env (nd_example 9 ''u'') rpc_example decision_A sampled_proc"
    using repeated_decision_is_harmless [of sampled_env sampled_proc decision_A] sampled_laws(1,2,4) p by auto
  have "GetTrace sampled_env (pr_buffer (decide sampled_env (nd_example 9 ''u'') rpc_example decision_A sampled_proc)) tidA = None"
    using decide_clears [OF sampled_laws(1,2) _ sampled_laws(5), of sampled_proc "nd_example 9 ''u''" rpc_example]
      sampled_laws(4) by (simp add: p)
  then show "decide sampled_env (nd_example 9 ''u'') rpc_example decision_A sampled_proc \<noteq> sampled_proc"
    using sampled_reads(1) p by (metis option.distinct(1))
qed

text \<open>
  C30: Logs without their trace are exported again and again.  If a node holds logs of the trace of a
  decision but no spans of it, each time it acts on the decision it sends the logs once more, and
  they stay in the buffer: only the branch for spans removes the entry.  So every repetition by the
  network and every further matching batch of the trace duplicates them at the backend.
\<close>

theorem trace_logs_exported_repeatedly:
  assumes "rpc_ok R" and "rpc_up R (pr_exporter p)" and "decisionTraceID d = Some tid"
    and "GetTrace E (pr_buffer p) tid = None" and "GetTraceLogs E (pr_buffer p) tid = Some logs"
    and "GetMetricsInRange E (pr_buffer p) (windowStart d) (windowEnd d) = []"
    and "GetLogsInRange E (pr_buffer p) (windowStart d) (windowEnd d) = []"
  shows "pr_buffer ((decide E nd R d ^^ k) p) = pr_buffer p \<and>
    rpc_sent R (pr_exporter ((decide E nd R d ^^ k) p)) =
      rpc_sent R (pr_exporter p) @ replicate k (OutLogs (addProcessingLabelToLogs (be_pd E) (ls_Logs logs)))"
proof -
  let ?out = "OutLogs (addProcessingLabelToLogs (be_pd E) (ls_Logs logs))"
  have one: "pr_buffer (decide E nd R d q) = pr_buffer p \<and> rpc_up R (pr_exporter (decide E nd R d q)) \<and>
      rpc_sent R (pr_exporter (decide E nd R d q)) = rpc_sent R (pr_exporter q) @ [?out]"
    if "pr_buffer q = pr_buffer p" "rpc_up R (pr_exporter q)" for q
    using that assms(3-7) rpc_okD(2) [OF assms(1)] rpc_up_sent [OF assms(1)]
    by (simp add: processDecision_def sample_defs mgr_sel export_defs)
  have "pr_buffer ((decide E nd R d ^^ k) p) = pr_buffer p \<and> rpc_up R (pr_exporter ((decide E nd R d ^^ k) p)) \<and>
      rpc_sent R (pr_exporter ((decide E nd R d ^^ k) p)) = rpc_sent R (pr_exporter p) @ replicate k ?out"
    by (induction k) (use assms(2) one in \<open>simp_all add: replicate_append_same [symmetric]\<close>)
  then show ?thesis by blast
qed

text \<open>A processor whose buffer holds a log record of \<open>tidA\<close> and no span of it.\<close>

definition logs_only_proc :: "(exampleBuffer, Export list) Processor" where
  "logs_only_proc = processor_New (empty_buffer\<lparr>b_cache := [(EncodeToString tidA,
     gobEncode_example \<lparr>st_ReceivedAt = 5, st_TracesData = [], st_LogsData = [1]\<rparr>)]\<rparr>) (rollup_example LevelFine) [] None"

lemma logs_only_reads:
  "GetTrace sampled_env (pr_buffer logs_only_proc) tidA = None"
  "GetTraceLogs sampled_env (pr_buffer logs_only_proc) tidA =
     Some \<lparr>ls_Logs = [resource_logs [log_record tidA]], ls_Ctx = ctxAt 5\<rparr>"
  "GetMetricsInRange sampled_env (pr_buffer logs_only_proc) a b = []"
  "GetLogsInRange sampled_env (pr_buffer logs_only_proc) a b = []"
  by (simp_all add: GetTrace_def GetTraceLogs_def GetMetricsInRange_def GetLogsInRange_def indexRange_def
      sampled_env_def logs_only_proc_def processor_New_def buf_example_def gob_roundtrip tableUnmarshal_def
      UnixNsec_def buffer_New_def map_filter_simps)

theorem trace_logs_exported_repeatedly_witness:
  "\<exists>out. (pr_exporter ((decide sampled_env (nd_example 9 ''u'') rpc_example decision_A ^^ 3) logs_only_proc)) =
     [OutLogs out, OutLogs out, OutLogs out]"
proof -
  have p: "pr_exporter logs_only_proc = []" "rpc_up rpc_example []" "rpc_sent rpc_example x = x" for x
    by (simp_all add: logs_only_proc_def processor_New_def rpc_example_def)
  from trace_logs_exported_repeatedly [OF rpc_example_ok _ sampled_laws(5) logs_only_reads,
      where nd = "nd_example 9 ''u''" and k = 3]
  show ?thesis unfolding p by (simp add: p eval_nat_numeral)
qed

subsection \<open>Late spans\<close>

lemma decide_shrinks:
  assumes "cache_ok E" and "btree_ok E" and "buf_inv E (pr_buffer p)"
  shows "shrinks E (b_cache (pr_buffer p)) (b_cache (pr_buffer (decide E nd R d p)))"
proof (cases "decisionTraceID d")
  case (Some tid)
  have rm: "shrinks E (b_cache b) (b_cache (RemoveTrace E nd b tid))" for b
    unfolding RemoveTrace_def by (rule cacheDelete_cache(1) [OF assms(1)])
  have dels: "shrinks E (b_cache b) (b_cache (RemoveMetricsInRange E nd b s e))"
    "shrinks E (b_cache b) (b_cache (RemoveLogsInRange E nd b s e))" if "buf_inv E b" for b s e
    unfolding RemoveMetricsInRange_def RemoveLogsInRange_def using cacheDeletes(2) [OF assms(1,2) that] by blast+
  let ?M = "inMemoryManager E nd" and ?X = "otlpExporter R" and ?P = "be_pd E"
  let ?p1 = "sampleTrace ?P ?M ?X tid p" let ?p2 = "sampleTraceLogs ?P ?M ?X tid ?p1"
  let ?p3 = "sampleMetrics ?P ?M ?X (windowStart d) (windowEnd d) ?p2"
  have "cache_ok E \<and> btree_ok E \<and> buf_inv E (pr_buffer p)" using assms by blast
  then have inv: "cache_ok E \<and> btree_ok E \<and> buf_inv E (pr_buffer ?p2)"
    by (intro proc.sample_binv(1,2))
  then have inv3: "cache_ok E \<and> btree_ok E \<and> buf_inv E (pr_buffer ?p3)" by (rule proc.sample_binv(3))
  have "shrinks E (b_cache (pr_buffer p)) (b_cache (pr_buffer ?p2))"
    using rm by (simp add: sample_defs Let_def mgr_sel split: option.split)
  moreover have "shrinks E (b_cache (pr_buffer ?p2)) (b_cache (pr_buffer ?p3))"
    using dels inv by (simp add: sample_defs Let_def mgr_sel)
  moreover have "shrinks E (b_cache (pr_buffer ?p3)) (b_cache (pr_buffer (decide E nd R d p)))"
    unfolding processDecision_def Some option.case
    using dels inv3 by (simp add: sampleLogs_def exportLogs_def Let_def mgr_sel)
  ultimately show ?thesis by (blast intro: shrinks_trans)
qed (simp add: processDecision_def)

lemma store_ok_shrinks: "store_ok E b \<Longrightarrow> shrinks E (b_cache b) (b_cache b') \<Longrightarrow> store_ok E b'"
  unfolding store_ok_def entries_ok_def shrinks_def by (metis option.distinct(1))

lemma Consume_unmatched:
  assumes "find (policyMatched (be_pd (lib_buf L)) trace) (dec_Policies cfg) = None"
    and "snd (consumeWal (lib_wal L) (SigTrace trace) (n_wal n)) = None"
  shows "\<exists>n'. Consume L cfg nd now (SigTrace trace) n = Inr (n', None) \<and> n_gossip n' = n_gossip n \<and>
    pr_exporter (n_proc n') = pr_exporter (n_proc n) \<and>
    n_buffer n' = fst (storeTraces (lib_buf L) nd trace (n_buffer n))"
proof -
  obtain w where w: "consumeWal (lib_wal L) (SigTrace trace) (n_wal n) = (w, None)"
    using assms(2) by (metis prod.collapse)
  obtain b where b: "storeTraces (lib_buf L) nd trace (n_buffer n) = (b, None)" by (simp add: storeTraces_def Let_def)
  have "consumeDecision L cfg now (SigTrace trace) m = Inr m" for m
    using assms(1) by (simp add: consumeDecision_def EvaluateTrace_def evalPolicies_find decision_New_def)
  with w b show ?thesis by (simp add: Consume_def Let_def)
qed

text \<open>
  C29: A node does not remember what it has sampled.  When spans of a trace come in after the node
  has acted on the decision for it, and do not match a policy themselves, they are accepted and
  buffered, but no decision is made for them and nothing is sent: the buffer then holds exactly the
  late spans of the trace, and what was exported before is all the backend gets.
\<close>

theorem late_spans_stay_behind:
  fixes L :: "('c, 't, 'w, 'q, 'x) libs" and n :: "('c, 't, 'w, 'q, 'x) Node"
    and d :: SamplingDecision and nd :: nondet
  defines "B \<equiv> lib_buf L" and "n1 \<equiv> n\<lparr>n_proc := decide (lib_buf L) nd (lib_rpc L) d (n_proc n)\<rparr>"
  assumes "store_ok B (n_buffer n)" and "btree_ok B" and "buf_inv B (n_buffer n)" and "decisionTraceID d = Some tid"
    and "\<not> pd_IsEmpty (be_pd B) tid" and "range_ok nd'" and "quietTraces B nd' late (n_buffer n1)"
    and "snd (consumeWal (lib_wal L) (SigTrace late) (n_wal n)) = None"
    and "\<forall>pol \<in> set (dec_Policies cfg). \<not> policyMatched (be_pd B) late pol"
  shows "\<exists>n2. Consume L cfg nd' now (SigTrace late) n1 = Inr (n2, None) \<and>
    n_gossip n2 = n_gossip n \<and> pr_exporter (n_proc n2) = pr_exporter (n_proc n1) \<and>
    spans_of (traceOf B (n_buffer n2) tid) = filter (\<lambda>s. span_traceID s = tid) (spans_of (ts_Traces late))"
proof -
  have cache: "cache_ok B" using assms(3) by (simp add: store_ok_def)
  have buf: "n_buffer n1 = pr_buffer (decide B nd (lib_rpc L) d (n_proc n))" by (simp add: n1_def B_def)
  have ok: "store_ok B (n_buffer n1)"
    unfolding buf by (rule store_ok_shrinks [OF assms(3) decide_shrinks [OF cache assms(4,5)]])
  have "traceOf B (n_buffer n1) tid = []"
    unfolding buf by (simp add: traceOf_def decide_clears [OF cache assms(4,5,6)])
  moreover have "find (policyMatched (be_pd B) late) (dec_Policies cfg) = None"
    using assms(11) by (simp add: find_None_iff)
  ultimately show ?thesis
    using Consume_unmatched [of L late cfg n1 nd' now] storeTraces_views(1) [OF ok assms(8,9,7)] assms(10)
    by (fastforce simp: B_def n1_def spans_itemsFor)
qed

definition late_signal :: TraceSignal where
  "late_signal = \<lparr>ts_Traces = traces_example [span_example tidA StatusCodeOk], ts_Ctx = ctxAt 5\<rparr>"

definition after_decision :: exampleBuffer where
  "after_decision = pr_buffer (decide trace_env (nd_example 9 ''u'') rpc_example decision_A (n_proc sampling_node))"

lemma late_quiet: "quietTraces trace_env (nd_example 10 ''v'') late_signal after_decision"
proof -
  have "groupSpans (be_pd trace_env) (ts_Traces late_signal) = [(tidA, [wrapped tidA StatusCodeOk])]" by code_simp
  moreover have "b_cache after_decision = []" by code_simp
  then have "quietTrace trace_env (nd_example 10 ''v'') tidA [wrapped tidA StatusCodeOk] after_decision"
    unfolding trace_env_quiet silentTrace_def silentSet_def
    by (simp add: loadStored_def mergedTraces_def, simp add: trace_env_def buf_example_def tableMarshal_def
        cacheSet_example_def)
  ultimately show ?thesis by (simp add: quietTraces_def, simp add: nd_example_def)
qed

theorem late_spans_stay_behind_witness:
  "\<exists>L n1 n2. n1 = sampling_node\<lparr>n_proc := decide trace_env (nd_example 9 ''u'') rpc_example decision_A (n_proc sampling_node)\<rparr> \<and>
     traceOf trace_env (n_buffer sampling_node) tidA \<noteq> [] \<and>
     Consume L \<lparr>dec_Policies = [policy_example ''error'' 0]\<rparr> (nd_example 10 ''v'') 11 (SigTrace late_signal) n1 = Inr (n2, None) \<and>
     n_gossip n2 = manager_example \<and>
     spans_of (traceOf trace_env (n_buffer n2) tidA) = [span_example tidA StatusCodeOk]"
proof -
  let ?L = "libs_sampling\<lparr>lib_wal := wal_env\<rparr>" and ?cfg = "\<lparr>dec_Policies = [policy_example ''error'' 0]\<rparr>"
  let ?n1 = "sampling_node\<lparr>n_proc := decide trace_env (nd_example 9 ''u'') rpc_example decision_A (n_proc sampling_node)\<rparr>"
  have sel: "lib_buf ?L = trace_env" "lib_rpc ?L = rpc_example" "lib_wal ?L = wal_env" by (simp_all add: sampling_sel)
  have "\<not> policyMatched pdata_example late_signal (policy_example ''error'' 0)" by code_simp
  then have quiet: "\<forall>pol \<in> set (dec_Policies ?cfg). \<not> policyMatched (be_pd trace_env) late_signal pol"
    by (simp add: trace_env_def buf_example_def)
  have log: "snd (consumeWal wal_env (SigTrace late_signal) (n_wal sampling_node)) = None" by code_simp
  have tid: "\<not> pd_IsEmpty (be_pd trace_env) tidA" by (simp add: trace_env_def buf_example_def)
  have tree: "btree_ok trace_env" by (simp add: trace_env_def buf_example_laws)
  have spans: "filter (\<lambda>s. span_traceID s = tidA) (spans_of (ts_Traces late_signal)) = [span_example tidA StatusCodeOk]"
    by (simp add: late_signal_def traces_example_def spans_of_def span_example_def)
  have buf: "n_buffer ?n1 = after_decision" by (simp add: after_decision_def)
  have "traceOf trace_env (n_buffer sampling_node) tidA \<noteq> []"
    using trace_buffer_holds by (auto simp: sampling_sel spans_of_def)
  with late_spans_stay_behind [where L = ?L and n = sampling_node and d = decision_A and tid = tidA and
      nd = "nd_example 9 ''u''" and nd' = "nd_example 10 ''v''" and late = late_signal and cfg = ?cfg and now = 11, unfolded sel buf, unfolded sampling_sel, OF trace_buffer_store_ok tree trace_buffer_inv sampled_laws(5) tid
      nd_example_range_ok late_quiet log quiet]
  show ?thesis unfolding spans sampling_sel by blast
qed

subsection \<open>Sampled traces after a restart\<close>

text \<open>
  C28: A restart brings sampled traces back.  When a node acts on a decision, the trace leaves its
  buffer, but its log still holds the batches of the trace, until they are ten minutes old; replaying
  the log after a restart puts all of them back, span by span, as if the trace had never been
  sampled.
\<close>

theorem replay_restores_sampled_trace:
  assumes "log_inv (lib_wal L) w" and "logged (lib_wal L) w = []" and "n_wal n = Some w"
    and "store_ok (lib_buf L) (n_buffer n)" and "store_ok (lib_buf L) b" and "btree_ok (lib_buf L)"
    and "traceOf (lib_buf L) (n_buffer n) = traceOf (lib_buf L) b"
    and "logsOf (lib_buf L) (n_buffer n) = logsOf (lib_buf L) b"
    and "\<forall>req \<in> set reqs. ts_range (ReceivedAt (signal_Context (snd req)))"
    and "consumeAll L cfg nds reqs (n, []) = Inr (n', acc)" and "n_wal n' = Some w'"
    and "buf_inv (lib_buf L) (n_buffer n')"
    and "quietRun (lib_buf L) nds acc (0, n_buffer n)"
    and "quietRun (lib_buf L) nds' (logged (lib_wal L) w') (0, b)"
    and "\<not> pd_IsEmpty (be_pd (lib_buf L)) tid" and "decisionTraceID d = Some tid"
    and "actsOn L d n' n''"
  shows "traceOf (lib_buf L) (n_buffer n'') tid = [] \<and> n_wal n'' = Some w' \<and>
    traceOf (lib_buf L) (replayInto (lib_buf L) (lib_wal L) nds' w' b) tid = traceOf (lib_buf L) (n_buffer n') tid"
proof -
  have "cache_ok (lib_buf L)" using assms(4) by (simp add: store_ok_def)
  then have "traceOf (lib_buf L) (n_buffer n'') tid = []"
    using assms(17) decide_clears [OF _ assms(6,12,16)] by (auto simp: actsOn_def traceOf_def)
  moreover have "n_wal n'' = Some w'" using assms(11,17) by (auto simp: actsOn_def)
  ultimately show ?thesis
    using replay_views [OF assms(1-5,7-11,13-15)] by blast
qed

theorem replay_restores_sampled_trace_witness:
  "\<exists>n'' d. actsOn libs_recovery d (fst crashed) n'' \<and> traceOf trace_env (n_buffer n'') tidA = [] \<and>
     spans_of (traceOf trace_env (replayInto trace_env wal_env (\<lambda>_. nd_example 9 ''v'') (1, [[1]]) empty_buffer) tidA) =
       [span_example tidA StatusCodeOk]"
proof -
  have sel: "lib_buf libs_recovery = trace_env" "lib_wal libs_recovery = wal_env"
    "n_buffer node_example = empty_buffer" "n_wal node_example = Some (1, [])"
    by (simp_all add: libs_recovery_def libs_example_def node_example_def processor_New_def)
  have "map decisionTraceID (decisions (fst crashed)) = [Some tidA]" by code_simp
  then obtain d where d: "decisions (fst crashed) = [d]" "decisionTraceID d = Some tidA" by auto
  then obtain ch where "recv (gm_decisionChan (n_gossip (fst crashed))) = Some (d, ch)" by (simp add: recv_def)
  then obtain n'' where act: "actsOn libs_recovery d (fst crashed) n''" unfolding actsOn_def by blast
  have tree: "btree_ok trace_env" by (simp add: trace_env_def buf_example_laws)
  have inv: "buf_inv trace_env (n_buffer (fst crashed))"
  proof -
    have "n_buffer (fst crashed) = fst (Store trace_env (nd_example 5 ''u'') (wal_signal 5) empty_buffer)" by code_simp
    then show ?thesis
      using Store_inv [of trace_env empty_buffer "nd_example 5 ''u''" "wal_signal 5"] trace_env_isolates(1) tree
        empty_buffer_inv by (simp add: fresh_def buffer_New_def nd_example_range_ok trace_env_def)
  qed
  have range: "\<forall>req \<in> set recovery_requests. ts_range (ReceivedAt (signal_Context (snd req)))"
    by (simp add: recovery_requests_def wal_signal_def ts_range_def)
  have tid: "\<not> pd_IsEmpty (be_pd trace_env) tidA" by (simp add: trace_env_def buf_example_def)
  have log: "log_inv wal_env (1, [])" using wal_env_inv [of "[]" 1] by simp
  note run = replay_restores_sampled_trace [of libs_recovery "(1, [])" node_example empty_buffer recovery_requests
      "cfg_Decision DefaultConfig" "\<lambda>_. nd_example 5 ''u''" "fst crashed" "[wal_signal 5]" "(1, [[1]])"
      "\<lambda>_. nd_example 9 ''v''" tidA d n'', unfolded sel recovery_logs, OF log refl refl
      recovery_store_ok recovery_store_ok tree refl refl range crashed_run(1,2) inv recovery_quiet_runs tid d(2) act]
  then show ?thesis using act crashed_run(3) by auto
qed

end
