(* ===== verification/Conservation.thy ===== *)
theory Conservation
  imports Repeats "HOL-Library.Multiset"
begin

text \<open>
  No span is exported twice.  For every span, what a node has sent of it in trace requests and what
  its buffer still holds of it never exceed what clients have handed to the node, whatever is
  evicted, refused or repeated: storing copies nothing, and acting on a decision moves a trace out of
  the buffer.
\<close>

subsection \<open>The spans in the buffer\<close>

definition bufSpans :: "('c, 't) bufenv \<Rightarrow> ('c, 't) InMemoryBuffer \<Rightarrow> TraceID \<Rightarrow> Span multiset" where
  "bufSpans E b tid = mset (spans_of (traceOf E b tid))"

text \<open>The entries of traces either stay or vanish.\<close>

definition tracesShrink :: "('c, 't) bufenv \<Rightarrow> ('c, 't) InMemoryBuffer \<Rightarrow> ('c, 't) InMemoryBuffer \<Rightarrow> bool" where
  "tracesShrink E b b' \<longleftrightarrow> (\<forall>tid. cache_Get E (b_cache b') (EncodeToString tid) = cache_Get E (b_cache b) (EncodeToString tid) \<or>
     cache_Get E (b_cache b') (EncodeToString tid) = None)"

lemma shrinks_traces: "shrinks E (b_cache b) (b_cache b') \<Longrightarrow> tracesShrink E b b'"
  by (simp add: shrinks_def tracesShrink_def)

lemma tracesShrink_cache: "b_cache b' = b_cache b \<Longrightarrow> tracesShrink E b b'"
  by (simp add: tracesShrink_def)

lemma bufSpans_gone: "cache_Get E (b_cache b) (EncodeToString tid) = None \<Longrightarrow> bufSpans E b tid = {#}"
  by (simp add: bufSpans_def traceOf_def GetTrace_def)

lemma bufSpans_same:
  "cache_Get E (b_cache b') (EncodeToString tid) = cache_Get E (b_cache b) (EncodeToString tid) \<Longrightarrow>
    bufSpans E b' tid = bufSpans E b tid"
  by (simp add: bufSpans_def traceOf_def GetTrace_def)

lemma tracesShrink_bufSpans:
  assumes "tracesShrink E b b'"
  shows "bufSpans E b' tid \<subseteq># bufSpans E b tid"
proof -
  have "bufSpans E b' tid = bufSpans E b tid \<or> bufSpans E b' tid = {#}"
    using assms bufSpans_same bufSpans_gone unfolding tracesShrink_def by blast
  then show ?thesis by auto
qed

lemma entries_ok_shrink: "tracesShrink E b b' \<Longrightarrow> entries_ok E b \<Longrightarrow> entries_ok E b'"
  unfolding entries_ok_def tracesShrink_def by (metis option.distinct(1))

text \<open>The spans in the stored data of a trace.\<close>

definition entrySpans :: "('c, 't) bufenv \<Rightarrow> StoredTraceData \<Rightarrow> Span multiset" where
  "entrySpans E st = mset (spans_of
     (if st_TracesData st = [] then [] else fst (be_UnmarshalTraces E (st_TracesData st))))"

text \<open>What writing an entry does to the spans of all traces.\<close>

lemma cacheSet_bufSpans:
  assumes "cache_ok E" and "codec_ok E"
  shows "tid' \<noteq> tid \<Longrightarrow> bufSpans E (fst (cacheSet E nd (EncodeToString tid) v b)) tid' \<subseteq># bufSpans E b tid'"
    and "entrySpans E st \<subseteq># X \<Longrightarrow> bufSpans E b tid \<subseteq># X \<Longrightarrow>
      bufSpans E (fst (cacheSet E nd (EncodeToString tid) (gob_Encode E st) b)) tid \<subseteq># X"
    and "entries_ok E b \<Longrightarrow> entries_ok E (fst (cacheSet E nd (EncodeToString tid) (gob_Encode E st) b))"
proof -
  note laws = cache_set_okD [OF assms(1)]
  show "bufSpans E (fst (cacheSet E nd (EncodeToString tid) v b)) tid' \<subseteq># bufSpans E b tid'" if "tid' \<noteq> tid"
  proof -
    obtain c evs err where set: "cache_Set E (b_cache b) (EncodeToString tid) v = (c, evs, err)" by (metis prod_cases3)
    let ?b = "fst (cacheSet E nd (EncodeToString tid) v b)"
    have "b_cache ?b = c" by (simp add: cacheSet_def set)
    then have "bufSpans E ?b tid' = bufSpans E b tid' \<or> bufSpans E ?b tid' = {#}"
      using laws(3) [OF set, of "EncodeToString tid'"] that bufSpans_same [of E ?b tid' b] bufSpans_gone [of E ?b tid'] by auto
    then show ?thesis by auto
  qed
  let ?v = "gob_Encode E st" let ?b = "fst (cacheSet E nd (EncodeToString tid) ?v b)"
  obtain c evs err where set: "cache_Set E (b_cache b) (EncodeToString tid) ?v = (c, evs, err)" by (metis prod_cases3)
  have cache: "b_cache ?b = c" by (simp add: cacheSet_def set)
  show "bufSpans E ?b tid \<subseteq># X"
    if "entrySpans E st \<subseteq># X" "bufSpans E b tid \<subseteq># X"
  proof (cases err)
    case None
    then have "cache_Get E (b_cache ?b) (EncodeToString tid) = Some ?v" using laws(1) [OF set] cache by simp
    then show ?thesis using views_of_entry(1) [OF assms(2)] that(1) by (simp add: bufSpans_def entrySpans_def)
  next
    case (Some e)
    then have "bufSpans E ?b tid = bufSpans E b tid \<or> bufSpans E ?b tid = {#}"
      using laws(2) [OF set] cache bufSpans_same [of E ?b tid b] bufSpans_gone [of E ?b tid] by auto
    then show ?thesis using that(2) by auto
  qed
  show "entries_ok E ?b" if "entries_ok E b"
    unfolding entries_ok_def
  proof (intro allI impI)
    fix t entry
    assume "cache_Get E (b_cache ?b) (EncodeToString t) = Some entry"
    then have "entry = ?v \<or> cache_Get E (b_cache b) (EncodeToString t) = Some entry"
      using laws(1,2) [OF set] laws(3) [OF set, of "EncodeToString t"] by (cases "t = tid"; cases err) (auto simp: cache)
    then show "snd (gob_Decode E entry) = None"
      using that codec_okD(6) [OF assms(2)] unfolding entries_ok_def by auto
  qed
qed

lemma storeTrace_bufSpans:
  assumes "cache_ok E" and "codec_ok E" and "marshal_clean E" and "entries_ok E b"
  shows "bufSpans E (fst (storeTrace E nd tid new b)) tid' \<subseteq>#
      bufSpans E b tid' + (if tid' = tid then mset (spans_of new) else {#})"
    and "entries_ok E (fst (storeTrace E nd tid new b))"
proof -
  let ?st = "loadStored E nd (EncodeToString tid) b"
  obtain d err where m: "be_MarshalTraces E (mergedTraces E ?st new) = (d, err)" by fastforce
  have store: "fst (storeTrace E nd tid new b) =
      fst (cacheSet E nd (EncodeToString tid) (gob_Encode E (?st\<lparr>st_TracesData := d\<rparr>)) b)"
    by (simp add: storeTrace_def traceEntry_def Let_def m)
  have new: "entrySpans E (?st\<lparr>st_TracesData := d\<rparr>) \<subseteq># bufSpans E b tid + mset (spans_of new)"
    using m marshal_cleanD(1) [OF assms(3)] codec_okD(1) [OF assms(2), of "mergedTraces E ?st new" d]
      loadStored_merge(1) [OF assms(4)]
    by (cases err) (auto simp: bufSpans_def entrySpans_def)
  show "bufSpans E (fst (storeTrace E nd tid new b)) tid' \<subseteq>#
      bufSpans E b tid' + (if tid' = tid then mset (spans_of new) else {#})"
  proof (cases "tid' = tid")
    case True
    then show ?thesis unfolding store using cacheSet_bufSpans(2) [OF assms(1,2) new] by simp
  next
    case False
    then show ?thesis unfolding store using cacheSet_bufSpans(1) [OF assms(1,2) False] by simp
  qed
  show "entries_ok E (fst (storeTrace E nd tid new b))"
    unfolding store by (rule cacheSet_bufSpans(3) [OF assms(1,2,4)])
qed

lemma storeTraceLogs_bufSpans:
  assumes "cache_ok E" and "codec_ok E" and "entries_ok E b"
  shows "bufSpans E (fst (storeTraceLogs E nd tid new b)) tid' \<subseteq># bufSpans E b tid'"
    and "entries_ok E (fst (storeTraceLogs E nd tid new b))"
proof -
  let ?st = "loadStored E nd (EncodeToString tid) b"
  obtain d err where m: "be_MarshalLogs E (mergedLogs E ?st new) = (d, err)" by fastforce
  have store: "fst (storeTraceLogs E nd tid new b) =
      fst (cacheSet E nd (EncodeToString tid) (gob_Encode E (?st\<lparr>st_LogsData := d\<rparr>)) b)"
    by (simp add: storeTraceLogs_def logsEntry_def Let_def m)
  have same: "entrySpans E (?st\<lparr>st_LogsData := d\<rparr>) \<subseteq># bufSpans E b tid"
    using loadStored_merge(1) [OF assms(3), of nd tid "[]"]
    by (auto simp: mergedTraces_def bufSpans_def entrySpans_def split: if_splits)
  show "bufSpans E (fst (storeTraceLogs E nd tid new b)) tid' \<subseteq># bufSpans E b tid'"
  proof (cases "tid' = tid")
    case True
    then show ?thesis unfolding store using cacheSet_bufSpans(2) [OF assms(1,2) same] by simp
  next
    case False
    then show ?thesis unfolding store by (rule cacheSet_bufSpans(1) [OF assms(1,2)])
  qed
  show "entries_ok E (fst (storeTraceLogs E nd tid new b))"
    unfolding store by (rule cacheSet_bufSpans(3) [OF assms])
qed

subsection \<open>Storing a signal\<close>

text \<open>The spans of a trace in a signal.\<close>

fun signalSpans :: "Signal \<Rightarrow> Span list" where
  "signalSpans (SigTrace s) = spans_of (ts_Traces s)"
| "signalSpans (SigMetric s) = []"
| "signalSpans (SigLog s) = []"
| "signalSpans (OtherSignal t c) = []"

lemma storeTraces_bufSpans:
  assumes "cache_ok E" and "codec_ok E" and "marshal_clean E" and "distinct tids" and "entries_ok E b"
  shows "bufSpans E (fold (\<lambda>t b. fst (storeTrace E nd t (new t) b)) tids b) tid \<subseteq>#
      bufSpans E b tid + (if tid \<in> set tids then mset (spans_of (new tid)) else {#}) \<and>
    entries_ok E (fold (\<lambda>t b. fst (storeTrace E nd t (new t) b)) tids b)"
  using assms(4,5)
proof (induction tids arbitrary: b)
  case (Cons t tids)
  note one = storeTrace_bufSpans [OF assms(1-3) Cons.prems(2), where nd = nd and tid = t and new = "new t"]
  let ?b1 = "fst (storeTrace E nd t (new t) b)"
  have "bufSpans E (fold (\<lambda>t b. fst (storeTrace E nd t (new t) b)) tids ?b1) tid \<subseteq>#
      bufSpans E ?b1 tid + (if tid \<in> set tids then mset (spans_of (new tid)) else {#})"
    using Cons.IH [OF _ one(2)] Cons.prems(1) by simp
  also have "\<dots> \<subseteq># bufSpans E b tid + (if tid = t then mset (spans_of (new t)) else {#}) +
      (if tid \<in> set tids then mset (spans_of (new tid)) else {#})"
    using one(1) by (rule subset_mset.add_right_mono)
  finally show ?case using Cons.IH [OF _ one(2)] Cons.prems(1) by (cases "tid = t") auto
qed simp

lemma indexed_tracesShrink:
  assumes "cache_ok E"
  shows "tracesShrink E b (fst (storeMetric E nd sig b))" and "tracesShrink E b (storeTimeLogs E nd l b)"
proof -
  have set: "tracesShrink E b (fst (cacheSet E nd k v b))" if "isMetricKey k \<or> isLogKey k" for k v
  proof -
    obtain c evs err where set: "cache_Set E (b_cache b) k v = (c, evs, err)" by (metis prod_cases3)
    have "EncodeToString tid \<noteq> k" for tid using that hex_not_indexed [of tid] by auto
    then show ?thesis
      using cache_set_okD(3) [OF assms set] unfolding tracesShrink_def by (simp add: cacheSet_def set)
  qed
  have keys: "tracesShrink E b b1"
    if "cacheSet E nd (metricKey nd) v b = (b1, r) \<or> cacheSet E nd (timeLogKey nd) v b = (b1, r)" for v b1 r
    using that set [of _ v] own_keys by (metis fst_conv)
  have upd: "tracesShrink E b (b1\<lparr>b_metricKeyMap := m, b_metricTimeIndex := t\<rparr>) = tracesShrink E b b1"
    "tracesShrink E b (b1\<lparr>b_logKeyMap := m, b_logTimeIndex := t\<rparr>) = tracesShrink E b b1" for b1 m t
    by (simp_all add: tracesShrink_def)
  have "tracesShrink E b b" by (simp add: tracesShrink_def)
  with keys show "tracesShrink E b (fst (storeMetric E nd sig b))" "tracesShrink E b (storeTimeLogs E nd l b)"
    by (auto simp: storeMetric_def storeTimeLogs_def Let_def upd split: prod.split option.split)
qed

lemma storeTraceLogs_fold:
  assumes "cache_ok E" and "codec_ok E" and "entries_ok E b"
  shows "bufSpans E (fold (\<lambda>t b. fst (storeTraceLogs E nd t (new t) b)) tids b) tid \<subseteq># bufSpans E b tid \<and>
    entries_ok E (fold (\<lambda>t b. fst (storeTraceLogs E nd t (new t) b)) tids b)"
proof (rule fold_inv [where Q = "\<lambda>b'. bufSpans E b' tid \<subseteq># bufSpans E b tid \<and> entries_ok E b'"])
  show "bufSpans E (fst (storeTraceLogs E nd t (new t) b')) tid \<subseteq># bufSpans E b tid \<and>
      entries_ok E (fst (storeTraceLogs E nd t (new t) b'))"
    if "t \<in> set tids" "bufSpans E b' tid \<subseteq># bufSpans E b tid \<and> entries_ok E b'" for t b'
    using that(2) storeTraceLogs_bufSpans [OF assms(1,2), of b'] by (blast intro: subset_mset.trans)
qed (simp add: assms(3))

text \<open>Storing a signal adds at most its own spans, whatever the cache does.\<close>

lemma Store_bufSpans:
  assumes "cache_ok E" and "codec_ok E" and "marshal_clean E" and "entries_ok E b" and "range_ok nd"
  shows "bufSpans E (fst (Store E nd sig b)) tid \<subseteq>#
      bufSpans E b tid + mset (filter (\<lambda>s. span_traceID s = tid) (signalSpans sig)) \<and>
    entries_ok E (fst (Store E nd sig b))"
proof (cases sig)
  case (SigTrace s)
  let ?m = "groupItems (be_pd E) (flatSpans (ts_Traces s)) []"
  note range = groups_range(1,2) [OF assms(5), where P = "be_pd E" and items = "flatSpans (ts_Traces s)"]
  note step = storeTraces_bufSpans [OF assms(1-3) range(1) assms(4), where nd = nd and tid = tid
      and new = "\<lambda>t. the (map_of ?m t)"]
  have "(if tid \<in> set (nd_range nd (map fst ?m)) then mset (spans_of (the (map_of ?m tid))) else {#}) \<subseteq>#
      mset (filter (\<lambda>s. span_traceID s = tid) (signalSpans sig))"
    using range(2) [of tid] by (simp add: SigTrace spans_itemsFor)
  from subset_mset.add_left_mono [OF this] conjunct1 [OF step]
  have "bufSpans E (fst (storeTraces E nd s b)) tid \<subseteq>#
      bufSpans E b tid + mset (filter (\<lambda>s. span_traceID s = tid) (signalSpans sig))"
    unfolding storeTraces_def groupSpans_flat Let_def fst_conv by (rule subset_mset.trans [rotated])
  then show ?thesis using conjunct2 [OF step] by (simp add: SigTrace storeTraces_def groupSpans_flat Let_def)
next
  case (SigMetric s)
  then show ?thesis
    using indexed_tracesShrink(1) [OF assms(1)] tracesShrink_bufSpans entries_ok_shrink assms(4) by fastforce
next
  case (SigLog s)
  obtain tl l where split: "splitRecords (be_pd E) (ls_Logs s) = (tl, l)" by fastforce
  let ?b1 = "fold (\<lambda>t b. fst (storeTraceLogs E nd t (the (map_of tl t)) b)) (nd_range nd (map fst tl)) b"
  have one: "bufSpans E ?b1 tid \<subseteq># bufSpans E b tid" "entries_ok E ?b1"
    using storeTraceLogs_fold [OF assms(1,2,4), where new = "\<lambda>t. the (map_of tl t)"] by simp_all
  have rest: "tracesShrink E ?b1 (fst (storeSplitLogs E nd s b))"
    using indexed_tracesShrink(2) [OF assms(1)]
    by (simp add: storeSplitLogs_def split Let_def tracesShrink_cache split: option.split)
  show ?thesis
    using subset_mset.trans [OF tracesShrink_bufSpans [OF rest] one(1)] entries_ok_shrink [OF rest one(2)]
    by (simp add: SigLog)
qed (simp add: assms(4))

subsection \<open>Steps of a node\<close>

text \<open>A call sends its request at most once: it is accepted by the backend, or it is not.\<close>

definition rpc_once :: "'x rpc \<Rightarrow> bool" where
  "rpc_once R \<longleftrightarrow> (\<forall>e x. rpc_sent R (fst (rpc_Export R e x)) = rpc_sent R x \<or>
     rpc_sent R (fst (rpc_Export R e x)) = rpc_sent R x @ [e])"

lemma rpc_onceD: "rpc_once R \<Longrightarrow> rpc_sent R (fst (rpc_Export R e x)) = rpc_sent R x \<or>
    rpc_sent R (fst (rpc_Export R e x)) = rpc_sent R x @ [e]"
  by (simp add: rpc_once_def)

fun requestSpans :: "Export \<Rightarrow> Span list" where
  "requestSpans (OutTraces t) = spans_of t"
| "requestSpans (OutMetrics m) = []"
| "requestSpans (OutLogs l) = []"

text \<open>The spans in all trace requests that the backend has accepted.\<close>

definition sentSpans :: "'x rpc \<Rightarrow> ('s, 'x) Processor \<Rightarrow> Span multiset" where
  "sentSpans R p = mset (concat (map requestSpans (rpc_sent R (pr_exporter p))))"

lemma sentSpans_exporter: "pr_exporter p' = pr_exporter p \<Longrightarrow> sentSpans R p' = sentSpans R p"
  by (simp add: sentSpans_def)

lemma export_sentSpans:
  assumes "rpc_once R"
  shows "sentSpans R (exportMetrics (otlpExporter R) m p) = sentSpans R p"
    and "sentSpans R (exportLogs (otlpExporter R) l p) = sentSpans R p"
    and "sentSpans R (p\<lparr>pr_exporter := fst (ex_ExportTrace (otlpExporter R) ts (pr_exporter p))\<rparr>) \<subseteq>#
      sentSpans R p + mset (spans_of (ts_Traces ts))"
  using rpc_onceD [OF assms, of "OutMetrics m" "pr_exporter p"] rpc_onceD [OF assms, of "OutLogs l" "pr_exporter p"]
    rpc_onceD [OF assms, of "OutTraces (ts_Traces ts)" "pr_exporter p"]
  by (auto simp: sentSpans_def exportMetrics_def exportLogs_def export_defs)

lemma sentSpans_buffer [simp]: "sentSpans R (p\<lparr>pr_buffer := b\<rparr>) = sentSpans R p"
  by (simp add: sentSpans_def)

lemma window_sentSpans:
  assumes "rpc_once R"
  shows "sentSpans R (sampleTraceLogs P M (otlpExporter R) tid p) = sentSpans R p"
    and "sentSpans R (sampleMetrics P M (otlpExporter R) a b p) = sentSpans R p"
    and "sentSpans R (sampleLogs P M (otlpExporter R) a b p) = sentSpans R p"
  by (simp_all add: sampleTraceLogs_def sampleMetrics_def sampleLogs_def Let_def export_sentSpans [OF assms]
      split: option.split)

lemma sampleTrace_sentSpans:
  assumes "rpc_once R"
  shows "sentSpans R (sampleTrace P (inMemoryManager E nd) (otlpExporter R) tid p) \<subseteq>#
      sentSpans R p + bufSpans E (pr_buffer p) tid"
proof (cases "GetTrace E (pr_buffer p) tid")
  case (Some trace)
  let ?t = "trace\<lparr>ts_Traces := addProcessingLabelToTraces P (ts_Traces trace)\<rparr>"
  have "sentSpans R (sampleTrace P (inMemoryManager E nd) (otlpExporter R) tid p) =
      sentSpans R ((countSampled p)\<lparr>pr_exporter := fst (ex_ExportTrace (otlpExporter R) ?t (pr_exporter (countSampled p)))\<rparr>)"
    by (simp add: sampleTrace_def mgr_sel Some Let_def)
  moreover have "sentSpans R (countSampled p) = sentSpans R p" by (simp add: sentSpans_def)
  moreover have "bufSpans E (pr_buffer p) tid = mset (spans_of (ts_Traces ?t))"
    by (simp add: bufSpans_def traceOf_def Some)
  ultimately show ?thesis using export_sentSpans(3) [OF assms, where p = "countSampled p" and ts = ?t] by simp
qed (simp add: sampleTrace_def mgr_sel)

lemma decide_sentSpans:
  assumes "rpc_once R"
  shows "sentSpans R (decide E nd R d p) \<subseteq># sentSpans R p +
    (case decisionTraceID d of None \<Rightarrow> {#} | Some tid \<Rightarrow> bufSpans E (pr_buffer p) tid)"
  by (auto simp: processDecision_def window_sentSpans [OF assms] intro: sampleTrace_sentSpans [OF assms]
      split: option.split)

lemma rollup_sentSpans:
  assumes "rpc_once R" and "rollup E nd R now p = Inr p'"
  shows "sentSpans R p' = sentSpans R p"
proof -
  have count: "sentSpans R (countRollups n q) = sentSpans R q"
    "sentSpans R (q\<lparr>pr_evictedMetrics := ms, pr_evictedLogs := ls\<rparr>) = sentSpans R q" for n ms ls q
    by (simp_all add: sentSpans_def)
  have phase: "rollupMetrics P M (otlpExporter R) s e ms q = Inr q' \<Longrightarrow> sentSpans R q' = sentSpans R q"
    "rollupLogs P M (otlpExporter R) s e ls q = Inr q' \<Longrightarrow> sentSpans R q' = sentSpans R q"
    for P M s e ms ls q q'
    by (auto simp: rollupMetrics_def rollupLogs_def Let_def res_bind_Inr_iff export_sentSpans [OF assms(1)] count
        split: if_splits)
  show ?thesis
    using assms(2) by (auto simp: performRollup_def Let_def res_bind_Inr_iff count dest!: phase)
qed

lemma rollup_tracesShrink:
  assumes "cache_ok E" and "btree_ok E" and "buf_inv E (pr_buffer p)" and "rollup E nd R now p = Inr p'"
  shows "tracesShrink E (pr_buffer p) (pr_buffer p')"
proof -
  have dels: "tracesShrink E b (RemoveMetricsInRange E nd b s e)" "tracesShrink E b (RemoveLogsInRange E nd b s e)"
    if "buf_inv E b" for b s e
    unfolding RemoveMetricsInRange_def RemoveLogsInRange_def
    using cacheDeletes(2) [OF assms(1,2) that] by (blast intro: shrinks_traces)+
  have trans: "tracesShrink E a b \<Longrightarrow> tracesShrink E b c \<Longrightarrow> tracesShrink E a c" for a b c
    unfolding tracesShrink_def by metis
  have refl: "tracesShrink E b b" for b by (simp add: tracesShrink_def)
  let ?M = "inMemoryManager E nd" and ?a = zeroTime and ?b = "rollupEnd now"
  let ?p = "p\<lparr>pr_evictedMetrics := [], pr_evictedLogs := []\<rparr>"
  obtain p1 where 1: "rollupMetrics (be_pd E) ?M (otlpExporter R) ?a ?b
      (bm_GetMetricsInRange ?M (pr_buffer p) ?a ?b @ pr_evictedMetrics p) ?p = Inr p1"
    and 2: "rollupLogs (be_pd E) ?M (otlpExporter R) ?a ?b
      (bm_GetLogsInRange ?M (pr_buffer p) ?a ?b @ pr_evictedLogs p) p1 = Inr p'"
    using proc.performRollup_phases [OF assms(4)] .
  have "cache_ok E \<and> btree_ok E \<and> buf_inv E (pr_buffer ?p)" using assms by simp
  from proc.rollupMetrics_buffer(1) [OF this 1] have inv: "buf_inv E (pr_buffer p1)" by blast
  have "tracesShrink E (pr_buffer p) (pr_buffer p1)"
    using 1 dels [OF assms(3)] refl
    by (auto simp: rollupMetrics_def Let_def res_bind_Inr_iff exportMetrics_def mgr_sel split: if_splits)
  moreover have "tracesShrink E (pr_buffer p1) (pr_buffer p')"
    using 2 dels [OF inv] refl
    by (auto simp: rollupLogs_def Let_def res_bind_Inr_iff exportLogs_def mgr_sel split: if_splits)
  ultimately show ?thesis by (rule trans)
qed

text \<open>How often a span has been sent by a node or is still in its buffer.\<close>

definition spanCount :: "('c, 't, 'w, 'q, 'x) libs \<Rightarrow> ('c, 't, 'w, 'q, 'x) Node \<Rightarrow> Span \<Rightarrow> nat" where
  "spanCount L n s = count (sentSpans (lib_rpc L) (n_proc n)) s +
     count (bufSpans (lib_buf L) (n_buffer n) (span_traceID s)) s"

lemma spanCount_mono:
  assumes "sentSpans (lib_rpc L) (n_proc n') = sentSpans (lib_rpc L) (n_proc n)"
    and "tracesShrink (lib_buf L) (n_buffer n) (n_buffer n')"
  shows "spanCount L n' s \<le> spanCount L n s"
  using tracesShrink_bufSpans [OF assms(2)] by (simp add: spanCount_def assms(1) mset_subset_eq_count)

lemma typed_entries_ok: "well_typed E b \<Longrightarrow> entries_ok E b"
  unfolding well_typed_def entries_ok_def entry_typed_def using hex_not_indexed by fastforce

lemma decide_spanCount:
  assumes "cache_ok E" and "btree_ok E" and "buf_inv E (pr_buffer p)" and "isolated E (pr_buffer p)" and "rpc_once R"
  shows "count (sentSpans R (decide E nd R d p)) s + count (bufSpans E (pr_buffer (decide E nd R d p)) (span_traceID s)) s \<le>
    count (sentSpans R p) s + count (bufSpans E (pr_buffer p) (span_traceID s)) s"
proof (cases "decisionTraceID d")
  case (Some tid)
  have "sentSpans R (decide E nd R d p) \<subseteq># sentSpans R p + bufSpans E (pr_buffer p) tid"
    using decide_sentSpans [OF assms(5), of E nd d p] by (simp add: Some)
  from mset_subset_eq_count [OF this, of s]
  have sent: "count (sentSpans R (decide E nd R d p)) s \<le> count (sentSpans R p) s + count (bufSpans E (pr_buffer p) tid) s"
    by simp
  show ?thesis
  proof (cases "span_traceID s = tid")
    case True
    have "bufSpans E (pr_buffer (decide E nd R d p)) tid = {#}"
      using decide_clears [OF assms(1-3) Some, of nd R] by (simp add: bufSpans_def traceOf_def)
    then show ?thesis using sent True by simp
  next
    case False
    have "s \<notin> set (spans_of (traceOf E (pr_buffer p) tid))"
      using False isolated_GetTrace [OF assms(4), of tid] by (auto simp: traceOf_def split: option.splits)
    then have "count (bufSpans E (pr_buffer p) tid) s = 0" by (simp add: bufSpans_def)
    moreover have "bufSpans E (pr_buffer (decide E nd R d p)) (span_traceID s) \<subseteq># bufSpans E (pr_buffer p) (span_traceID s)"
      by (rule tracesShrink_bufSpans [OF shrinks_traces [OF decide_shrinks [OF assms(1-3)]]])
    note mset_subset_eq_count [OF this, of s]
    ultimately show ?thesis using sent by linarith
  qed
qed (simp add: processDecision_def)

lemma node_loop_spanCount:
  assumes "libs_ok L" and "node_inv L n" and "isolated (lib_buf L) (n_buffer n)" and "rpc_once (lib_rpc L)"
    and "node_loop L cfg n n'"
  shows "spanCount L n' s \<le> spanCount L n s"
proof -
  have ok: "cache_ok (lib_buf L)" "btree_ok (lib_buf L)" "buf_inv (lib_buf L) (n_buffer n)"
    using assms(1,2) by (simp_all add: libs_ok_def node_inv_def)
  have same: "spanCount L n'' s = spanCount L n s" if "n_proc n'' = n_proc n" for n''
    using that by (simp add: spanCount_def)
  show ?thesis
    using assms(5)
  proof (cases rule: node_loop.cases)
    case (decision d ch nd)
    then show ?thesis using decide_spanCount [OF ok assms(3,4)] by (simp add: spanCount_def)
  next
    case (rollup nd now p)
    then show ?thesis
      using rollup_sentSpans [OF assms(4) rollup(2)] rollup_tracesShrink [OF ok rollup(2)]
      by (intro spanCount_mono) simp_all
  next
    case (clean nd)
    have "tracesShrink (lib_buf L) (n_buffer n) (cacheClean (lib_buf L) nd (n_buffer n))"
      by (rule shrinks_traces [OF cacheClean_shrinks [OF ok(1)]])
    then show ?thesis using clean by (intro spanCount_mono) (simp_all add: sentSpans_def)
  next
    case (load now)
    then show ?thesis using same [OF loadTick_proc [OF load]] by simp
  next
    case (truncate now)
    then show ?thesis using same [OF truncationTick_proc] by simp
  next
    case (evicted sig ch)
    then show ?thesis by (intro spanCount_mono) (simp_all add: sentSpans_def tracesShrink_def)
  next
    case (trigger t ch)
    then show ?thesis by (intro spanCount_mono) (simp_all add: sentSpans_def tracesShrink_def)
  qed
qed

lemma Store_spanCount:
  assumes "cache_ok E" and "codec_ok E" and "marshal_clean E" and "entries_ok E b" and "range_ok nd"
  shows "count (bufSpans E (fst (Store E nd sig b)) (span_traceID s)) s \<le>
    count (bufSpans E b (span_traceID s)) s + count (mset (signalSpans sig)) s"
proof -
  have "bufSpans E (fst (Store E nd sig b)) (span_traceID s) \<subseteq># bufSpans E b (span_traceID s) +
      mset (filter (\<lambda>x. span_traceID x = span_traceID s) (signalSpans sig))"
    using Store_bufSpans [OF assms] by blast
  from mset_subset_eq_count [OF this, of s] show ?thesis by simp
qed

lemma Consume_spanCount:
  assumes "libs_ok L" and "codec_ok (lib_buf L)" and "marshal_clean (lib_buf L)" and "entries_ok (lib_buf L) (n_buffer n)"
    and "range_ok nd" and "Consume L cfg nd now sig n = Inr (n', err)"
  shows "spanCount L n' s \<le> spanCount L n s + count (mset (signalSpans sig)) s"
proof -
  have "n_buffer n' = n_buffer n \<or> n_buffer n' = fst (Store (lib_buf L) nd sig (n_buffer n))"
    using assms(6) by (auto simp: Consume_def Let_def res_bind_Inr_iff split: prod.splits option.splits)
  moreover have "cache_ok (lib_buf L)" using assms(1) by (simp add: libs_ok_def)
  moreover have "sentSpans (lib_rpc L) (n_proc n') = sentSpans (lib_rpc L) (n_proc n)"
    by (rule sentSpans_exporter [OF Consume_exporter [OF assms(6)]])
  ultimately show ?thesis
    using Store_spanCount [OF _ assms(2-5), of sig s] by (auto simp: spanCount_def)
qed

subsection \<open>Runs of a cluster\<close>

lemma node_entries_ok:
  assumes "libs_ok L" and "codec_ok (lib_buf L)" and "outside_ok L out" and "node_reachable L cfg out n"
  shows "entries_ok (lib_buf L) (n_buffer n)"
proof -
  obtain c where c: "out_cache out = Inr c" "buf_reachable (lib_buf L) c (out_tree out) (n_buffer n)"
    using node_buffer_reachable [OF assms(1,3,4)] by blast
  then have "well_typed (lib_buf L) (buffer_New c (out_tree out))"
    using assms(3) by (simp add: outside_ok_def well_typed_def buffer_New_def)
  then have "well_typed (lib_buf L) (n_buffer n)"
    using typed.Q_reachable [OF c(2)] assms(1,2) by (simp add: libs_ok_def)
  then show ?thesis by (rule typed_entries_ok)
qed

text \<open>What the log holds is put into the buffer once.\<close>

lemma replay_spanCount:
  assumes "cache_ok E" and "codec_ok E" and "marshal_clean E" and "entries_ok E (snd ib)" and "freshRun E nds sigs ib"
  shows "count (bufSpans E (snd (fold (storeNext E nds) sigs ib)) (span_traceID s)) s \<le>
    count (bufSpans E (snd ib) (span_traceID s)) s + count (mset (concat (map signalSpans sigs))) s"
  using assms(4,5)
proof (induction sigs arbitrary: ib)
  case (Cons sig sigs)
  have range: "range_ok (nds (fst ib))" using Cons.prems(2) fresh_range by auto
  have "entries_ok E (snd (storeNext E nds sig ib))"
    using Store_bufSpans [OF assms(1-3) Cons.prems(1) range] by (simp add: storeNext_def)
  then have "count (bufSpans E (snd (fold (storeNext E nds) (sig # sigs) ib)) (span_traceID s)) s \<le>
      count (bufSpans E (snd (storeNext E nds sig ib)) (span_traceID s)) s + count (mset (concat (map signalSpans sigs))) s"
    using Cons.IH Cons.prems(2) by simp
  also have "\<dots> \<le> count (bufSpans E (snd ib) (span_traceID s)) s + count (mset (signalSpans sig)) s +
      count (mset (concat (map signalSpans sigs))) s"
    using Store_spanCount [OF assms(1-3) Cons.prems(1) range, of sig s] by (simp add: storeNext_def)
  finally show ?case by simp
qed simp

text \<open>The spans that clients have handed to node \<open>i\<close>, with repetitions.\<close>

definition received :: "nat \<Rightarrow> (nat \<times> Signal) list \<Rightarrow> Span multiset" where
  "received i seen = mset (concat (map (\<lambda>(j, sig). if j = i then signalSpans sig else []) seen))"

lemma received_simps [simp]:
  "received i [] = {#}"
  "received i ((j, sig) # seen) = (if j = i then mset (signalSpans sig) else {#}) + received i seen"
  by (simp_all add: received_def)

lemma start_spanCount:
  assumes "cluster_ok L items out" and "startNode L (out i) cfg nds = Inr n" and "freshStart L (out i) nds"
    and "out_wal (out i) = Inr w"
  shows "spanCount L n s \<le> count (mset (concat (map signalSpans (logged (lib_wal L) w)))) s"
proof -
  let ?E = "lib_buf L"
  have ok: "cache_ok ?E" "codec_ok ?E" "marshal_clean ?E" "outside_ok L (out i)"
    "\<And>e x. out_client (out i) e = Inr x \<Longrightarrow> rpc_sent (lib_rpc L) x = []" "wal_ok (lib_wal L)"
    using assms(1) by (simp_all add: cluster_ok_def libs_ok_def)
  obtain c x tel gsp where c: "out_cache (out i) = Inr c"
    and n: "n = \<lparr>n_proc = processor_New (replayInto ?E (lib_wal L) nds w (buffer_New c (out_tree (out i))))
        (rollup_New (cfg_Rollup cfg)) x tel, n_wal = Some w, n_gossip = gsp, n_highLoadActive = False\<rparr>"
    using assms(4) by (rule_tac startNode_Inr [OF assms(2)]) simp
  have "wl_valid (lib_wal L) w" and none: "cache_Get ?E c k = None" for k
    using ok(4) assms(4) c by (simp_all add: outside_ok_def)
  then have buf: "n_buffer n = snd (fold (storeNext ?E nds) (logged (lib_wal L) w) (0, buffer_New c (out_tree (out i))))"
    by (simp add: n processor_New_def replayInto_eq [OF ok(6)])
  have fresh: "freshRun ?E nds (logged (lib_wal L) w) (0, buffer_New c (out_tree (out i)))"
    using assms(3,4) c by (simp add: freshStart_def)
  have "entries_ok ?E (buffer_New c (out_tree (out i)))"
    "bufSpans ?E (buffer_New c (out_tree (out i))) tid = {#}" for tid
    by (simp_all add: entries_ok_def buffer_New_def none bufSpans_gone)
  then have "count (bufSpans ?E (n_buffer n) (span_traceID s)) s \<le>
      count (mset (concat (map signalSpans (logged (lib_wal L) w)))) s"
    using replay_spanCount [OF ok(1-3) _ fresh, of s] by (simp add: buf)
  moreover obtain endpoint where "out_client (out i) endpoint = Inr (pr_exporter (n_proc n))"
    using startNode_exporter [OF assms(2)] by blast
  ultimately show ?thesis using ok(5) by (simp add: spanCount_def sentSpans_def)
qed

lemma cluster_spanCount:
  assumes "cluster_ok L items out" and "rpc_once (lib_rpc L)" and "cluster_reachable L cfg out c"
    and "out_wal (out i) = Inr w"
  shows "spanCount L (cl_nodes c i) s \<le>
    count (received i (cl_seen c)) s + count (mset (concat (map signalSpans (logged (lib_wal L) w)))) s"
  using assms(3)
proof (induction rule: cluster_reachable.induct)
  case (boot nodes)
  then obtain nds where "startNode L (out i) (cfg i) nds = Inr (nodes i)" "freshStart L (out i) nds" by blast
  from start_spanCount [OF assms(1) this assms(4), of s] show ?case by simp
next
  case (run c c')
  have ok: "libs_ok L" "codec_ok (lib_buf L)" "marshal_clean (lib_buf L)" "outside_ok L (out i)"
    using assms(1) by (simp_all add: cluster_ok_def)
  note reach = cluster_node_reachable [OF run(1), of i]
  note entries = node_entries_ok [OF ok(1,2,4) reach]
  show ?case
    using run(2)
  proof (cases rule: cluster_step.cases)
    case (client j n nd now sig n' err)
    then show ?thesis
      using Consume_spanCount [OF ok(1-3) _ fresh_range [OF client(3)] client(4), of s] entries run(3)
      by (cases "j = i") simp_all
  next
    case (goroutine j n')
    have "spanCount L n' s \<le> spanCount L (cl_nodes c i) s" if "j = i"
      using node_loop_spanCount [OF ok(1) _ node_isolated [OF ok reach] assms(2)] goroutine(2)
        node_reachable_inv [OF ok(1,4) reach] that by simp
    then show ?thesis using goroutine(1) run(3) by (cases "j = i") auto
  next
    case (send j n ov lim msgs m)
    then show ?thesis using run(3) by (cases "j = i") (auto simp: spanCount_def)
  next
    case (deliver j n msg)
    then show ?thesis using run(3) by (cases "j = i") (auto simp: spanCount_def)
  qed
qed



end
