(* ===== verification/Spec2Isabelle.thy ===== *)
theory Spec2Isabelle
  imports Shutdown TraceStore Locks Load Conservation
begin

text \<open>
  A tail sampler for OpenTelemetry: a cluster of nodes that receive spans, metrics and logs over
  OTLP, buffer them, decide after the fact which traces are worth keeping, and send those to a
  backend together with the metrics and logs around them; everything else is aggregated.

  \<^bold>\<open>The program and the theories.\<close>  A client's request reaches \<open>internal/receiver\<close>, which
  wraps it into a signal and hands it to the consumer of \<open>cmd/server\<close>.  The consumer writes it to
  the write-ahead log (\<open>internal/wal\<close>), stores it in the buffer (\<open>internal/buffer\<close>) and, for
  spans, asks the decision engine (\<open>internal/decision\<close>).  A decision is broadcast by
  \<open>internal/gossip\<close> and comes out of the decision channel of every node, where
  \<open>internal/processor\<close> takes the trace out of the buffer and exports it
  (\<open>internal/exporter\<close>).  What stays behind is aggregated by \<open>internal/rollup\<close> every few
  seconds, more coarsely when a node announces high load.

  \<^item> \<open>Prelude\<close>: results with panics, buffered channels (locale \<open>lossy_queue\<close>), queues that are
    served again and again (locale \<open>served_queue\<close>), encoders (locale \<open>codec\<close>), the merge loop of the
    rollups (locales \<open>keyed_merge\<close> and \<open>keyed_merge_sum\<close>).
  \<^item> \<open>GoStd\<close>: \<open>time.Time\<close>, \<open>UnixNano\<close> with its wrap-around, hexadecimal and decimal text,
    \<open>float64\<close>.
  \<^item> \<open>Pdata\<close>: the OTLP data model; the parts of its library that the program calls are the
    parameter \<open>pdata\<close>.
  \<^item> \<open>Signals\<close>: \<open>pkg/signals\<close>, \<open>internal/config\<close>, \<open>internal/gossip/messages.go\<close> and the
    interface \<open>Broadcaster\<close> (locale \<open>broadcaster\<close>).
  \<^item> \<open>Gossip\<close>: \<open>internal/gossip/gossip.go\<close> and the messages of \<open>internal/gossip/pb\<close>.
  \<^item> \<open>Decision\<close>: \<open>internal/decision/engine.go\<close>; the three checks share the locale
    \<open>span_policy\<close>.
  \<^item> \<open>Rollup\<close>: \<open>internal/rollup/rollup.go\<close>.
  \<^item> \<open>BufferSpec\<close>: the interface \<open>buffer.Manager\<close> (locale \<open>buffer_manager\<close>);
    \<open>Buffer\<close>: \<open>internal/buffer/buffer.go\<close> and its invariant; \<open>BufferCorrect\<close>: the
    interpretation of the interface, what a batch leaves in the traces (locale
    \<open>group_store\<close>), range queries; \<open>BufferExample\<close>: a concrete cache, tree and encoding;
    \<open>BufferProps\<close>: the properties of the buffer; \<open>BufferRaces\<close>: predicates that all its
    operations keep (locale \<open>buffer_batches\<close> when a write stays within its trace, and
    \<open>buffer_stable\<close> for any write, which is a case of it), the kinds of the cache entries, and
    the two halves of \<open>storeMetric\<close> with other goroutines in between.
  \<^item> \<open>Locks\<close>: the lock actions of the buffer's operations, interleaved (locale
    \<open>ordered_locking\<close>).
  \<^item> \<open>Telemetry\<close>, \<open>Exporter\<close> (locale \<open>exporter\<close>), \<open>Discovery\<close>, \<open>Receiver\<close>: the packages
    of these names.
  \<^item> \<open>Processor\<close>: \<open>internal/processor/processor.go\<close> over the interfaces of the buffer and the
    exporter (locales \<open>processor_buffer\<close> and \<open>processor_env\<close>); \<open>Sampling\<close>: the same on the
    buffer and the exporter of the repository.
  \<^item> \<open>Wal\<close>, \<open>WalProps\<close>: \<open>internal/wal/manager.go\<close> (locale \<open>signal_log\<close>).
  \<^item> \<open>Server\<close>: \<open>cmd/server/main.go\<close>, the state of a node, its background goroutines as the step
    relation \<open>node_loop\<close>, all its steps as \<open>node_step\<close>, and its invariant; \<open>NodeExample\<close>: a
    concrete node; \<open>Recovery\<close>: what a replay of the log restores; \<open>Cluster\<close>: several nodes and
    the network between them; \<open>TraceStore\<close>: the buffer as a refinement of a map from traces to
    their contents (locale \<open>simulation\<close>); \<open>Progress\<close>: fair runs of a node; \<open>Shutdown\<close>: the end of
    \<open>main\<close> with its deferred calls.
  \<^item> Across components: \<open>Isolation\<close>: the entries of traces never mix, and what a cluster sends was
    asked for; \<open>Conservation\<close>: no span is sent twice; \<open>Repeats\<close>: decisions that come again,
    spans that come late and traces that come back (locale \<open>repeat_processor\<close>); \<open>Load\<close>: the load
    monitor and the rollup level, in one node and in a cluster.
  \<^item> this theory: the properties of a whole node.

  \<^bold>\<open>State and operations.\<close>  A struct of the code is a record with the same fields, less its locks,
  its debug flag and the handles of libraries; an operation is a function that takes and returns the
  record.  Errors are values (\<open>error option\<close> or a sum), panics are the left side of \<open>'a res\<close>.
  Integers of the code that can wrap around are 64-bit words, instants are unbounded nanoseconds
  since 1970, and their conversion is \<open>UnixNano\<close>.  The clock, fresh UUIDs and the iteration order
  of Go maps are arguments (\<open>nondet\<close>).

  \<^bold>\<open>Libraries.\<close>  Code that is not in the repository is a parameter: a record of functions, with a
  predicate for what its documentation promises.  \<open>bufenv\<close> holds BigCache, the B-tree, gob and the
  OTLP marshalers (\<open>cache_ok\<close>, \<open>btree_ok\<close>, \<open>codec_ok\<close>; \<open>marshal_clean\<close>: a failed marshalling
  yields no bytes), \<open>walenv\<close> the log library
  (\<open>wal_ok\<close>, \<open>walcodec_ok\<close>), \<open>gossip_env\<close> Protobuf and the transmit queue (\<open>proto_ok\<close>,
  \<open>tspb_ok\<close>), \<open>rpc\<close> the gRPC clients (\<open>rpc_ok\<close>; \<open>rpc_faithful\<close> and
  \<open>rpc_once\<close>: a call sends its own request, and at most once), \<open>pdata\<close> the OTLP library
  (\<open>pdata_ok\<close>), \<open>Resolver\<close> the DNS resolver, \<open>cacheLocks\<close> how BigCache locks its shards
  (\<open>sharded\<close>, \<open>callbacks_outside\<close> or \<open>callbacks_inside\<close>), \<open>closers\<close> the closing operations
  (\<open>closers_ok\<close>), and \<open>outside\<close> what the start of a node finds.
  Each predicate is shown to hold of a concrete instance, on which the witnesses are evaluated.

  \<^bold>\<open>What is proved.\<close> For a node: its invariant in every reachable state, that
  consuming a signal never panics, that a matched trace goes from the wire to the backend with all
  its buffered spans, that every decision is acted on in a fair run, that a replay of the log
  restores the traces, how load changes the rollup level, and what a shutdown still lets in and what
  it loses. For a cluster: that a trace spread over nodes is sampled as a whole; that every
  decision and every trace request has a cause, and that no request mixes traces; that a span is sent
  at most as often as it came in; that acting on a decision again changes nothing; that load at one
  node reaches the level of all; and where this ends: a decision does not survive a restart, a
  restart brings sampled traces back, spans that come late stay behind, logs without spans of their
  trace are sent again and again, and a peer can end the coarse level of a loaded node.
  For the buffer: the exactness of its indices under any operations and evictions, that it keeps the
  traces apart, its refinement of an abstract store of traces, the kinds of its entries, what
  storing, querying and removing do, what is lost, when its locks can deadlock and when they cannot. For the
  engine: it refines the first matching policy, with the window and the trace it names. For the
  rollups: conservation of sums and counts, grouping, completion, and the inputs that make them
  panic or mix up resources. For the log: faithful replay and truncation. For gossip: round trips of
  both messages and bounded channels.

  \<^bold>\<open>Bounds.\<close>  All functions are total; no fuel is used.  Instants in messages and in the log must be
  in the range of a Protobuf timestamp (\<open>ts_range\<close>), span times must fit a signed 64-bit number
  (\<open>span_times_ok\<close>, until 2262), and a count that is compared as a \<open>float64\<close> must be below
  \<open>2 ^ 53\<close>.  Statements about the contents of traces are for batches during which the cache
  evicts nothing (\<open>quietTraces\<close> and its relatives); what evictions do is stated separately.

  \<^bold>\<open>Not modelled.\<close>  Logging; the inside of the libraries; generated Protobuf accessors and
  reflection; the SDK of the telemetry; the event delegate of the member list, which only logs, and
  the notification channel of a broadcast, which is always nil; tests and deployment files.
  Operations are atomic steps of a node: what a finer interleaving can do is shown for the
  read-modify-write of a trace (\<open>BufferProps\<close>), for \<open>storeMetric\<close> (\<open>BufferRaces\<close>) and for the
  locks alone (\<open>Locks\<close>), not for all operations at once.  In the shutdown the flush of the
  telemetry has no effect on the state, and the cleaning of a closed cache may go on.
\<close>

subsection \<open>A node at any time\<close>



text \<open>
  A running node answers every signal a client sends: consuming it never panics, whatever the
  signal is and whatever the log and the cache report.
\<close>

theorem consume_never_panics:
  assumes "libs_ok L" and "outside_ok L out" and "node_reachable L cfg out n"
  shows "\<exists>n' err. Consume L (cfg_Decision cfg) nd now sig n = Inr (n', err)"
proof -
  have "node_inv L n" using node_reachable_inv [OF assms(1,2)] assms(3) .
  then have "gm_broadcasts (n_gossip n) \<noteq> None" by (simp add: node_inv_def gossip_inv_def)
  then have "\<exists>m. consumeDecision L (cfg_Decision cfg) now sig (n_gossip n) = Inr m"
    by (simp add: consumeDecision_def EvaluateTrace_returns split: Signal.split)
  then show ?thesis by (auto simp: Consume_def Let_def split: prod.split option.split)
qed

theorem consume_never_panics_witness:
  "node_reachable libs_example DefaultConfig outside_example node_example \<and>
   (\<exists>n' err. Consume libs_example (cfg_Decision DefaultConfig) (nd_example 5 ''u'') 7
      (wal_signal 5) node_example = Inr (n', err))"
  using consume_never_panics [OF libs_example_ok node_example_reachable] node_example_reachable by blast

subsection \<open>From the wire to the backend\<close>

text \<open>
  C1: Tail sampling works end to end.  A batch of spans of one trace that a client exports and
  that some policy matches is answered without an error, and the decision it causes waits in the
  local channel; when it is the next thing the node acts on, the backend is sent one request with
  all spans of the trace, those buffered by earlier batches first, and the trace is taken out of
  the buffer.  The log write must succeed, the buffer must not evict during the batch, and the
  channel must be empty.
\<close>

theorem matched_trace_is_exported:
  fixes L :: "('c, 't, 'w, 'q, 'x) libs" and traces :: Traces and t :: time
  defines "B \<equiv> lib_buf L" and "P \<equiv> be_pd (lib_buf L)" and "R \<equiv> lib_rpc L"
    and "trace \<equiv> \<lparr>ts_Traces = traces, ts_Ctx = ctxAt t\<rparr>"
  assumes "traceid_ok P" and "timestamp_ok P"
    and "store_ok B (n_buffer n)" and "btree_ok B" and "buf_inv B (n_buffer n)"
    and "range_ok nd" and "quietTraces B nd trace (n_buffer n)"
    and "\<forall>s \<in> set (spans_of traces). span_times_ok s \<and> span_traceID s = tid"
    and "\<not> pd_IsEmpty P tid" and "length tid = 16"
    and "find (policyMatched P trace) (dec_Policies cfg) = Some pol"
    and "\<forall>msg. \<not> isl (ge_Marshal (lib_gossip L) msg)" and "gm_broadcasts (n_gossip n) \<noteq> None"
    and "chanQueue (gm_decisionChan (n_gossip n)) = []" and "0 < chanCap (gm_decisionChan (n_gossip n))"
    and "snd (consumeWal (lib_wal L) (SigTrace trace) (n_wal n)) = None"
    and "rpc_ok R" and "rpc_up R (pr_exporter (n_proc n))"
  shows "\<exists>rc' n' d ch. traceReceiver_Export (Consume L cfg nd now) t traces (rc, n) = Inr ((rc', n'), None) \<and>
    recv (gm_decisionChan (n_gossip n')) = Some (d, ch) \<and> sd_Reason d = pol_Name pol \<and>
    (\<exists>out rest. spans_of out = spans_of (traceOf B (n_buffer n) tid) @ spans_of traces \<and>
      rpc_sent R (pr_exporter (decide B nd' R d (n_proc n'))) =
        rpc_sent R (pr_exporter (n_proc n)) @ OutTraces out # rest \<and>
      GetTrace B (pr_buffer (decide B nd' R d (n_proc n'))) tid = None)"
proof -
  let ?d = "batchDecision L now trace pol"
  have tr: "ts_Traces trace = traces" by (simp add: trace_def)
  have batch: "accepts_batch L cfg nd trace tid pol n"
    using assms(7-15,20) unfolding accepts_batch_def tr B_def P_def by blast
  obtain q msg where q: "gm_broadcasts (n_gossip n) = Some q" and msg: "ge_Marshal (lib_gossip L)
      (Some (GossipMessage_SamplingDecision (toPbDecision (lib_gossip L) ?d))) = Inr msg"
    using assms(16,17) by (metis isl_def not_None_eq sum.exhaust)
  obtain n' where n': "Consume L cfg nd now (SigTrace trace) n = Inr (n', None)"
    "gm_decisionChan (n_gossip n') = trySend ?d (gm_decisionChan (n_gossip n))"
    "spans_of (traceOf B (n_buffer n') tid) = spans_of (traceOf B (n_buffer n) tid) @ spans_of traces"
    "spans_of traces \<noteq> []" "decisionTraceID ?d = Some tid" "cache_ok B" "buf_inv B (n_buffer n')"
    "pr_exporter (n_proc n') = pr_exporter (n_proc n)"
    using Consume_matched [OF assms(5,6) [unfolded P_def] batch msg q] unfolding B_def tr by blast
  have run: "traceReceiver_Export (Consume L cfg nd now) t traces (rc, n) = Inr ((countReceived rc, n'), None)"
    using n'(1) by (simp add: traceReceiver_Export_def Let_def trace_def [symmetric])
  have "traceOf B (n_buffer n') tid \<noteq> []" using n'(3,4) by (auto simp: spans_of_def)
  then have "\<exists>out rest. spans_of out = spans_of (traceOf B (n_buffer n) tid) @ spans_of traces \<and>
      rpc_sent R (pr_exporter (decide B nd' R ?d (n_proc n'))) =
        rpc_sent R (pr_exporter (n_proc n)) @ OutTraces out # rest \<and>
      GetTrace B (pr_buffer (decide B nd' R ?d (n_proc n'))) tid = None"
    using decide_exports [OF n'(6) assms(8) n'(7) assms(21) _ n'(5), of nd'] assms(22) n'(3,8) by auto
  moreover have "recv (gm_decisionChan (n_gossip n')) = Some (?d, gm_decisionChan (n_gossip n))"
    using n'(2) recv_trySend_empty [OF assms(18,19)] by simp
  moreover have "sd_Reason ?d = pol_Name pol" by (simp add: decisionFor_def)
  ultimately show ?thesis using run by blast
qed

theorem matched_trace_is_exported_witness:
  "\<exists>rc' n' d ch. traceReceiver_Export (Consume libs_sampling \<lparr>dec_Policies = [policy_example ''error'' 0]\<rparr>
       (nd_example 6 ''v'') 7) 5 (traces_example [span_example tidA StatusCodeError])
       (receiver_New (cfg_Receiver DefaultConfig) None, sampling_node) = Inr ((rc', n'), None) \<and>
     recv (gm_decisionChan (n_gossip n')) = Some (d, ch) \<and>
     (\<exists>out rest. spans_of out = [span_example tidA StatusCodeOk, span_example tidA StatusCodeError] \<and>
       rpc_sent rpc_example (pr_exporter (decide trace_env (nd_example 8 ''w'') rpc_example d (n_proc n'))) =
         OutTraces out # rest)"
proof -
  let ?t = "traces_example [span_example tidA StatusCodeError]"
  let ?s = "\<lparr>ts_Traces = ?t, ts_Ctx = ctxAt 5\<rparr>"
  have P: "be_pd trace_env = pdata_example" by (simp add: trace_env_def buf_example_def)
  have policy: "find (policyMatched pdata_example ?s) (dec_Policies \<lparr>dec_Policies = [policy_example ''error'' 0]\<rparr>) =
      Some (policy_example ''error'' 0)"
    by (simp add: policyMatched_iff policySpan_def policy_example_def spanError_def span_example_def
        traces_example_def spans_of_def)
  have log: "snd (consumeWal (lib_wal libs_sampling) (SigTrace ?s) (n_wal sampling_node)) = None" by code_simp
  have spans: "spans_of ?t = [span_example tidA StatusCodeError]"
    "\<forall>s \<in> set (spans_of ?t). span_times_ok s \<and> span_traceID s = tidA"
    by (simp_all add: span_example_def span_times_ok_def traces_example_def spans_of_def)
  have gossip: "\<forall>msg. \<not> isl (ge_Marshal env_always msg)" "gm_broadcasts manager_example \<noteq> None"
    "chanQueue (gm_decisionChan manager_example) = []" "0 < chanCap (gm_decisionChan manager_example)"
    by (simp add: env_always_def, code_simp+)
  have tid: "\<not> pd_IsEmpty pdata_example tidA" "length tidA = 16" by code_simp+
  have backend: "rpc_up rpc_example []" "rpc_sent rpc_example [] = []" by (simp_all add: rpc_example_def)
  have tree: "btree_ok trace_env" by (simp add: trace_env_def buf_example_laws)
  note run = matched_trace_is_exported [of libs_sampling sampling_node "nd_example 6 ''v''" ?t 5 tidA
      "\<lparr>dec_Policies = [policy_example ''error'' 0]\<rparr>" "policy_example ''error'' 0" 7
      "receiver_New (cfg_Receiver DefaultConfig) None" "nd_example 8 ''w''", unfolded sampling_sel P,
      OF example_laws(1,2) trace_buffer_store_ok tree trace_buffer_inv nd_example_range_ok sampling_quiet
        spans(2) tid policy gossip log rpc_example_ok backend(1)]
  then show ?thesis unfolding trace_buffer_holds spans(1) backend(2) append_Cons append_Nil P by blast
qed

end
